(* ===== verification/Broker_Prelude.thy ===== *)
theory Broker_Prelude
  imports Main "HOL-Library.Word" "HOL-Library.List_Lexorder" "HOL-Library.Product_Lexorder"
begin

unbundle bit_operations_syntax

text \<open>
  Shared vocabulary of the broker development.

  \<^item> Rust's \<^verbatim>\<open>u8\<close> is an 8-bit word and \<^verbatim>\<open>Vec<u8>\<close> / \<^verbatim>\<open>&[u8]\<close> a list of them.
  \<^item> The signed integers \<^verbatim>\<open>i8\<close>, \<^verbatim>\<open>i16\<close>, \<^verbatim>\<open>i32\<close>, \<^verbatim>\<open>i64\<close> are mathematical integers
    with their width written out: \<open>in_signed w\<close> is the type's range, \<open>wrap_signed w\<close> the
    two's complement wrap-around of the release profile (the workspace's
    \<^verbatim>\<open>[profile.release]\<close> turns overflow checks off), \<open>sat_add\<close> and \<open>sat_sub\<close> the saturating
    operations. Bit manipulation (checksums, variable length integers, hashes) is done on
    words of the source's width.
  \<^item> \<^verbatim>\<open>usize\<close> is \<open>nat\<close>; \<open>usize_max\<close> is the bound of the 64-bit targets, used where the
    source checks an addition.
  \<^item> \<^verbatim>\<open>BTreeMap\<close> and \<^verbatim>\<open>BTreeSet\<close> are strictly sorted association lists and lists, so that
    iteration in key order is the list itself. \<^verbatim>\<open>Vec<u8>\<close> keys compare lexicographically,
    pairs componentwise, as Rust's derived orders do.
  \<^item> A fallible operation returns a sum, the error on the left.
\<close>

type_synonym byte = "8 word"
type_synonym bytes = "byte list"
type_synonym ('k, 'v) btree_map = "('k \<times> 'v) list"
type_synonym 'k btree_set = "'k list"

named_theorems wire_simps \<open>rewriting of encoders, decoders and byte views\<close>
named_theorems btree_simps \<open>rewriting of ordered map and set operations\<close>

section \<open>Signed machine integers\<close>

definition in_signed :: "nat \<Rightarrow> int \<Rightarrow> bool" where
  "in_signed w x \<longleftrightarrow> - (2 ^ (w - 1)) \<le> x \<and> x < 2 ^ (w - 1)"

abbreviation in_i8 :: "int \<Rightarrow> bool" where "in_i8 \<equiv> in_signed 8"
abbreviation in_i16 :: "int \<Rightarrow> bool" where "in_i16 \<equiv> in_signed 16"
abbreviation in_i32 :: "int \<Rightarrow> bool" where "in_i32 \<equiv> in_signed 32"
abbreviation in_i64 :: "int \<Rightarrow> bool" where "in_i64 \<equiv> in_signed 64"

definition wrap_signed :: "nat \<Rightarrow> int \<Rightarrow> int" where
  "wrap_signed w x = (x + 2 ^ (w - 1)) mod 2 ^ w - 2 ^ (w - 1)"

definition max_signed :: "nat \<Rightarrow> int" where
  "max_signed w = 2 ^ (w - 1) - 1"

definition min_signed :: "nat \<Rightarrow> int" where
  "min_signed w = - (2 ^ (w - 1))"

definition saturate :: "nat \<Rightarrow> int \<Rightarrow> int" where
  "saturate w x = max (min_signed w) (min (max_signed w) x)"

definition sat_add :: "nat \<Rightarrow> int \<Rightarrow> int \<Rightarrow> int" where
  "sat_add w a b = saturate w (a + b)"

definition sat_sub :: "nat \<Rightarrow> int \<Rightarrow> int \<Rightarrow> int" where
  "sat_sub w a b = saturate w (a - b)"

definition usize_max :: nat where
  "usize_max = 2 ^ 64 - 1"

lemma power_signed_half: "0 < w \<Longrightarrow> (2::int) ^ w = 2 * 2 ^ (w - 1)"
  by (cases w) auto

lemma wrap_signed_in_signed [simp, intro]: "0 < w \<Longrightarrow> in_signed w (wrap_signed w x)"
  using pos_mod_bound [of "2 ^ w" "x + 2 ^ (w - 1)"] pos_mod_sign [of "2 ^ w" "x + 2 ^ (w - 1)"]
  by (auto simp: in_signed_def wrap_signed_def power_signed_half)

lemma wrap_signed_id [simp]: "in_signed w x \<Longrightarrow> 0 < w \<Longrightarrow> wrap_signed w x = x"
  by (simp add: in_signed_def wrap_signed_def power_signed_half)

lemma wrap_signed_mod:
  assumes "0 < w"
  shows "wrap_signed w (x mod 2 ^ w) = wrap_signed w x"
  by (simp add: wrap_signed_def mod_simps)

lemma saturate_in_signed [simp, intro]: "in_signed w (saturate w x)"
  by (auto simp: saturate_def in_signed_def min_signed_def max_signed_def)

lemma saturate_id [simp]: "in_signed w x \<Longrightarrow> saturate w x = x"
  by (auto simp: saturate_def in_signed_def min_signed_def max_signed_def)

lemma sat_add_in_signed [simp, intro]: "in_signed w (sat_add w a b)"
  by (simp add: sat_add_def)

lemma sat_sub_in_signed [simp, intro]: "in_signed w (sat_sub w a b)"
  by (simp add: sat_sub_def)

lemma sat_add_exact [simp]: "in_signed w (a + b) \<Longrightarrow> sat_add w a b = a + b"
  by (simp add: sat_add_def)

lemma sat_sub_exact [simp]: "in_signed w (a - b) \<Longrightarrow> sat_sub w a b = a - b"
  by (simp add: sat_sub_def)

lemma sat_add_mono: "in_signed w a \<Longrightarrow> 0 \<le> b \<Longrightarrow> a \<le> sat_add w a b"
  by (auto simp: sat_add_def saturate_def in_signed_def min_signed_def max_signed_def)

lemma sat_add_one_strict: "in_signed w a \<Longrightarrow> a < max_signed w \<Longrightarrow> sat_add w a 1 = a + 1"
  by (auto simp: sat_add_def saturate_def in_signed_def min_signed_def max_signed_def)

section \<open>Ordered maps and sets\<close>

fun bt_get :: "('k, 'v) btree_map \<Rightarrow> 'k \<Rightarrow> 'v option" where
  "bt_get [] k = None"
| "bt_get ((a, v) # m) k = (if k = a then Some v else bt_get m k)"

fun bt_insert :: "'k::linorder \<Rightarrow> 'v \<Rightarrow> ('k, 'v) btree_map \<Rightarrow> ('k, 'v) btree_map" where
  "bt_insert k v [] = [(k, v)]"
| "bt_insert k v ((a, w) # m) =
     (if k = a then (k, v) # m
      else if k < a then (k, v) # (a, w) # m
      else (a, w) # bt_insert k v m)"

fun bt_remove :: "'k \<Rightarrow> ('k, 'v) btree_map \<Rightarrow> ('k, 'v) btree_map" where
  "bt_remove k [] = []"
| "bt_remove k ((a, w) # m) = (if k = a then m else (a, w) # bt_remove k m)"

definition bt_keys :: "('k, 'v) btree_map \<Rightarrow> 'k list" where
  "bt_keys m = map fst m"

definition bt_values :: "('k, 'v) btree_map \<Rightarrow> 'v list" where
  "bt_values m = map snd m"

definition bt_wf :: "('k::linorder, 'v) btree_map \<Rightarrow> bool" where
  "bt_wf m \<longleftrightarrow> sorted_wrt (<) (bt_keys m)"

definition bs_insert :: "'k::linorder \<Rightarrow> 'k btree_set \<Rightarrow> 'k btree_set" where
  "bs_insert x s = bt_keys (bt_insert x () (map (\<lambda>y. (y, ())) s))"

lemma bt_get_None_iff: "bt_get m k = None \<longleftrightarrow> k \<notin> set (bt_keys m)"
  by (induction m) (auto simp: bt_keys_def split: if_splits)

lemma bt_get_SomeD: "bt_get m k = Some v \<Longrightarrow> (k, v) \<in> set m"
  by (induction m) (auto split: if_splits)

lemma bt_get_insert [btree_simps, simp]:
  "bt_get (bt_insert k v m) k' = (if k' = k then Some v else bt_get m k')"
  by (induction m) auto

lemma set_keys_insert [btree_simps, simp]:
  "set (bt_keys (bt_insert k v m)) = insert k (set (bt_keys m))"
  by (induction m) (force simp: bt_keys_def)+

lemma bt_wf_Nil [simp, intro]: "bt_wf []"
  by (simp add: bt_wf_def bt_keys_def)

lemma bt_wf_Cons: "bt_wf ((a, v) # m) \<longleftrightarrow> (\<forall>k \<in> set (bt_keys m). a < k) \<and> bt_wf m"
  by (simp add: bt_wf_def bt_keys_def)

lemma bt_wf_insert [simp, intro]: "bt_wf m \<Longrightarrow> bt_wf (bt_insert k v m)"
proof (induction m)
  case Nil
  then show ?case by (simp add: bt_wf_Cons bt_keys_def)
next
  case (Cons p m)
  obtain a w where p: "p = (a, w)" by fastforce
  show ?case
    using Cons by (auto simp: p bt_wf_Cons) (auto simp: bt_keys_def)
qed

lemma bt_get_wf_iff: "bt_wf m \<Longrightarrow> bt_get m k = Some v \<longleftrightarrow> (k, v) \<in> set m"
proof (induction m)
  case (Cons p m)
  obtain a w where p: "p = (a, w)" by fastforce
  show ?case
    using Cons by (auto simp: p bt_wf_Cons bt_keys_def)
qed simp

lemma set_bt_remove_sub: "set (bt_remove k m) \<subseteq> set m"
  by (induction m) (auto split: if_splits)

lemma bt_wf_remove [simp, intro]: "bt_wf m \<Longrightarrow> bt_wf (bt_remove k m)"
proof (induction m)
  case (Cons p m)
  obtain a w where p: "p = (a, w)" by fastforce
  show ?case
    using Cons set_bt_remove_sub [of k m]
    by (auto simp: p bt_wf_Cons bt_keys_def)
qed simp

lemma bt_get_remove:
  "bt_wf m \<Longrightarrow> bt_get (bt_remove k m) k' = (if k' = k then None else bt_get m k')"
proof (induction m)
  case (Cons p m)
  obtain a w where p: "p = (a, w)" by fastforce
  have "bt_get m a = None" if "bt_wf (p # m)"
    using that by (auto simp: p bt_wf_Cons bt_get_None_iff)
  then show ?case
    using Cons by (auto simp: p bt_wf_Cons)
qed simp

lemma distinct_bt_keys: "bt_wf m \<Longrightarrow> distinct (bt_keys m)"
  by (auto simp: bt_wf_def intro: strict_sorted_imp_sorted simp: strict_sorted_iff)

lemma set_bs_insert [btree_simps, simp]: "set (bs_insert x s) = insert x (set s)"
  by (simp add: bs_insert_def) (simp add: bt_keys_def)

lemma sorted_bs_insert [simp, intro]:
  "sorted_wrt (<) s \<Longrightarrow> sorted_wrt (<) (bs_insert x s)"
  using bt_wf_insert [of "map (\<lambda>y. (y, ())) s" x "()"]
  by (simp add: bs_insert_def bt_wf_def) (simp add: bt_keys_def comp_def)

section \<open>The interface of a keyed store\<close>

text \<open>
  What every component relies on of its \<^verbatim>\<open>BTreeMap\<close>s: reading back an insertion, removal,
  and a well-formedness that insertion and removal keep. The consequences the components
  use (a predicate on all entries survives an update of one of them) are proved once here.
\<close>

locale keyed_store =
  fixes get :: "'m \<Rightarrow> 'k \<Rightarrow> 'v option"
    and put :: "'k \<Rightarrow> 'v \<Rightarrow> 'm \<Rightarrow> 'm"
    and del :: "'k \<Rightarrow> 'm \<Rightarrow> 'm"
    and nil :: 'm
    and wf :: "'m \<Rightarrow> bool"
  assumes get_put: "get (put k v m) k' = (if k' = k then Some v else get m k')"
    and get_del: "wf m \<Longrightarrow> get (del k m) k' = (if k' = k then None else get m k')"
    and get_nil: "get nil k = None"
    and wf_nil: "wf nil"
    and wf_put: "wf m \<Longrightarrow> wf (put k v m)"
    and wf_del: "wf m \<Longrightarrow> wf (del k m)"
begin

lemma all_nil: "\<forall>k v. get nil k = Some v \<longrightarrow> P k v"
  by (simp add: get_nil)

lemma all_put:
  assumes "\<forall>k v. get m k = Some v \<longrightarrow> P k v" and "P k0 v0"
  shows "\<forall>k v. get (put k0 v0 m) k = Some v \<longrightarrow> P k v"
  using assms by (auto simp: get_put split: if_splits)

lemma all_del:
  assumes "wf m" and "\<forall>k v. get m k = Some v \<longrightarrow> P k v"
  shows "\<forall>k v. get (del k0 m) k = Some v \<longrightarrow> P k v"
  using assms by (auto simp: get_del split: if_splits)

lemma put_frame: "k' \<noteq> k \<Longrightarrow> get (put k v m) k' = get m k'"
  by (simp add: get_put)

lemma put_overwrites: "get (put k v (put k w m)) k' = get (put k v m) k'"
  by (simp add: get_put)

end

interpretation bt: keyed_store bt_get bt_insert bt_remove "[]" bt_wf
  by unfold_locales (auto simp: bt_get_remove)

definition bt_all :: "('k \<Rightarrow> 'v \<Rightarrow> bool) \<Rightarrow> ('k, 'v) btree_map \<Rightarrow> bool" where
  "bt_all P m \<longleftrightarrow> list_all (\<lambda>(k, v). P k v) m"

lemma bt_all_iff: "bt_wf m \<Longrightarrow> bt_all P m \<longleftrightarrow> (\<forall>k v. bt_get m k = Some v \<longrightarrow> P k v)"
  by (auto simp: bt_all_def list_all_iff bt_get_wf_iff)

lemma bt_all_Nil [simp, intro]: "bt_all P []"
  by (simp add: bt_all_def)

lemma bt_all_insert [intro]:
  assumes "bt_wf m" and "bt_all P m" and "P k v"
  shows "bt_all P (bt_insert k v m)"
  using assms bt.all_put [of m P k v] by (simp add: bt_all_iff)

lemma bt_all_remove [intro]:
  assumes "bt_wf m" and "bt_all P m"
  shows "bt_all P (bt_remove k m)"
  using assms bt.all_del [of m P k] by (simp add: bt_all_iff)

lemma bt_all_get: "bt_all P m \<Longrightarrow> bt_get m k = Some v \<Longrightarrow> P k v"
  by (auto simp: bt_all_def list_all_iff dest!: bt_get_SomeD)

end
