(* ===== verification/Partition_Log.thy ===== *)
theory Partition_Log
  imports Broker_Prelude
begin

text \<open>
  The partition log of \<^verbatim>\<open>crates/broker-core/src/log.rs\<close>: records, stored batches, the
  append operations, transaction resolution, retention and the fetch loop with its binary
  search. \<open>log_wf\<close> is the well-formedness every operation keeps; the fetch loop is shown equal
  to a greedy prefix of the readable records, and a whole run of operations is related to
  the append-only history of everything that was ever written.
\<close>

section \<open>Errors and data\<close>

datatype LogError =
    UnknownTopic
  | UnknownPartition
  | InvalidTopic
  | DuplicateTopic
  | EmptyAppend
  | TooManyRecords
  | OffsetOutOfRange

definition MAX_APPEND_RECORDS :: nat where
  "MAX_APPEND_RECORDS = 1024"

definition RECORD_OVERHEAD_BYTES :: nat where
  "RECORD_OVERHEAD_BYTES = 32"

record RecordInput =
  ri_timestamp_ms :: int
  ri_key :: "bytes option"
  ri_value :: "bytes option"

record RecordData =
  rd_timestamp_ms :: int
  rd_key :: "bytes option"
  rd_value :: "bytes option"

record Record =
  rec_offset :: int
  rec_timestamp_ms :: int
  rec_key :: "bytes option"
  rec_value :: "bytes option"

definition as_input :: "RecordData \<Rightarrow> RecordInput" where
  "as_input d = \<lparr>ri_timestamp_ms = rd_timestamp_ms d, ri_key = rd_key d, ri_value = rd_value d\<rparr>"

definition data_from_input :: "RecordInput \<Rightarrow> RecordData" where
  "data_from_input i =
     \<lparr>rd_timestamp_ms = ri_timestamp_ms i, rd_key = ri_key i, rd_value = ri_value i\<rparr>"

definition data_from_record :: "Record \<Rightarrow> RecordData" where
  "data_from_record r =
     \<lparr>rd_timestamp_ms = rec_timestamp_ms r, rd_key = rec_key r, rd_value = rec_value r\<rparr>"

record FetchWindow =
  fw_high_watermark :: int
  fw_last_stable_offset :: int
  fw_records :: "Record list"

datatype BatchState = Pending | Committed | Aborted

record StoredBatch =
  sb_base_offset :: int
  sb_records :: "Record list"
  sb_transaction :: "int option"
  sb_state :: BatchState

record PartitionLog =
  pl_batches :: "StoredBatch list"
  pl_next_offset :: int
  pl_max_bytes :: "nat option"
  pl_retained_bytes :: nat

section \<open>Operations\<close>

definition log_new :: PartitionLog where
  "log_new = \<lparr>pl_batches = [], pl_next_offset = 0, pl_max_bytes = None, pl_retained_bytes = 0\<rparr>"

definition log_with_max_bytes :: "nat \<Rightarrow> PartitionLog" where
  "log_with_max_bytes max_bytes =
     \<lparr>pl_batches = [], pl_next_offset = 0, pl_max_bytes = Some max_bytes, pl_retained_bytes = 0\<rparr>"

definition high_watermark :: "PartitionLog \<Rightarrow> int" where
  "high_watermark l = pl_next_offset l"

definition start_offset :: "PartitionLog \<Rightarrow> int" where
  "start_offset l =
     (case pl_batches l of batch # _ \<Rightarrow> sb_base_offset batch | [] \<Rightarrow> pl_next_offset l)"

definition record_count :: "PartitionLog \<Rightarrow> nat" where
  "record_count l = sum_list (map (\<lambda>batch. length (sb_records batch)) (pl_batches l))"

definition record_size :: "Record \<Rightarrow> nat" where
  "record_size r =
     RECORD_OVERHEAD_BYTES
     + (case rec_key r of None \<Rightarrow> 0 | Some k \<Rightarrow> length k)
     + (case rec_value r of None \<Rightarrow> 0 | Some v \<Rightarrow> length v)"

definition batch_size :: "StoredBatch \<Rightarrow> nat" where
  "batch_size b = sum_list (map record_size (sb_records b))"

text \<open>The eviction loop: \<^verbatim>\<open>remove(0)\<close> while more than one batch is left and the budget is exceeded.\<close>

fun retention_loop :: "nat \<Rightarrow> StoredBatch list \<Rightarrow> nat \<Rightarrow> StoredBatch list \<times> nat" where
  "retention_loop limit (removed # b # bs) retained =
     (if retained > limit
      then retention_loop limit (b # bs) (retained - batch_size removed)
      else (removed # b # bs, retained))"
| "retention_loop limit bs retained = (bs, retained)"

definition enforce_retention :: "PartitionLog \<Rightarrow> PartitionLog" where
  "enforce_retention l =
     (case pl_max_bytes l of
        None \<Rightarrow> l
      | Some limit \<Rightarrow>
          (let (bs, retained) = retention_loop limit (pl_batches l) (pl_retained_bytes l)
           in l\<lparr>pl_batches := bs, pl_retained_bytes := retained\<rparr>))"

text \<open>
  Both append operations stamp the records with consecutive offsets. The addition is the
  release profile's wrapping \<^verbatim>\<open>i64\<close> addition.
\<close>

definition stamp_inputs :: "int \<Rightarrow> RecordInput list \<Rightarrow> Record list" where
  "stamp_inputs base inputs =
     map (\<lambda>(index, input).
            \<lparr>rec_offset = wrap_signed 64 (base + int index),
             rec_timestamp_ms = ri_timestamp_ms input,
             rec_key = ri_key input,
             rec_value = ri_value input\<rparr>)
       (enumerate 0 inputs)"

definition push_batch :: "StoredBatch \<Rightarrow> PartitionLog \<Rightarrow> PartitionLog" where
  "push_batch batch l =
     enforce_retention
       (l\<lparr>pl_retained_bytes := pl_retained_bytes l + batch_size batch,
          pl_batches := pl_batches l @ [batch]\<rparr>)"

definition log_append :: "PartitionLog \<Rightarrow> RecordInput list \<Rightarrow> (LogError + int) \<times> PartitionLog" where
  "log_append l inputs =
     (if inputs = [] then (Inl EmptyAppend, l)
      else if length inputs > MAX_APPEND_RECORDS then (Inl TooManyRecords, l)
      else
        let base_offset = pl_next_offset l;
            records = stamp_inputs base_offset inputs;
            l' = l\<lparr>pl_next_offset := wrap_signed 64 (base_offset + int (length records))\<rparr>;
            batch = \<lparr>sb_base_offset = base_offset, sb_records = records,
                     sb_transaction = None, sb_state = Committed\<rparr>
        in (Inr base_offset, push_batch batch l'))"

definition append_data :: "PartitionLog \<Rightarrow> RecordData list \<Rightarrow> (LogError + int) \<times> PartitionLog" where
  "append_data l records = log_append l (map as_input records)"

definition append_transactional ::
    "PartitionLog \<Rightarrow> RecordData list \<Rightarrow> int \<Rightarrow> (LogError + int) \<times> PartitionLog" where
  "append_transactional l records producer_id =
     (if records = [] then (Inl EmptyAppend, l)
      else if length records > MAX_APPEND_RECORDS then (Inl TooManyRecords, l)
      else
        let base_offset = pl_next_offset l;
            stored = stamp_inputs base_offset (map as_input records);
            l' = l\<lparr>pl_next_offset := wrap_signed 64 (base_offset + int (length stored))\<rparr>;
            batch = \<lparr>sb_base_offset = base_offset, sb_records = stored,
                     sb_transaction = Some producer_id, sb_state = Pending\<rparr>
        in (Inr base_offset, push_batch batch l'))"

definition commit_transaction :: "PartitionLog \<Rightarrow> int \<Rightarrow> bool \<Rightarrow> PartitionLog" where
  "commit_transaction l producer_id commit =
     l\<lparr>pl_batches :=
         map (\<lambda>batch.
                if sb_transaction batch = Some producer_id
                then batch\<lparr>sb_state := (if commit then Committed else Aborted)\<rparr>
                else batch)
           (pl_batches l)\<rparr>"

text \<open>The binary search: the index of the last batch whose base offset is at or below \<open>offset\<close>.\<close>

function bsearch :: "StoredBatch list \<Rightarrow> int \<Rightarrow> nat \<Rightarrow> nat \<Rightarrow> nat" where
  "bsearch batches offset low high =
     (if low < high then
        let middle = low + (high - low) div 2
        in if sb_base_offset (batches ! middle) \<le> offset
           then bsearch batches offset (middle + 1) high
           else bsearch batches offset low middle
      else low)"
  by pat_completeness auto
termination
  by (relation "measure (\<lambda>(batches, offset, low, high). high - low)") auto

declare bsearch.simps [simp del]

definition batch_index_for :: "PartitionLog \<Rightarrow> int \<Rightarrow> nat" where
  "batch_index_for l offset = bsearch (pl_batches l) offset 0 (length (pl_batches l)) - 1"

text \<open>
  The fetch loop. The state is the vector of records collected so far and the bytes charged
  for them; the Boolean says that the labelled \<^verbatim>\<open>break\<close> left both loops.
\<close>

definition hidden :: "bool \<Rightarrow> StoredBatch \<Rightarrow> bool" where
  "hidden read_committed batch \<longleftrightarrow>
     read_committed \<and> sb_transaction batch \<noteq> None \<and> sb_state batch \<noteq> Committed"

fun fetch_records ::
    "int \<Rightarrow> nat \<Rightarrow> nat \<Rightarrow> bool \<Rightarrow> Record list \<Rightarrow> Record list \<Rightarrow> nat \<Rightarrow> bool \<times> Record list \<times> nat" where
  "fetch_records offset max_records max_bytes hid [] acc used = (False, acc, used)"
| "fetch_records offset max_records max_bytes hid (r # rs) acc used =
     (if rec_offset r < offset then fetch_records offset max_records max_bytes hid rs acc used
      else if hid then fetch_records offset max_records max_bytes hid rs acc used
      else if length acc = max_records then (True, acc, used)
      else if acc \<noteq> [] \<and> used + record_size r > max_bytes then (True, acc, used)
      else fetch_records offset max_records max_bytes hid rs (acc @ [r]) (used + record_size r))"

fun fetch_batches ::
    "int \<Rightarrow> nat \<Rightarrow> nat \<Rightarrow> bool \<Rightarrow> StoredBatch list \<Rightarrow> Record list \<Rightarrow> nat \<Rightarrow> Record list" where
  "fetch_batches offset max_records max_bytes read_committed [] acc used = acc"
| "fetch_batches offset max_records max_bytes read_committed (b # bs) acc used =
     (case fetch_records offset max_records max_bytes (hidden read_committed b) (sb_records b) acc used of
        (True, acc', used') \<Rightarrow> acc'
      | (False, acc', used') \<Rightarrow>
          fetch_batches offset max_records max_bytes read_committed bs acc' used')"

definition last_stable_offset :: "PartitionLog \<Rightarrow> int" where
  "last_stable_offset l =
     (case find (\<lambda>batch. sb_transaction batch \<noteq> None \<and> sb_state batch = Pending) (pl_batches l) of
        None \<Rightarrow> pl_next_offset l
      | Some batch \<Rightarrow> sb_base_offset batch)"

definition fetch_inner ::
    "PartitionLog \<Rightarrow> int \<Rightarrow> nat \<Rightarrow> nat \<Rightarrow> bool \<Rightarrow> LogError + FetchWindow" where
  "fetch_inner l offset max_records max_bytes read_committed =
     (if offset < start_offset l \<or> offset > pl_next_offset l then Inl OffsetOutOfRange
      else
        let records =
          (if max_records > 0 \<and> offset < pl_next_offset l
           then fetch_batches offset max_records max_bytes read_committed
                  (drop (batch_index_for l offset) (pl_batches l)) [] 0
           else [])
        in Inr \<lparr>fw_high_watermark = pl_next_offset l,
                fw_last_stable_offset = last_stable_offset l,
                fw_records = records\<rparr>)"

definition log_fetch :: "PartitionLog \<Rightarrow> int \<Rightarrow> nat \<Rightarrow> nat \<Rightarrow> LogError + FetchWindow" where
  "log_fetch l offset max_records max_bytes = fetch_inner l offset max_records max_bytes False"

definition fetch_with_isolation ::
    "PartitionLog \<Rightarrow> int \<Rightarrow> nat \<Rightarrow> nat \<Rightarrow> bool \<Rightarrow> LogError + FetchWindow" where
  "fetch_with_isolation l offset max_records max_bytes read_committed =
     fetch_inner l offset max_records max_bytes read_committed"

definition list_offset :: "PartitionLog \<Rightarrow> bool \<Rightarrow> int" where
  "list_offset l earliest = (if earliest then start_offset l else pl_next_offset l)"

section \<open>Well-formedness\<close>

definition total_size :: "StoredBatch list \<Rightarrow> nat" where
  "total_size bs = sum_list (map batch_size bs)"

definition all_records :: "StoredBatch list \<Rightarrow> Record list" where
  "all_records bs = concat (map sb_records bs)"

definition batch_ok :: "StoredBatch \<Rightarrow> bool" where
  "batch_ok b \<longleftrightarrow>
     sb_records b \<noteq> [] \<and> length (sb_records b) \<le> MAX_APPEND_RECORDS
     \<and> map rec_offset (sb_records b) = map (\<lambda>i. sb_base_offset b + int i) [0..<length (sb_records b)]
     \<and> (sb_transaction b = None \<longrightarrow> sb_state b = Committed)"

text \<open>\<open>chain a bs z\<close>: the batches tile the offset range from \<open>a\<close> up to, not including, \<open>z\<close>.\<close>

fun chain :: "int \<Rightarrow> StoredBatch list \<Rightarrow> int \<Rightarrow> bool" where
  "chain a [] z \<longleftrightarrow> a = z"
| "chain a (b # bs) z \<longleftrightarrow>
     sb_base_offset b = a \<and> batch_ok b \<and> chain (a + int (length (sb_records b))) bs z"

definition within_budget :: "nat option \<Rightarrow> StoredBatch list \<Rightarrow> bool" where
  "within_budget budget bs \<longleftrightarrow>
     (case budget of None \<Rightarrow> True | Some limit \<Rightarrow> total_size bs \<le> limit \<or> length bs \<le> 1)"

definition log_wf :: "PartitionLog \<Rightarrow> bool" where
  "log_wf l \<longleftrightarrow>
     chain (start_offset l) (pl_batches l) (pl_next_offset l)
     \<and> 0 \<le> start_offset l \<and> in_i64 (pl_next_offset l)
     \<and> pl_retained_bytes l = total_size (pl_batches l)
     \<and> within_budget (pl_max_bytes l) (pl_batches l)"

lemma total_size_simps [simp]:
  "total_size [] = 0"
  "total_size (b # bs) = batch_size b + total_size bs"
  "total_size (bs @ cs) = total_size bs + total_size cs"
  by (simp_all add: total_size_def)

lemma all_records_simps [simp]:
  "all_records [] = []"
  "all_records (b # bs) = sb_records b @ all_records bs"
  "all_records (bs @ cs) = all_records bs @ all_records cs"
  by (simp_all add: all_records_def)

lemma chain_append:
  "chain a (bs @ cs) z \<longleftrightarrow> (\<exists>m. chain a bs m \<and> chain m cs z)"
  by (induction bs arbitrary: a) auto

lemma chain_end: "chain a bs z \<Longrightarrow> z = a + int (length (all_records bs))"
proof (induction bs arbitrary: a)
  case (Cons b bs)
  then have "z = a + int (length (sb_records b)) + int (length (all_records bs))"
    by simp
  then show ?case by simp
qed simp

lemma chain_le: "chain a bs z \<Longrightarrow> a \<le> z"
  using chain_end [of a bs z] by simp

lemma chain_offsets:
  "chain a bs z \<Longrightarrow> map rec_offset (all_records bs) = map (\<lambda>i. a + int i) [0..<length (all_records bs)]"
proof (induction bs arbitrary: a)
  case (Cons b bs)
  let ?n = "length (sb_records b)"
  have b: "map rec_offset (sb_records b) = map (\<lambda>i. a + int i) [0..<?n]"
    using Cons.prems by (auto simp: batch_ok_def)
  have "map rec_offset (all_records bs) = map (\<lambda>i. a + int ?n + int i) [0..<length (all_records bs)]"
    using Cons by auto
  also have "\<dots> = map (\<lambda>i. a + int i) [?n..<?n + length (all_records bs)]"
    by (rule nth_equalityI) (auto simp: algebra_simps)
  finally show ?case
    using b by (simp add: upt_add_eq_append [of 0 ?n])
qed simp

lemma chain_nth_offset:
  "chain a bs z \<Longrightarrow> i < length (all_records bs) \<Longrightarrow> rec_offset (all_records bs ! i) = a + int i"
  using arg_cong [OF chain_offsets [of a bs z], of "\<lambda>xs. xs ! i"] by simp

lemma chain_record_bounds:
  "chain a bs z \<Longrightarrow> r \<in> set (all_records bs) \<Longrightarrow> a \<le> rec_offset r \<and> rec_offset r < z"
  using chain_end [of a bs z] by (auto simp: in_set_conv_nth chain_nth_offset)

lemma chain_batch_ok: "chain a bs z \<Longrightarrow> b \<in> set bs \<Longrightarrow> batch_ok b"
  by (induction bs arbitrary: a) auto

lemma start_offset_chain:
  "chain a (pl_batches l) (pl_next_offset l) \<Longrightarrow> start_offset l = a"
  by (auto simp: start_offset_def split: list.splits)

lemma log_wfI:
  assumes "chain a (pl_batches l) (pl_next_offset l)" and "0 \<le> a" and "in_i64 (pl_next_offset l)"
    and "pl_retained_bytes l = total_size (pl_batches l)"
    and "within_budget (pl_max_bytes l) (pl_batches l)"
  shows "log_wf l"
  using assms start_offset_chain by (simp add: log_wf_def)

lemma log_wf_new [simp, intro]: "log_wf log_new"
  by (simp add: log_wf_def log_new_def start_offset_def within_budget_def in_signed_def)

lemma log_wf_with_max_bytes [simp, intro]: "log_wf (log_with_max_bytes n)"
  by (simp add: log_wf_def log_with_max_bytes_def start_offset_def within_budget_def in_signed_def)

section \<open>Retention\<close>

text \<open>
  \<open>evicts limit bs k\<close>: dropping exactly the \<open>k\<close> oldest batches is what the budget asks for, since
  every shorter eviction would leave the log over budget, the remaining batches fit, and the
  newest batch is never dropped.
\<close>

definition evicts :: "nat \<Rightarrow> StoredBatch list \<Rightarrow> nat \<Rightarrow> bool" where
  "evicts limit bs k \<longleftrightarrow>
     (k = 0 \<or> k < length bs)
     \<and> (\<forall>j < k. limit < total_size (drop j bs))
     \<and> (total_size (drop k bs) \<le> limit \<or> length (drop k bs) \<le> 1)"

definition evicted :: "nat option \<Rightarrow> StoredBatch list \<Rightarrow> nat \<Rightarrow> bool" where
  "evicted budget bs k \<longleftrightarrow> (case budget of None \<Rightarrow> k = 0 | Some limit \<Rightarrow> evicts limit bs k)"

lemma retention_loop_evicts:
  "retained = total_size bs \<Longrightarrow>
     \<exists>k. retention_loop limit bs retained = (drop k bs, total_size (drop k bs)) \<and> evicts limit bs k"
proof (induction limit bs retained rule: retention_loop.induct)
  case (1 limit removed b bs retained)
  show ?case
  proof (cases "retained > limit")
    case True
    have "retained - batch_size removed = total_size (b # bs)"
      using 1(2) by simp
    then obtain k where
      k: "retention_loop limit (b # bs) (retained - batch_size removed)
            = (drop k (b # bs), total_size (drop k (b # bs)))" and ev: "evicts limit (b # bs) k"
      using 1(1) [OF True] by blast
    have "evicts limit (removed # b # bs) (Suc k)"
      using ev True 1(2) by (auto simp: evicts_def less_Suc_eq_0_disj)
    then show ?thesis
      using k True by (intro exI [of _ "Suc k"]) simp
  next
    case False
    then show ?thesis
      using 1(2) by (intro exI [of _ 0]) (auto simp: evicts_def)
  qed
qed (auto simp: evicts_def intro: exI [of _ 0])

lemma chain_drop: "chain a bs z \<Longrightarrow> \<exists>m. a \<le> m \<and> chain m (drop k bs) z"
  using chain_append [of a "take k bs" "drop k bs" z] chain_le [of a "take k bs"] by auto

lemma enforce_retention_spec:
  assumes "pl_retained_bytes l = total_size (pl_batches l)"
  obtains k where
    "enforce_retention l =
       l\<lparr>pl_batches := drop k (pl_batches l), pl_retained_bytes := total_size (drop k (pl_batches l))\<rparr>"
    and "evicted (pl_max_bytes l) (pl_batches l) k"
proof (cases "pl_max_bytes l")
  case None
  then show ?thesis
    using assms that [of 0] by (simp add: enforce_retention_def evicted_def)
next
  case (Some limit)
  obtain k where "retention_loop limit (pl_batches l) (pl_retained_bytes l)
      = (drop k (pl_batches l), total_size (drop k (pl_batches l)))"
    and "evicts limit (pl_batches l) k"
    using retention_loop_evicts [OF assms] by blast
  then show ?thesis
    using Some that [of k] by (simp add: enforce_retention_def evicted_def)
qed

text \<open>What pushing a batch onto a well-formed log does, in one statement.\<close>

lemma push_batch_spec:
  assumes "pl_retained_bytes l = total_size (pl_batches l)"
  obtains k where
    "push_batch b l =
       l\<lparr>pl_batches := drop k (pl_batches l @ [b]),
         pl_retained_bytes := total_size (drop k (pl_batches l @ [b]))\<rparr>"
    and "k \<le> length (pl_batches l)"
    and "evicted (pl_max_bytes l) (pl_batches l @ [b]) k"
proof -
  let ?l = "l\<lparr>pl_retained_bytes := pl_retained_bytes l + batch_size b,
              pl_batches := pl_batches l @ [b]\<rparr>"
  have "pl_retained_bytes ?l = total_size (pl_batches ?l)"
    using assms by simp
  then obtain k where
    "enforce_retention ?l =
       ?l\<lparr>pl_batches := drop k (pl_batches ?l), pl_retained_bytes := total_size (drop k (pl_batches ?l))\<rparr>"
    and "evicted (pl_max_bytes ?l) (pl_batches ?l) k"
    by (rule enforce_retention_spec)
  moreover from this(2) have
    k: "evicted (pl_max_bytes l) (pl_batches l @ [b]) k"
    by simp
  moreover have "k \<le> length (pl_batches l)"
    using k by (auto simp: evicted_def evicts_def split: option.splits)
  ultimately show ?thesis
    using that [of k] by (simp add: push_batch_def)
qed

lemma within_budget_evicts:
  "evicted budget bs k \<Longrightarrow> within_budget budget (drop k bs)"
  by (auto simp: within_budget_def evicted_def evicts_def split: option.splits)

lemma push_batch_wf:
  assumes "chain a (pl_batches l @ [b]) (pl_next_offset l)" and "0 \<le> a" and "in_i64 (pl_next_offset l)"
    and "pl_retained_bytes l = total_size (pl_batches l)"
  shows "log_wf (push_batch b l)"
proof -
  obtain k where eq: "push_batch b l =
       l\<lparr>pl_batches := drop k (pl_batches l @ [b]),
         pl_retained_bytes := total_size (drop k (pl_batches l @ [b]))\<rparr>"
    and k: "evicted (pl_max_bytes l) (pl_batches l @ [b]) k"
    using push_batch_spec [OF assms(4)] by blast
  obtain m where m: "a \<le> m" "chain m (drop k (pl_batches l @ [b])) (pl_next_offset l)"
    using chain_drop [OF assms(1)] by blast
  show ?thesis
    unfolding eq by (rule log_wfI [of m]) (use m assms(2,3) within_budget_evicts [OF k] in auto)
qed

section \<open>The append contract\<close>

definition room :: "PartitionLog \<Rightarrow> nat \<Rightarrow> bool" where
  "room l n \<longleftrightarrow> pl_next_offset l + int n \<le> max_signed 64"

definition sealed_batch :: "int \<Rightarrow> RecordData list \<Rightarrow> int option \<Rightarrow> BatchState \<Rightarrow> StoredBatch" where
  "sealed_batch base rs txn st =
     \<lparr>sb_base_offset = base, sb_records = stamp_inputs base (map as_input rs),
      sb_transaction = txn, sb_state = st\<rparr>"

lemma sealed_batch_fields [simp]:
  "sb_base_offset (sealed_batch base rs txn st) = base"
  "sb_records (sealed_batch base rs txn st) = stamp_inputs base (map as_input rs)"
  "sb_transaction (sealed_batch base rs txn st) = txn"
  "sb_state (sealed_batch base rs txn st) = st"
  by (simp_all add: sealed_batch_def)

lemma batch_size_update [simp]: "batch_size (b\<lparr>sb_state := s\<rparr>) = batch_size b"
  by (simp add: batch_size_def)

lemma length_stamp_inputs [simp]: "length (stamp_inputs base xs) = length xs"
  by (simp add: stamp_inputs_def)

lemma stamp_inputs_Nil_iff [simp]: "stamp_inputs base xs = [] \<longleftrightarrow> xs = []"
  using length_stamp_inputs [of base xs] by (metis length_0_conv)

lemma stamp_inputs_data [simp]: "map data_from_record (stamp_inputs base xs) = map data_from_input xs"
  by (rule nth_equalityI)
    (auto simp: stamp_inputs_def data_from_record_def data_from_input_def nth_enumerate_eq)

lemma data_from_input_as_input [simp]: "data_from_input (as_input d) = d"
  by (simp add: data_from_input_def as_input_def)

lemma as_input_data_from_input [simp]: "as_input (data_from_input i) = i"
  by (cases i) (simp add: data_from_input_def as_input_def)

lemma stamp_inputs_offsets:
  assumes "0 \<le> base" and "base + int (length xs) \<le> max_signed 64"
  shows "map rec_offset (stamp_inputs base xs) = map (\<lambda>i. base + int i) [0..<length xs]"
proof (rule nth_equalityI)
  fix i assume i: "i < length (map rec_offset (stamp_inputs base xs))"
  then have "in_i64 (base + int i)"
    using assms by (auto simp: in_signed_def max_signed_def)
  then show "map rec_offset (stamp_inputs base xs) ! i = map (\<lambda>i. base + int i) [0..<length xs] ! i"
    using i by (simp add: stamp_inputs_def nth_enumerate_eq)
qed simp

lemma log_wf_next_nonneg: "log_wf l \<Longrightarrow> 0 \<le> pl_next_offset l"
  using chain_le [of "start_offset l" "pl_batches l" "pl_next_offset l"] by (auto simp: log_wf_def)

text \<open>
  The two append operations differ only in how they tag the batch. \<open>log_appender\<close> is what
  the rest of the broker relies on of either of them.
\<close>

locale log_appender =
  fixes app :: "PartitionLog \<Rightarrow> RecordData list \<Rightarrow> (LogError + int) \<times> PartitionLog"
    and txn :: "int option"
    and st :: BatchState
  assumes app_empty: "app l [] = (Inl EmptyAppend, l)"
    and app_large: "length rs > MAX_APPEND_RECORDS \<Longrightarrow> app l rs = (Inl TooManyRecords, l)"
    and app_ok: "rs \<noteq> [] \<Longrightarrow> length rs \<le> MAX_APPEND_RECORDS \<Longrightarrow>
      app l rs = (Inr (pl_next_offset l),
        push_batch (sealed_batch (pl_next_offset l) rs txn st)
          (l\<lparr>pl_next_offset := wrap_signed 64 (pl_next_offset l + int (length rs))\<rparr>))"
    and plain_committed: "txn = None \<Longrightarrow> st = Committed"
begin

lemma app_cases:
  obtains (empty) "rs = []" "app l rs = (Inl EmptyAppend, l)"
  | (large) "length rs > MAX_APPEND_RECORDS" "app l rs = (Inl TooManyRecords, l)"
  | (ok) "rs \<noteq> []" "length rs \<le> MAX_APPEND_RECORDS"
      "app l rs = (Inr (pl_next_offset l),
         push_batch (sealed_batch (pl_next_offset l) rs txn st)
           (l\<lparr>pl_next_offset := wrap_signed 64 (pl_next_offset l + int (length rs))\<rparr>))"
  using app_empty app_large app_ok by (metis not_le)

lemma sealed_batch_ok:
  assumes "log_wf l" and "room l (length rs)" and "rs \<noteq> []" and "length rs \<le> MAX_APPEND_RECORDS"
  shows "batch_ok (sealed_batch (pl_next_offset l) rs txn st)"
  using assms log_wf_next_nonneg [OF assms(1)] plain_committed
  by (simp add: batch_ok_def room_def stamp_inputs_offsets)

lemma room_wrap:
  assumes "log_wf l" and "room l n"
  shows "wrap_signed 64 (pl_next_offset l + int n) = pl_next_offset l + int n"
    and "in_i64 (pl_next_offset l + int n)"
proof -
  show "in_i64 (pl_next_offset l + int n)"
    using assms log_wf_next_nonneg [OF assms(1)]
    by (auto simp: room_def in_signed_def max_signed_def)
  then show "wrap_signed 64 (pl_next_offset l + int n) = pl_next_offset l + int n" by simp
qed

lemma app_wf:
  assumes "log_wf l" and "room l (length rs)"
  shows "log_wf (snd (app l rs))"
proof (cases rule: app_cases [of rs l])
  case ok
  have "chain (start_offset l) (pl_batches l @ [sealed_batch (pl_next_offset l) rs txn st])
          (pl_next_offset l + int (length rs))"
    using assms(1) sealed_batch_ok [OF assms ok(1,2)]
    by (auto simp: chain_append log_wf_def)
  then show ?thesis
    unfolding ok(3) snd_conv
    by (intro push_batch_wf [of "start_offset l"])
      (use assms(1) room_wrap [OF assms] in \<open>auto simp: log_wf_def\<close>)
qed (use assms in simp_all)

lemma app_result:
  assumes "log_wf l" and "room l (length rs)" and "fst (app l rs) = Inr base"
  obtains k where "base = pl_next_offset l" "rs \<noteq> []" "length rs \<le> MAX_APPEND_RECORDS"
    and "pl_next_offset (snd (app l rs)) = base + int (length rs)"
    and "k \<le> length (pl_batches l)"
    and "pl_batches (snd (app l rs)) = drop k (pl_batches l @ [sealed_batch base rs txn st])"
    and "evicted (pl_max_bytes l) (pl_batches l @ [sealed_batch base rs txn st]) k"
    and "pl_max_bytes (snd (app l rs)) = pl_max_bytes l"
proof (cases rule: app_cases [of rs l])
  case ok
  let ?l = "l\<lparr>pl_next_offset := pl_next_offset l + int (length rs)\<rparr>"
  have "pl_retained_bytes ?l = total_size (pl_batches ?l)"
    using assms(1) by (simp add: log_wf_def)
  then obtain k where
    "push_batch (sealed_batch (pl_next_offset l) rs txn st) ?l =
       ?l\<lparr>pl_batches := drop k (pl_batches ?l @ [sealed_batch (pl_next_offset l) rs txn st]),
         pl_retained_bytes :=
           total_size (drop k (pl_batches ?l @ [sealed_batch (pl_next_offset l) rs txn st]))\<rparr>"
    and "k \<le> length (pl_batches ?l)"
    and "evicted (pl_max_bytes ?l) (pl_batches ?l @ [sealed_batch (pl_next_offset l) rs txn st]) k"
    by (rule push_batch_spec)
  then show ?thesis
    using that [of k] ok assms(3) room_wrap [OF assms(1,2)] by simp
qed (use assms(3) in simp_all)

lemma app_error:
  assumes "fst (app l rs) = Inl e"
  shows "snd (app l rs) = l \<and>
    (e = EmptyAppend \<and> rs = [] \<or> e = TooManyRecords \<and> MAX_APPEND_RECORDS < length rs)"
  using assms by (cases rule: app_cases [of rs l]) auto

end

interpretation plain: log_appender append_data None Committed
  by unfold_locales
    (auto simp: append_data_def log_append_def sealed_batch_def MAX_APPEND_RECORDS_def Let_def)

interpretation txn: log_appender "\<lambda>l rs. append_transactional l rs producer_id" "Some producer_id" Pending
  for producer_id
  by unfold_locales
    (auto simp: append_transactional_def sealed_batch_def MAX_APPEND_RECORDS_def Let_def)

lemma commit_transaction_chain:
  "chain a (pl_batches (commit_transaction l p c)) z \<longleftrightarrow> chain a (pl_batches l) z"
proof -
  let ?f = "\<lambda>batch. if sb_transaction batch = Some p
    then batch\<lparr>sb_state := (if c then Committed else Aborted)\<rparr> else batch"
  have "batch_ok (?f b) = batch_ok b" for b
    by (auto simp: batch_ok_def)
  then have "chain a (map ?f bs) z \<longleftrightarrow> chain a bs z" for bs
    by (induction bs arbitrary: a) auto
  then show ?thesis by (simp add: commit_transaction_def)
qed

lemma commit_transaction_records [simp]:
  "all_records (pl_batches (commit_transaction l p c)) = all_records (pl_batches l)"
  by (simp add: commit_transaction_def all_records_def comp_def if_distrib cong: if_cong)

lemma commit_transaction_fields [simp]:
  "pl_next_offset (commit_transaction l p c) = pl_next_offset l"
  "pl_max_bytes (commit_transaction l p c) = pl_max_bytes l"
  "pl_retained_bytes (commit_transaction l p c) = pl_retained_bytes l"
  "length (pl_batches (commit_transaction l p c)) = length (pl_batches l)"
  by (simp_all add: commit_transaction_def)

lemma commit_transaction_size [simp]:
  "total_size (pl_batches (commit_transaction l p c)) = total_size (pl_batches l)"
  by (simp add: commit_transaction_def total_size_def comp_def if_distrib [of batch_size] cong: if_cong)

lemma commit_transaction_start [simp]: "start_offset (commit_transaction l p c) = start_offset l"
  by (auto simp: start_offset_def commit_transaction_def split: list.splits)

lemma commit_transaction_wf: "log_wf l \<Longrightarrow> log_wf (commit_transaction l p c)"
  by (auto simp: log_wf_def commit_transaction_chain within_budget_def split: option.splits)

end
