(* ===== verification/Log_Fetch.thy ===== *)
theory Log_Fetch
  imports Partition_Log
begin

text \<open>
  The read path of \<^verbatim>\<open>log.rs\<close>. \<open>readable\<close> says which retained records a reader may see and
  \<open>is_window\<close> what the record and byte budgets admit of them; \<open>fetch_inner\<close>, with its binary
  search and nested loops, returns exactly that window.
\<close>

section \<open>What a fetch promises\<close>

definition readable :: "StoredBatch list \<Rightarrow> int \<Rightarrow> bool \<Rightarrow> Record list" where
  "readable bs offset rc =
     filter (\<lambda>r. offset \<le> rec_offset r) (all_records (filter (\<lambda>b. \<not> hidden rc b) bs))"

definition bytes_of :: "Record list \<Rightarrow> nat" where
  "bytes_of rs = sum_list (map record_size rs)"

text \<open>
  \<open>is_window n m rs ws\<close>: \<open>ws\<close> is the longest prefix of \<open>rs\<close> of at most \<open>n\<close> records that stays
  within \<open>m\<close> bytes, except that a first record is admitted whatever its size.
\<close>

definition is_window :: "nat \<Rightarrow> nat \<Rightarrow> Record list \<Rightarrow> Record list \<Rightarrow> bool" where
  "is_window n m rs ws \<longleftrightarrow>
     (let k = length ws in
        k \<le> length rs \<and> ws = take k rs \<and> k \<le> n \<and> (k \<le> 1 \<or> bytes_of ws \<le> m)
        \<and> (k < length rs \<longrightarrow> k = n \<or> 0 < k \<and> m < bytes_of (take (Suc k) rs)))"

lemma bytes_of_simps [simp]:
  "bytes_of [] = 0"
  "bytes_of (r # rs) = record_size r + bytes_of rs"
  "bytes_of (rs @ ss) = bytes_of rs + bytes_of ss"
  by (simp_all add: bytes_of_def)

lemma readable_simps [simp]:
  "readable [] off rc = []"
  "readable (b # bs) off rc =
     (if hidden rc b then [] else filter (\<lambda>r. off \<le> rec_offset r) (sb_records b)) @ readable bs off rc"
  by (simp_all add: readable_def)

lemma readable_append: "readable (bs @ cs) off rc = readable bs off rc @ readable cs off rc"
  by (simp add: readable_def)

lemma set_readable:
  "r \<in> set (readable bs off rc) \<longleftrightarrow>
     off \<le> rec_offset r \<and> (\<exists>b \<in> set bs. \<not> hidden rc b \<and> r \<in> set (sb_records b))"
  by (auto simp: readable_def all_records_def)

section \<open>The binary search\<close>

definition bases_increasing :: "StoredBatch list \<Rightarrow> bool" where
  "bases_increasing bs \<longleftrightarrow> sorted_wrt (<) (map sb_base_offset bs)"

lemma chain_bases_ge: "chain a bs z \<Longrightarrow> b \<in> set bs \<Longrightarrow> a \<le> sb_base_offset b"
  by (induction bs arbitrary: a) fastforce+

lemma chain_bases_increasing: "chain a bs z \<Longrightarrow> bases_increasing bs"
proof (induction bs arbitrary: a)
  case (Cons b bs)
  have "sb_base_offset b < sb_base_offset c" if "c \<in> set bs" for c
  proof -
    have "a + int (length (sb_records b)) \<le> sb_base_offset c"
      using Cons.prems that chain_bases_ge by auto
    moreover have "0 < length (sb_records b)"
      using Cons.prems by (simp add: batch_ok_def)
    moreover have "sb_base_offset b = a"
      using Cons.prems by simp
    ultimately show ?thesis by linarith
  qed
  then show ?case
    using Cons by (auto simp: bases_increasing_def)
qed (simp add: bases_increasing_def)

lemma bsearch_correct:
  assumes "bases_increasing bs" and "low \<le> high" and "high \<le> length bs"
    and "\<forall>i < low. sb_base_offset (bs ! i) \<le> off"
    and "\<forall>i. high \<le> i \<longrightarrow> i < length bs \<longrightarrow> off < sb_base_offset (bs ! i)"
  shows "let p = bsearch bs off low high in p \<le> length bs
    \<and> (\<forall>i < p. sb_base_offset (bs ! i) \<le> off)
    \<and> (\<forall>i. p \<le> i \<longrightarrow> i < length bs \<longrightarrow> off < sb_base_offset (bs ! i))"
  using assms
proof (induction bs off low high rule: bsearch.induct)
  case (1 bs off low high)
  let ?m = "low + (high - low) div 2"
  have mono: "sb_base_offset (bs ! i) < sb_base_offset (bs ! j)" if "i < j" "j < length bs" for i j
    using "1.prems"(1) that by (simp add: bases_increasing_def sorted_wrt_iff_nth_less)
  show ?case
  proof (cases "low < high")
    case True
    then have m: "low \<le> ?m" "?m < high" by auto
    show ?thesis
    proof (cases "sb_base_offset (bs ! ?m) \<le> off")
      case le: True
      have "\<forall>i < ?m + 1. sb_base_offset (bs ! i) \<le> off"
      proof (intro allI impI)
        fix i assume "i < ?m + 1"
        then consider "i = ?m" | "i < ?m" by linarith
        then show "sb_base_offset (bs ! i) \<le> off"
          using mono [of i ?m] m "1.prems"(3) le by cases auto
      qed
      then show ?thesis
        using "1.IH"(1) [OF True refl le] "1.prems" m True le
        by (simp add: bsearch.simps [of bs off low high] Let_def)
    next
      case gt: False
      have "\<forall>i. ?m \<le> i \<longrightarrow> i < length bs \<longrightarrow> off < sb_base_offset (bs ! i)"
      proof (intro allI impI)
        fix i assume i: "?m \<le> i" "i < length bs"
        then consider "i = ?m" | "?m < i" by linarith
        then show "off < sb_base_offset (bs ! i)"
          using mono [of ?m i] i gt by cases auto
      qed
      then show ?thesis
        using "1.IH"(2) [OF True refl gt] "1.prems" m True gt
        by (simp add: bsearch.simps [of bs off low high] Let_def)
    qed
  next
    case False
    then have "bsearch bs off low high = low"
      by (simp add: bsearch.simps [of bs off low high])
    then show ?thesis
      using "1.prems" False by (simp add: Let_def)
  qed
qed

lemma batch_index_for_spec:
  fixes off :: int
  assumes "log_wf l"
  defines "p \<equiv> bsearch (pl_batches l) off 0 (length (pl_batches l))"
  shows "p \<le> length (pl_batches l)"
    and "i < p \<Longrightarrow> sb_base_offset (pl_batches l ! i) \<le> off"
    and "p \<le> i \<Longrightarrow> i < length (pl_batches l) \<Longrightarrow> off < sb_base_offset (pl_batches l ! i)"
  using bsearch_correct [of "pl_batches l" 0 "length (pl_batches l)" off] assms chain_bases_increasing
  by (auto simp: log_wf_def p_def Let_def)

text \<open>Every batch before the located one lies wholly below the requested offset.\<close>

lemma chain_before_base:
  assumes "chain a bs z" and "Suc i < length bs" and "r \<in> set (sb_records (bs ! i))"
  shows "rec_offset r < sb_base_offset (bs ! Suc i)"
proof -
  have "bs = take (Suc i) bs @ bs ! Suc i # drop (Suc (Suc i)) bs"
    using assms(2) by (simp add: Cons_nth_drop_Suc)
  then obtain m where "chain a (take (Suc i) bs) m" "sb_base_offset (bs ! Suc i) = m"
    using assms(1) chain_append [of a "take (Suc i) bs" "bs ! Suc i # drop (Suc (Suc i)) bs" z]
    by (metis chain.simps(2))
  moreover have "r \<in> set (all_records (take (Suc i) bs))"
    using assms(2,3) by (auto simp: take_Suc_conv_app_nth)
  ultimately show ?thesis
    using chain_record_bounds by blast
qed

lemma readable_skip:
  assumes "log_wf l"
  shows "readable (drop (batch_index_for l off) (pl_batches l)) off rc = readable (pl_batches l) off rc"
proof -
  let ?bs = "pl_batches l" and ?k = "batch_index_for l off"
  have "readable (take ?k ?bs) off rc = []"
  proof (rule ccontr)
    assume "readable (take ?k ?bs) off rc \<noteq> []"
    then obtain r where "r \<in> set (readable (take ?k ?bs) off rc)"
      by (meson hd_in_set)
    then obtain b where "b \<in> set (take ?k ?bs)" "r \<in> set (sb_records b)" "off \<le> rec_offset r"
      by (auto simp: set_readable)
    then obtain i where i: "i < ?k" "i < length ?bs" "r \<in> set (sb_records (?bs ! i))" "off \<le> rec_offset r"
      by (auto simp: in_set_conv_nth [of b])
    have "Suc i < bsearch ?bs off 0 (length ?bs)"
      using i(1) by (simp add: batch_index_for_def)
    then have "Suc i < length ?bs" "sb_base_offset (?bs ! Suc i) \<le> off"
      using batch_index_for_spec [OF assms] by (auto intro: less_le_trans)
    moreover have "rec_offset r < sb_base_offset (?bs ! Suc i)"
      using assms i(3) calculation(1) chain_before_base by (auto simp: log_wf_def)
    ultimately show False using i(4) by simp
  qed
  then show ?thesis
    using readable_append [of "take ?k ?bs" "drop ?k ?bs"] by simp
qed

section \<open>The fetch loops\<close>

fun collect :: "nat \<Rightarrow> nat \<Rightarrow> Record list \<Rightarrow> Record list \<Rightarrow> nat \<Rightarrow> bool \<times> Record list \<times> nat" where
  "collect n m [] acc used = (False, acc, used)"
| "collect n m (r # rs) acc used =
     (if length acc = n \<or> acc \<noteq> [] \<and> used + record_size r > m then (True, acc, used)
      else collect n m rs (acc @ [r]) (used + record_size r))"

lemma collect_append:
  "collect n m (xs @ ys) acc used =
     (case collect n m xs acc used of
        (True, acc', used') \<Rightarrow> (True, acc', used')
      | (False, acc', used') \<Rightarrow> collect n m ys acc' used')"
  by (induction xs arbitrary: acc used) auto

lemma fetch_records_collect:
  "fetch_records off n m hid rs acc used =
     collect n m (if hid then [] else filter (\<lambda>r. off \<le> rec_offset r) rs) acc used"
  by (induction rs arbitrary: acc used) auto

lemma fetch_batches_collect:
  "fetch_batches off n m rc bs acc used = fst (snd (collect n m (readable bs off rc) acc used))"
  by (induction bs arbitrary: acc used)
    (auto simp: fetch_records_collect collect_append split: prod.splits bool.splits)

lemma collect_window:
  assumes "length acc \<le> n" and "length acc \<le> 1 \<or> bytes_of acc \<le> m" and "used = bytes_of acc"
  shows "is_window n m (acc @ rs) (fst (snd (collect n m rs acc used)))"
  using assms
proof (induction rs arbitrary: acc used)
  case Nil
  then show ?case by (simp add: is_window_def Let_def)
next
  case (Cons r rs)
  show ?case
  proof (cases "length acc = n \<or> acc \<noteq> [] \<and> used + record_size r > m")
    case True
    then show ?thesis
      using Cons.prems by (auto simp: is_window_def Let_def)
  next
    case False
    then have "is_window n m ((acc @ [r]) @ rs)
        (fst (snd (collect n m rs (acc @ [r]) (used + record_size r))))"
      using Cons.prems by (intro Cons.IH) auto
    then show ?thesis using False by auto
  qed
qed

lemma readable_at_end:
  assumes "log_wf l"
  shows "readable (pl_batches l) (pl_next_offset l) rc = []"
proof -
  have "r \<notin> set (readable (pl_batches l) (pl_next_offset l) rc)" for r
    using assms chain_record_bounds [of "start_offset l" "pl_batches l" "pl_next_offset l" r]
    by (force simp: set_readable log_wf_def all_records_def)
  then show ?thesis by (metis list.set_intros(1) neq_Nil_conv)
qed

lemma fetch_inner_window:
  assumes "log_wf l"
  shows "fetch_inner l off n m rc =
      (if start_offset l \<le> off \<and> off \<le> pl_next_offset l
       then Inr \<lparr>fw_high_watermark = pl_next_offset l,
                 fw_last_stable_offset = last_stable_offset l,
                 fw_records = fst (snd (collect n m (readable (pl_batches l) off rc) [] 0))\<rparr>
       else Inl OffsetOutOfRange)"
proof (cases "start_offset l \<le> off \<and> off \<le> pl_next_offset l")
  case True
  have "collect 0 m rs [] 0 = (rs \<noteq> [], [], 0)" for rs
    by (cases rs) auto
  then show ?thesis
    using True readable_at_end [OF assms, of rc]
    by (auto simp: fetch_inner_def Let_def fetch_batches_collect readable_skip [OF assms])
qed (auto simp: fetch_inner_def)

lemma fetch_inner_is_window:
  assumes "log_wf l" and "fetch_inner l off n m rc = Inr w"
  shows "is_window n m (readable (pl_batches l) off rc) (fw_records w)"
  using assms collect_window [of "[]" n m 0 "readable (pl_batches l) off rc"]
  by (auto simp: fetch_inner_window split: if_splits)

end
