(* ===== verification/Log_History.thy ===== *)
theory Log_History
  imports Log_Fetch
begin

text \<open>
  The abstract specification of a partition log is the list of everything that was ever
  appended to it: offset \<open>i\<close> is position \<open>i\<close> of that list. A sequence of log operations is run
  side by side on the model of \<^verbatim>\<open>PartitionLog\<close> and on the history; the log always holds a
  suffix of the history, stamped with the positions as offsets.
\<close>

datatype LogOp =
    OpAppend "RecordInput list"
  | OpAppendData "RecordData list"
  | OpAppendTransactional "RecordData list" int
  | OpCommitTransaction int bool

fun log_exec :: "LogOp \<Rightarrow> PartitionLog \<Rightarrow> PartitionLog" where
  "log_exec (OpAppend inputs) l = snd (log_append l inputs)"
| "log_exec (OpAppendData records) l = snd (append_data l records)"
| "log_exec (OpAppendTransactional records p) l = snd (append_transactional l records p)"
| "log_exec (OpCommitTransaction p c) l = commit_transaction l p c"

definition accepted :: "RecordData list \<Rightarrow> RecordData list" where
  "accepted rs = (if length rs \<le> MAX_APPEND_RECORDS then rs else [])"

fun hist_exec :: "LogOp \<Rightarrow> RecordData list \<Rightarrow> RecordData list" where
  "hist_exec (OpAppend inputs) H = H @ accepted (map data_from_input inputs)"
| "hist_exec (OpAppendData records) H = H @ accepted records"
| "hist_exec (OpAppendTransactional records p) H = H @ accepted records"
| "hist_exec (OpCommitTransaction p c) H = H"

definition log_run :: "LogOp list \<Rightarrow> PartitionLog \<Rightarrow> PartitionLog" where
  "log_run ops l = fold log_exec ops l"

definition hist_run :: "LogOp list \<Rightarrow> RecordData list \<Rightarrow> RecordData list" where
  "hist_run ops H = fold hist_exec ops H"

definition represents :: "RecordData list \<Rightarrow> PartitionLog \<Rightarrow> bool" where
  "represents H l \<longleftrightarrow>
     log_wf l \<and> pl_next_offset l = int (length H)
     \<and> map data_from_record (all_records (pl_batches l)) = drop (nat (start_offset l)) H"

section \<open>One operation\<close>

lemma represents_empty:
  "represents [] log_new" "represents [] (log_with_max_bytes n)"
  by (simp_all add: represents_def) (simp_all add: log_new_def log_with_max_bytes_def)

lemma represents_record:
  assumes "represents H l" and "r \<in> set (all_records (pl_batches l))"
  shows "0 \<le> rec_offset r" and "rec_offset r < int (length H)"
    and "data_from_record r = H ! nat (rec_offset r)"
proof -
  let ?rs = "all_records (pl_batches l)" and ?s = "start_offset l"
  have ch: "chain ?s (pl_batches l) (pl_next_offset l)" and s: "0 \<le> ?s"
    and nx: "pl_next_offset l = int (length H)"
    and d: "map data_from_record ?rs = drop (nat ?s) H"
    using assms(1) by (auto simp: represents_def log_wf_def)
  obtain i where i: "i < length ?rs" "r = ?rs ! i"
    using assms(2) by (auto simp: in_set_conv_nth)
  have off: "rec_offset r = ?s + int i"
    using chain_nth_offset [OF ch i(1)] i(2) by simp
  then show "0 \<le> rec_offset r" using s by simp
  have le: "?s + int (length ?rs) = int (length H)"
    using chain_end [OF ch] nx by simp
  then show "rec_offset r < int (length H)"
    using off i(1) by simp
  have "data_from_record r = drop (nat ?s) H ! i"
    using i d by (metis nth_map)
  also have "\<dots> = H ! nat (rec_offset r)"
    using off s i(1) le by (simp add: nat_add_distrib)
  finally show "data_from_record r = H ! nat (rec_offset r)" .
qed

text \<open>
  Appending a sealed batch and evicting a prefix keeps the representation: what is left is
  a suffix of the longer history, starting where the first remaining batch starts.
\<close>

lemma represents_push:
  assumes rep: "represents H l" and wf: "log_wf l'"
    and nx: "pl_next_offset l' = int (length H) + int (length rs)"
    and bs: "pl_batches l' = drop k (pl_batches l @ [sealed_batch (int (length H)) rs t st])"
  shows "represents (H @ rs) l'"
proof -
  define bs where "bs = pl_batches l @ [sealed_batch (int (length H)) rs t st]"
  have s: "0 \<le> start_offset l" and ch: "chain (start_offset l) (pl_batches l) (int (length H))"
    and d: "map data_from_record (all_records (pl_batches l)) = drop (nat (start_offset l)) H"
    using rep by (auto simp: represents_def log_wf_def)
  have whole: "map data_from_record (all_records bs) = drop (nat (start_offset l)) (H @ rs)"
    using d chain_le [OF ch] by (simp add: comp_def bs_def)
  have "all_records bs = all_records (take k bs) @ all_records (drop k bs)"
    by (metis all_records_simps(3) append_take_drop_id)
  then obtain j where j: "all_records (drop k bs) = drop j (all_records bs)"
    and jl: "j \<le> length (all_records bs)"
    by (metis append_eq_conv_conj length_append le_add1)
  have "chain (start_offset l') (drop k bs) (int (length H) + int (length rs))"
    using wf nx bs by (simp add: log_wf_def bs_def)
  then have "int (length H) + int (length rs) = start_offset l' + int (length (all_records bs) - j)"
    using j by (auto dest: chain_end)
  moreover have "length (all_records bs) = length H + length rs - nat (start_offset l)"
    using arg_cong [OF whole, of length] by (simp del: drop_append)
  ultimately have "nat (start_offset l') = j + nat (start_offset l)"
    using jl s chain_le [OF ch] by simp
  then have "map data_from_record (all_records (drop k bs)) = drop (nat (start_offset l')) (H @ rs)"
    by (simp add: j whole drop_map [symmetric] drop_drop del: drop_append)
  then show ?thesis
    using wf nx bs by (simp add: represents_def bs_def)
qed

context log_appender
begin

lemma app_represents:
  assumes "represents H l" and "int (length (H @ accepted rs)) \<le> max_signed 64"
  shows "represents (H @ accepted rs) (snd (app l rs))"
proof (cases "fst (app l rs)")
  case (Inl e)
  then show ?thesis
    using app_error [of l rs e] assms(1) by (auto simp: accepted_def)
next
  case (Inr base)
  have wf: "log_wf l" and nx: "pl_next_offset l = int (length H)"
    using assms(1) by (auto simp: represents_def)
  have "length rs \<le> MAX_APPEND_RECORDS"
    using Inr by (cases rule: app_cases [of rs l]) auto
  then have acc: "accepted rs = rs" and room: "room l (length rs)"
    using assms(2) nx by (auto simp: accepted_def room_def)
  obtain k where "base = pl_next_offset l"
    and "pl_next_offset (snd (app l rs)) = base + int (length rs)"
    and "pl_batches (snd (app l rs)) = drop k (pl_batches l @ [sealed_batch base rs txn st])"
    using app_result [OF wf room Inr] by metis
  then show ?thesis
    using represents_push [OF assms(1) app_wf [OF wf room], of rs k txn st] nx acc by simp
qed

end

lemma log_append_data: "log_append l inputs = append_data l (map data_from_input inputs)"
  by (simp add: append_data_def comp_def)

lemma log_exec_represents:
  assumes "represents H l" and "int (length (hist_exec op H)) \<le> max_signed 64"
  shows "represents (hist_exec op H) (log_exec op l)"
  using assms plain.app_represents txn.app_represents
  by (cases op) (auto simp: log_append_data represents_def commit_transaction_wf)

section \<open>Whole runs\<close>

lemma hist_exec_grows: "length H \<le> length (hist_exec op H)"
  by (cases op) auto

lemma hist_run_grows: "length H \<le> length (hist_run ops H)"
proof (induction ops arbitrary: H)
  case (Cons op ops)
  show ?case
    using Cons [of "hist_exec op H"] hist_exec_grows [of H op] by (simp add: hist_run_def)
qed (simp add: hist_run_def)

lemma log_run_represents:
  assumes "represents H l" and "int (length (hist_run ops H)) \<le> max_signed 64"
  shows "represents (hist_run ops H) (log_run ops l)"
  using assms
proof (induction ops arbitrary: H l)
  case Nil
  then show ?case by (simp add: hist_run_def log_run_def)
next
  case (Cons op ops)
  have "int (length (hist_exec op H)) \<le> max_signed 64"
    using Cons.prems(2) hist_run_grows [of "hist_exec op H" ops] by (simp add: hist_run_def)
  then have "represents (hist_exec op H) (log_exec op l)"
    by (rule log_exec_represents [OF Cons.prems(1)])
  then show ?case
    using Cons.IH Cons.prems(2) by (simp add: hist_run_def log_run_def)
qed

section \<open>Logs without a byte budget\<close>

lemma log_exec_unlimited:
  assumes "pl_max_bytes l = None" and "start_offset l = 0"
  shows "pl_max_bytes (log_exec op l) = None \<and> start_offset (log_exec op l) = 0"
  using assms
  by (cases op)
    (auto simp: log_append_def append_data_def append_transactional_def commit_transaction_def push_batch_def
      enforce_retention_def start_offset_def Let_def split: list.splits)

lemma log_run_unlimited: "start_offset (log_run ops log_new) = 0"
proof -
  have "pl_max_bytes l = None \<Longrightarrow> start_offset l = 0 \<Longrightarrow> start_offset (log_run ops l) = 0" for l
    by (induction ops arbitrary: l) (simp_all add: log_run_def log_exec_unlimited)
  then show ?thesis by (simp add: log_new_def start_offset_def)
qed

end
