(* ===== verification/Log_Properties.thy ===== *)
theory Log_Properties
  imports Log_History
begin

text \<open>
  The properties of the partition log: atomic appends, retention, the fetch window, progress,
  isolation, transaction resolution and the refinement of the append-only history.
\<close>

definition sample_data :: "byte \<Rightarrow> RecordData" where
  "sample_data x = \<lparr>rd_timestamp_ms = 1000, rd_key = None, rd_value = Some [x]\<rparr>"

definition sample_record :: "int \<Rightarrow> byte \<Rightarrow> Record" where
  "sample_record off x =
     \<lparr>rec_offset = off, rec_timestamp_ms = 1000, rec_key = None, rec_value = Some [x]\<rparr>"

lemma wrap_signed_64_nat [simp]:
  "wrap_signed 64 (numeral k) = (numeral k + 2 ^ 63) mod 2 ^ 64 - 2 ^ 63"
  "wrap_signed 64 0 = 0" "wrap_signed 64 1 = 1"
  by (simp_all add: wrap_signed_def)

lemmas log_eval =
  log_run_def hist_run_def log_append_def append_data_def append_transactional_def
  commit_transaction_def push_batch_def enforce_retention_def stamp_inputs_def
  sample_data_def sample_record_def as_input_def log_new_def log_with_max_bytes_def
  MAX_APPEND_RECORDS_def RECORD_OVERHEAD_BYTES_def batch_size_def record_size_def
  accepted_def enumerate_eq_zip Let_def

lemmas fetch_eval =
  fetch_with_isolation_def log_fetch_def fetch_inner_def start_offset_def last_stable_offset_def
  batch_index_for_def bsearch.simps hidden_def

section \<open>Shared lemmas\<close>

lemma readable_uncommitted:
  assumes "chain a bs z" and "a \<le> off"
  shows "readable bs off False = drop (nat (off - a)) (all_records bs)"
proof -
  let ?rs = "all_records bs" and ?k = "nat (off - a)"
  have "filter (\<lambda>r. off \<le> rec_offset r) (take ?k ?rs) = []"
    unfolding filter_empty_conv
    using assms(2) chain_nth_offset [OF assms(1)] by (auto simp: in_set_conv_nth)
  moreover have "filter (\<lambda>r. off \<le> rec_offset r) (drop ?k ?rs) = drop ?k ?rs"
    unfolding filter_id_conv
    using assms(2) chain_nth_offset [OF assms(1)] by (auto simp: in_set_conv_nth)
  ultimately have "filter (\<lambda>r. off \<le> rec_offset r) (take ?k ?rs @ drop ?k ?rs) = drop ?k ?rs"
    by (simp only: filter_append append_Nil)
  then show ?thesis by (simp add: readable_def hidden_def)
qed

lemma windowE:
  assumes "is_window n m rs ws"
  obtains k where "ws = take k rs" "k \<le> length rs" "k \<le> n" "k \<le> 1 \<or> bytes_of (take k rs) \<le> m"
    and "k < length rs \<longrightarrow> k = n \<or> 0 < k \<and> m < bytes_of (take (Suc k) rs)"
  using assms that [of "length ws"] unfolding is_window_def Let_def by metis

lemma window_subset: "is_window n m rs ws \<Longrightarrow> r \<in> set ws \<Longrightarrow> r \<in> set rs"
  by (erule windowE) (auto dest: in_set_takeD)

lemma window_nonempty: "is_window n m rs ws \<Longrightarrow> rs \<noteq> [] \<Longrightarrow> 0 < n \<Longrightarrow> ws \<noteq> []"
  by (erule windowE) auto

lemma readable_retained: "r \<in> set (readable bs off rc) \<Longrightarrow> r \<in> set (all_records bs)"
  by (auto simp: set_readable all_records_def)

lemma fetched_readable:
  assumes "log_wf l" and "fetch_with_isolation l off n m rc = Inr w" and "r \<in> set (fw_records w)"
  shows "r \<in> set (readable (pl_batches l) off rc)"
  using window_subset [OF fetch_inner_is_window] assms by (simp add: fetch_with_isolation_def)

lemma chain_sorted_readable:
  assumes "chain a bs z"
  shows "sorted_wrt (<) (map rec_offset (readable bs off rc))"
proof -
  have all: "sorted_wrt (<) (map rec_offset (all_records bs))"
    unfolding chain_offsets [OF assms] by (simp add: sorted_wrt_iff_nth_less)
  have "\<exists>P. readable bs off rc = map snd (filter P (concat (map (\<lambda>b. map (Pair b) (sb_records b)) bs)))"
    by (rule exI [of _ "\<lambda>(b, r). \<not> hidden rc b \<and> off \<le> rec_offset r"], induction bs)
      (auto simp: filter_map comp_def)
  then obtain P where P: "readable bs off rc = map snd (filter P (concat (map (\<lambda>b. map (Pair b) (sb_records b)) bs)))"
    by blast
  have "map snd (concat (map (\<lambda>b. map (Pair b) (sb_records b)) bs)) = all_records bs"
    by (induction bs) (auto simp: comp_def)
  then have "sorted_wrt (<) (map (rec_offset \<circ> snd) (concat (map (\<lambda>b. map (Pair b) (sb_records b)) bs)))"
    using all by (metis map_map)
  then show ?thesis
    unfolding P map_map by (simp add: sorted_wrt_map sorted_wrt_filter)
qed

lemma chain_bases_le: "chain a bs z \<Longrightarrow> b \<in> set bs \<Longrightarrow> sb_base_offset b \<le> z"
  by (induction bs arbitrary: a) (auto dest: chain_le)

lemma find_pending:
  "find (\<lambda>b. sb_transaction b \<noteq> None \<and> sb_state b = Pending) bs = Some b \<Longrightarrow> chain a bs z \<Longrightarrow>
     b \<in> set bs \<and> sb_state b = Pending \<and>
     (\<forall>c \<in> set bs. sb_transaction c \<noteq> None \<and> sb_state c = Pending \<longrightarrow> sb_base_offset b \<le> sb_base_offset c)"
proof (induction bs arbitrary: a)
  case (Cons x bs)
  show ?case
  proof (cases "sb_transaction x \<noteq> None \<and> sb_state x = Pending")
    case True
    then have "b = x" using Cons.prems(1) by simp
    moreover have "sb_base_offset x \<le> sb_base_offset c" if "c \<in> set (x # bs)" for c
      using chain_bases_ge [OF Cons.prems(2) that] Cons.prems(2) by simp
    ultimately show ?thesis using True by simp
  next
    case False
    then show ?thesis
      using Cons.IH [of "a + int (length (sb_records x))"] Cons.prems by auto
  qed
qed simp

lemma last_stable_offset_spec:
  assumes "log_wf l"
  shows "last_stable_offset l \<le> pl_next_offset l"
    and "b \<in> set (pl_batches l) \<Longrightarrow> sb_state b = Pending \<Longrightarrow> last_stable_offset l \<le> sb_base_offset b"
    and "last_stable_offset l = pl_next_offset l
         \<or> (\<exists>b \<in> set (pl_batches l). sb_state b = Pending \<and> sb_base_offset b = last_stable_offset l)"
proof -
  let ?P = "\<lambda>b. sb_transaction b \<noteq> None \<and> sb_state b = Pending"
  have ch: "chain (start_offset l) (pl_batches l) (pl_next_offset l)"
    using assms by (simp add: log_wf_def)
  have txn: "sb_transaction b \<noteq> None" if "b \<in> set (pl_batches l)" "sb_state b = Pending" for b
    using chain_batch_ok [OF ch that(1)] that(2) by (auto simp: batch_ok_def)
  have below: "sb_base_offset b \<le> pl_next_offset l" if "b \<in> set (pl_batches l)" for b
    using chain_bases_le [OF ch that] .
  consider (none) "find ?P (pl_batches l) = None" | (some) b where "find ?P (pl_batches l) = Some b"
    by fastforce
  then have "last_stable_offset l \<le> pl_next_offset l
    \<and> (\<forall>b \<in> set (pl_batches l). sb_state b = Pending \<longrightarrow> last_stable_offset l \<le> sb_base_offset b)
    \<and> (last_stable_offset l = pl_next_offset l
         \<or> (\<exists>b \<in> set (pl_batches l). sb_state b = Pending \<and> sb_base_offset b = last_stable_offset l))"
  proof cases
    case none
    then have "last_stable_offset l = pl_next_offset l"
      by (simp add: last_stable_offset_def)
    moreover have "sb_state b \<noteq> Pending" if "b \<in> set (pl_batches l)" for b
      using none txn [OF that] that unfolding find_None_iff by blast
    ultimately show ?thesis by simp
  next
    case some
    then have "last_stable_offset l = sb_base_offset b"
      by (simp add: last_stable_offset_def)
    then show ?thesis
      using find_pending [OF some ch] txn below by auto
  qed
  then show "last_stable_offset l \<le> pl_next_offset l"
    and "b \<in> set (pl_batches l) \<Longrightarrow> sb_state b = Pending \<Longrightarrow> last_stable_offset l \<le> sb_base_offset b"
    and "last_stable_offset l = pl_next_offset l
         \<or> (\<exists>b \<in> set (pl_batches l). sb_state b = Pending \<and> sb_base_offset b = last_stable_offset l)"
    by auto
qed

section \<open>Properties\<close>

text \<open>
  C1: after any sequence of appends, transactional appends and transaction resolutions on a
  fresh log, bounded or not, the log holds exactly a suffix of the append-only history: it is
  well-formed, its high watermark is the number of records ever accepted, and the retained
  record at offset \<open>i\<close> is the \<open>i\<close>-th record ever accepted. The bound says that the \<^verbatim>\<open>i64\<close>
  offset counter has not overflowed.
\<close>

theorem log_refines_history:
  assumes "l0 = log_new \<or> l0 = log_with_max_bytes n"
    and "int (length (hist_run ops [])) \<le> max_signed 64"
  shows "represents (hist_run ops []) (log_run ops l0)"
  using assms log_run_represents [of "[]" l0 ops] represents_empty by auto

theorem log_refines_history_witness:
  "represents [sample_data 97, sample_data 98, sample_data 99]
     (log_run [OpAppendData [sample_data 97], OpAppendTransactional [sample_data 98] 7,
               OpCommitTransaction 7 True, OpAppendData [sample_data 99]] (log_with_max_bytes 70))"
proof -
  let ?ops = "[OpAppendData [sample_data 97], OpAppendTransactional [sample_data 98] 7,
    OpCommitTransaction 7 True, OpAppendData [sample_data 99]]"
  have h: "hist_run ?ops [] = [sample_data 97, sample_data 98, sample_data 99]"
    by (simp add: hist_run_def accepted_def MAX_APPEND_RECORDS_def)
  show ?thesis
    using log_refines_history [of "log_with_max_bytes 70" 70 ?ops] unfolding h
    by (simp add: max_signed_def)
qed

lemma sealed_record:
  assumes "log_wf l" and "room l (length rs)" and "base = pl_next_offset l" and "i < length rs"
  shows "rec_offset (stamp_inputs base (map as_input rs) ! i) = base + int i
    \<and> rec_timestamp_ms (stamp_inputs base (map as_input rs) ! i) = rd_timestamp_ms (rs ! i)
    \<and> rec_key (stamp_inputs base (map as_input rs) ! i) = rd_key (rs ! i)
    \<and> rec_value (stamp_inputs base (map as_input rs) ! i) = rd_value (rs ! i)"
proof -
  have "0 \<le> base" using assms(1,3) chain_le [of "start_offset l" "pl_batches l" "pl_next_offset l"] by (auto simp: log_wf_def)
  then have "in_i64 (base + int i)" using assms(2-4) by (simp add: room_def in_signed_def max_signed_def)
  then show ?thesis using assms(4) by (simp add: stamp_inputs_def nth_enumerate_eq as_input_def)
qed

text \<open>
  C25: an append is atomic. If it is rejected, because it is empty or larger than the
  per-append bound, the log is unchanged; if it is accepted it returns the old high
  watermark, advances it by exactly the number of records, and stores the records as the newest
  batch behind a suffix of the old ones: a committed batch outside any transaction whose \<open>i\<close>th
  record has the base offset plus \<open>i\<close> as its offset, and the timestamp, key and value of the
  \<open>i\<close>th record given.
\<close>

theorem append_data_atomic:
  assumes "log_wf l" and "room l (length rs)"
  shows "case append_data l rs of
      (Inl e, l') \<Rightarrow> l' = l \<and>
        (e = EmptyAppend \<and> rs = [] \<or> e = TooManyRecords \<and> MAX_APPEND_RECORDS < length rs)
    | (Inr base, l') \<Rightarrow> log_wf l' \<and> rs \<noteq> [] \<and> length rs \<le> MAX_APPEND_RECORDS
        \<and> base = high_watermark l \<and> high_watermark l' = base + int (length rs)
        \<and> (\<exists>k b. k \<le> length (pl_batches l) \<and> pl_batches l' = drop k (pl_batches l) @ [b]
              \<and> sb_base_offset b = base \<and> sb_transaction b = None \<and> sb_state b = Committed
              \<and> length (sb_records b) = length rs
              \<and> (\<forall>i < length rs. rec_offset (sb_records b ! i) = base + int i
                    \<and> rec_timestamp_ms (sb_records b ! i) = rd_timestamp_ms (rs ! i)
                    \<and> rec_key (sb_records b ! i) = rd_key (rs ! i)
                    \<and> rec_value (sb_records b ! i) = rd_value (rs ! i)))"
proof (cases "fst (append_data l rs)")
  case (Inl e)
  then show ?thesis
    using plain.app_error [of l rs e] by (auto simp: case_prod_beta split: prod.splits)
next
  case (Inr base)
  obtain l' where l': "append_data l rs = (Inr base, l')" using Inr by (metis prod.collapse)
  obtain k where k: "k \<le> length (pl_batches l)" "pl_batches l' = drop k (pl_batches l) @ [sealed_batch base rs None Committed]"
    and base: "base = pl_next_offset l" and rs: "rs \<noteq> []" "length rs \<le> MAX_APPEND_RECORDS" "pl_next_offset l' = base + int (length rs)"
    using plain.app_result [OF assms Inr] l' by auto
  note at = sealed_record [OF assms base]
  have "\<exists>k b. k \<le> length (pl_batches l) \<and> pl_batches l' = drop k (pl_batches l) @ [b]
      \<and> sb_base_offset b = base \<and> sb_transaction b = None \<and> sb_state b = Committed \<and> length (sb_records b) = length rs
      \<and> (\<forall>i < length rs. rec_offset (sb_records b ! i) = base + int i
            \<and> rec_timestamp_ms (sb_records b ! i) = rd_timestamp_ms (rs ! i)
            \<and> rec_key (sb_records b ! i) = rd_key (rs ! i) \<and> rec_value (sb_records b ! i) = rd_value (rs ! i))"
    using k at by (intro exI [of _ k] exI [of _ "sealed_batch base rs None Committed"]) simp
  moreover have "log_wf l' \<and> rs \<noteq> [] \<and> length rs \<le> MAX_APPEND_RECORDS \<and> base = high_watermark l
      \<and> high_watermark l' = base + int (length rs)"
    using plain.app_wf [OF assms] l' base rs by (simp add: high_watermark_def)
  ultimately show ?thesis unfolding l' by simp
qed

theorem append_data_atomic_witness:
  "room log_new 2 \<and>
   (\<exists>l'. append_data log_new [sample_data 97, sample_data 98] = (Inr 0, l') \<and> log_wf l'
      \<and> high_watermark l' = 2)"
proof -
  have r: "room log_new (length [sample_data 97, sample_data 98])"
    by (simp add: room_def log_new_def max_signed_def)
  have "fst (append_data log_new [sample_data 97, sample_data 98]) = Inr 0"
    by (simp add: log_eval)
  then obtain l' where "append_data log_new [sample_data 97, sample_data 98] = (Inr 0, l')"
    by (metis prod.collapse)
  then show ?thesis
    using append_data_atomic [OF log_wf_new r] r
    by (simp add: high_watermark_def log_new_def room_def max_signed_def)
qed

text \<open>
  A transactional append obeys the same contract and stores its batch as pending, tagged
  with the producer; no read-committed reader sees any of its records before the
  transaction is resolved, while the offsets it occupies are reserved.
\<close>

lemma append_transactional_pending:
  assumes "log_wf l" and "room l (length rs)"
    and "append_transactional l rs p = (Inr base, l')"
  shows "log_wf l' \<and> base = high_watermark l \<and> high_watermark l' = base + int (length rs)
    \<and> (\<exists>k \<le> length (pl_batches l).
          pl_batches l' = drop k (pl_batches l) @ [sealed_batch base rs (Some p) Pending])
    \<and> last_stable_offset l' \<le> base
    \<and> (\<forall>off n m w. fetch_with_isolation l' off n m True = Inr w \<longrightarrow>
          (\<forall>r \<in> set (fw_records w). rec_offset r < base))"
proof -
  have ok: "fst (append_transactional l rs p) = Inr base" and l': "snd (append_transactional l rs p) = l'"
    using assms(3) by simp_all
  have wf: "log_wf l'"
    using txn.app_wf [OF assms(1,2), of p] l' by simp
  obtain k where base: "base = pl_next_offset l" and nx: "pl_next_offset l' = base + int (length rs)"
    and k: "k \<le> length (pl_batches l)"
    and bs: "pl_batches l' = drop k (pl_batches l) @ [sealed_batch base rs (Some p) Pending]"
    using txn.app_result [OF assms(1,2) ok] l' by auto
  have lso: "last_stable_offset l' \<le> base"
    using last_stable_offset_spec(2) [OF wf, of "sealed_batch base rs (Some p) Pending"] bs by simp
  have below: "rec_offset r < base" if "r \<in> set (readable (pl_batches l') off True)" for r off
  proof -
    have "r \<in> set (all_records (drop k (pl_batches l)))"
      using that bs by (auto simp: set_readable hidden_def all_records_def)
    then show ?thesis
      using chain_drop [of "start_offset l" "pl_batches l" "pl_next_offset l" k]
        chain_record_bounds assms(1) base by (auto simp: log_wf_def)
  qed
  show ?thesis
  proof (intro conjI allI impI ballI)
    show "\<exists>k \<le> length (pl_batches l).
        pl_batches l' = drop k (pl_batches l) @ [sealed_batch base rs (Some p) Pending]"
      using k bs by blast
    show "rec_offset r < base"
      if "fetch_with_isolation l' off n m True = Inr w" "r \<in> set (fw_records w)" for off n m w r
      using below [OF fetched_readable [OF wf that]] .
  qed (use wf base nx lso in \<open>simp_all add: high_watermark_def\<close>)
qed

lemma append_transactional_pending_example:
  "\<exists>l'. append_transactional log_new [sample_data 97] 7 = (Inr 0, l') \<and> log_wf l'
     \<and> high_watermark l' = 1 \<and> last_stable_offset l' \<le> 0"
proof -
  have r: "room log_new (length [sample_data 97])"
    by (simp add: room_def log_new_def max_signed_def)
  have "fst (append_transactional log_new [sample_data 97] 7) = Inr 0"
    by (simp add: log_eval)
  then obtain l' where l': "append_transactional log_new [sample_data 97] 7 = (Inr 0, l')"
    by (metis prod.collapse)
  then show ?thesis
    using append_transactional_pending [OF log_wf_new r l'] by simp
qed

text \<open>
  C26: retention on a bounded log drops the oldest batches and no more than it has to. After
  an accepted append the retained bytes are within the budget or only the newest batch is
  left, every shorter eviction would have stayed over the budget, and the batch just
  appended is always retained whole.
\<close>

theorem append_retention:
  assumes "log_wf l" and "room l (length rs)" and "pl_max_bytes l = Some limit"
    and "append_data l rs = (Inr base, l')"
  shows "\<exists>k \<le> length (pl_batches l).
      pl_batches l' = drop k (pl_batches l) @ [sealed_batch base rs None Committed]
      \<and> pl_retained_bytes l' = total_size (pl_batches l')
      \<and> (pl_retained_bytes l' \<le> limit \<or> length (pl_batches l') = 1)
      \<and> (\<forall>j < k. limit < total_size (drop j (pl_batches l) @ [sealed_batch base rs None Committed]))"
proof -
  have "fst (append_data l rs) = Inr base" and l': "snd (append_data l rs) = l'"
    using assms(4) by simp_all
  then obtain k where k: "k \<le> length (pl_batches l)"
    and bs: "pl_batches l' = drop k (pl_batches l) @ [sealed_batch base rs None Committed]"
    and ev: "evicted (Some limit) (pl_batches l @ [sealed_batch base rs None Committed]) k"
    using plain.app_result [OF assms(1,2)] assms(3) by (metis drop_append diff_is_0_eq drop0)
  have "log_wf l'"
    using plain.app_wf [OF assms(1,2)] l' by simp
  then have "pl_retained_bytes l' = total_size (pl_batches l')"
    by (simp add: log_wf_def)
  then show ?thesis
    using k bs ev by (intro exI [of _ k]) (auto simp: evicted_def evicts_def)
qed

theorem append_retention_witness:
  "\<exists>l'. append_data (log_run [OpAppendData [sample_data 97]] (log_with_max_bytes 40)) [sample_data 98]
          = (Inr 1, l') \<and> start_offset l' = 1 \<and> pl_retained_bytes l' \<le> 40"
proof -
  let ?l = "log_run [OpAppendData [sample_data 97]] (log_with_max_bytes 40)"
  have wf: "log_wf ?l"
    using log_run_represents [of "[]" "log_with_max_bytes 40" "[OpAppendData [sample_data 97]]"]
      represents_empty by (simp add: represents_def hist_run_def accepted_def max_signed_def)
  have r: "room ?l (length [sample_data 98])" and m: "pl_max_bytes ?l = Some 40"
    by (simp_all add: log_eval room_def max_signed_def)
  have fst: "fst (append_data ?l [sample_data 98]) = Inr 1"
    and st: "start_offset (snd (append_data ?l [sample_data 98])) = 1"
    and len: "total_size (pl_batches (snd (append_data ?l [sample_data 98]))) \<le> 40"
    by (simp_all add: log_eval start_offset_def)
  then obtain l' where l': "append_data ?l [sample_data 98] = (Inr 1, l')"
    by (metis prod.collapse)
  then show ?thesis
    using append_retention [OF wf r m l'] st len by auto
qed

text \<open>
  C27: a fetch, with its binary search for the starting batch and its nested loops, returns
  exactly the window that the record and byte budgets admit of the readable records from
  the requested offset on, together with the high watermark; it fails exactly when the
  offset lies below the retained start or beyond the high watermark.
\<close>

theorem fetch_exact_window:
  assumes "log_wf l"
  shows "case fetch_with_isolation l off n m rc of
      Inl e \<Rightarrow> e = OffsetOutOfRange \<and> (off < start_offset l \<or> high_watermark l < off)
    | Inr w \<Rightarrow> start_offset l \<le> off \<and> off \<le> high_watermark l
        \<and> fw_high_watermark w = high_watermark l
        \<and> is_window n m (readable (pl_batches l) off rc) (fw_records w)"
proof (cases "fetch_with_isolation l off n m rc")
  case (Inl e)
  then show ?thesis
    by (auto simp: fetch_with_isolation_def fetch_inner_def high_watermark_def Let_def split: if_splits)
next
  case (Inr w)
  then have "is_window n m (readable (pl_batches l) off rc) (fw_records w)"
    using fetch_inner_is_window [OF assms] by (simp add: fetch_with_isolation_def)
  then show ?thesis
    using Inr by (auto simp: fetch_with_isolation_def fetch_inner_def high_watermark_def Let_def
        split: if_splits)
qed

theorem fetch_exact_window_witness:
  "\<exists>w. fetch_with_isolation
          (log_run [OpAppendData [sample_data 97, sample_data 98], OpAppendData [sample_data 99]] log_new)
          1 10 40 False = Inr w \<and> fw_records w = [sample_record 1 98]
        \<and> is_window 10 40 [sample_record 1 98, sample_record 2 99] (fw_records w)"
proof -
  let ?ops = "[OpAppendData [sample_data 97, sample_data 98], OpAppendData [sample_data 99]]"
  let ?l = "log_run ?ops log_new"
  have wf: "log_wf ?l"
    using log_run_represents [of "[]" log_new ?ops] represents_empty
    by (simp add: represents_def hist_run_def accepted_def max_signed_def MAX_APPEND_RECORDS_def)
  have f: "fetch_with_isolation ?l 1 10 40 False
      = Inr \<lparr>fw_high_watermark = 3, fw_last_stable_offset = 3, fw_records = [sample_record 1 98]\<rparr>"
    by (simp add: log_eval fetch_eval)
  have "readable (pl_batches ?l) 1 False = [sample_record 1 98, sample_record 2 99]"
    by (simp add: log_eval hidden_def)
  then show ?thesis
    using fetch_exact_window [OF wf, of 1 10 40 False] unfolding f by simp
qed

lemma log_fetch_progress:
  assumes "log_wf l" and "start_offset l \<le> off" and "off < high_watermark l" and "0 < n"
  shows "\<exists>w. log_fetch l off n m = Inr w \<and> fw_records w \<noteq> []
      \<and> (\<forall>i < length (fw_records w). rec_offset (fw_records w ! i) = off + int i)
      \<and> length (fw_records w) \<le> n \<and> (length (fw_records w) = 1 \<or> bytes_of (fw_records w) \<le> m)"
proof -
  let ?rs = "all_records (pl_batches l)" and ?k = "nat (off - start_offset l)"
  have ch: "chain (start_offset l) (pl_batches l) (pl_next_offset l)"
    using assms(1) by (simp add: log_wf_def)
  have rd: "readable (pl_batches l) off False = drop ?k ?rs"
    by (rule readable_uncommitted [OF ch assms(2)])
  have k: "?k < length ?rs"
    using chain_end [OF ch] assms(2,3) by (simp add: high_watermark_def)
  obtain w where w: "log_fetch l off n m = Inr w"
    using assms(2,3) by (auto simp: log_fetch_def fetch_inner_def high_watermark_def Let_def)
  have win: "is_window n m (drop ?k ?rs) (fw_records w)"
    using fetch_inner_is_window [OF assms(1)] w rd by (metis log_fetch_def)
  then obtain j where j: "fw_records w = take j (drop ?k ?rs)" "j \<le> length (drop ?k ?rs)" "j \<le> n"
    "j \<le> 1 \<or> bytes_of (take j (drop ?k ?rs)) \<le> m"
    by (rule windowE)
  have "rec_offset (fw_records w ! i) = off + int i" if "i < length (fw_records w)" for i
    using that j(1) k chain_nth_offset [OF ch, of "?k + i"] assms(2)
    by (simp add: nth_drop less_diff_conv add.commute)
  moreover have "fw_records w \<noteq> []"
    using window_nonempty [OF win] k assms(4) by simp
  ultimately show ?thesis
    using w j by (auto simp: le_Suc_eq)
qed

text \<open>
  A consumer that polls: it fetches, and continues behind the last record it was given, until a
  fetch returns nothing.
\<close>

fun poll :: "nat \<Rightarrow> PartitionLog \<Rightarrow> int \<Rightarrow> nat \<Rightarrow> nat \<Rightarrow> bool \<Rightarrow> Record list" where
  "poll 0 l off n m rc = []"
| "poll (Suc k) l off n m rc =
     (case fetch_with_isolation l off n m rc of
        Inl _ \<Rightarrow> []
      | Inr w \<Rightarrow> if fw_records w = [] then []
                 else fw_records w @ poll k l (rec_offset (last (fw_records w)) + 1) n m rc)"

lemma readable_narrow: "off \<le> off' \<Longrightarrow> readable bs off' rc = filter (\<lambda>r. off' \<le> rec_offset r) (readable bs off rc)"
  by (induction bs) (auto intro!: filter_cong)

lemma readable_behind:
  assumes "chain a bs z" and "0 < j" and "j \<le> length (readable bs off rc)"
  shows "readable bs (rec_offset (readable bs off rc ! (j - 1)) + 1) rc = drop j (readable bs off rc)"
proof -
  let ?R = "readable bs off rc" and ?o = "rec_offset (readable bs off rc ! (j - 1)) + 1"
  have lt: "rec_offset (?R ! x) < rec_offset (?R ! y)" if "x < y" "y < length ?R" for x y
    using chain_sorted_readable [OF assms(1), of off rc] that by (simp add: sorted_wrt_iff_nth_less)
  have "?R ! (j - 1) \<in> set ?R" using assms(2,3) by simp
  then have "off \<le> ?o" by (simp add: set_readable)
  moreover have "filter (\<lambda>r. ?o \<le> rec_offset r) (take j ?R) = []"
    unfolding filter_empty_conv
  proof
    fix r assume "r \<in> set (take j ?R)"
    then obtain x where x: "x < j" "r = ?R ! x" using assms(3) by (auto simp: in_set_conv_nth)
    then have "x = j - 1 \<or> x < j - 1 \<and> j - 1 < length ?R" using assms(3) by linarith
    then show "\<not> ?o \<le> rec_offset r" using lt [of x "j - 1"] x(2) by auto
  qed
  moreover have "filter (\<lambda>r. ?o \<le> rec_offset r) (drop j ?R) = drop j ?R"
    unfolding filter_id_conv
  proof
    fix r assume "r \<in> set (drop j ?R)"
    then obtain x where x: "x < length ?R - j" "r = ?R ! (j + x)" by (auto simp: in_set_conv_nth)
    then have "j - 1 < j + x" "j + x < length ?R" using assms(2) by linarith+
    then show "?o \<le> rec_offset r" using lt [of "j - 1" "j + x"] x(2) by simp
  qed
  ultimately show ?thesis
    using readable_narrow [of off ?o bs rc] by (metis append_take_drop_id filter_append append_Nil)
qed

lemma poll_reads_all:
  assumes "log_wf l" and "start_offset l \<le> off" and "off \<le> high_watermark l" and "0 < n"
    and "length (readable (pl_batches l) off rc) \<le> k"
  shows "poll k l off n m rc = readable (pl_batches l) off rc"
  using assms(2,3,5)
proof (induction k arbitrary: off)
  case (Suc k)
  let ?R = "readable (pl_batches l) off rc"
  have ch: "chain (start_offset l) (pl_batches l) (pl_next_offset l)" using assms(1) by (simp add: log_wf_def)
  obtain w where w: "fetch_with_isolation l off n m rc = Inr w"
    using Suc.prems(1,2) by (auto simp: fetch_with_isolation_def fetch_inner_def high_watermark_def Let_def)
  have win: "is_window n m ?R (fw_records w)"
    using fetch_inner_is_window [OF assms(1)] w by (simp add: fetch_with_isolation_def)
  show ?case
  proof (cases "?R = []")
    case True
    then show ?thesis using w win by (auto elim: windowE)
  next
    case False
    obtain j where j: "fw_records w = take j ?R" "j \<le> length ?R" using win by (rule windowE)
    have j0: "0 < j" using window_nonempty [OF win False assms(4)] j by (cases j) auto
    let ?r = "?R ! (j - 1)"
    have "?r \<in> set ?R" using j(2) j0 by simp
    then have r: "start_offset l \<le> rec_offset ?r + 1" "rec_offset ?r + 1 \<le> high_watermark l"
      using chain_record_bounds [OF ch, of ?r] readable_retained by (force simp: high_watermark_def)+
    have ne: "fw_records w \<noteq> []" by (rule window_nonempty [OF win False assms(4)])
    then have "last (fw_records w) = ?r" using j j0 by (simp add: last_conv_nth)
    moreover have "poll k l (rec_offset ?r + 1) n m rc = drop j ?R"
      using Suc.IH [OF r] readable_behind [OF ch j0 j(2)] Suc.prems(3) j0 by simp
    ultimately show ?thesis using w ne j(1) by simp
  qed
qed simp



lemma fetched_history:
  assumes "represents H l" and "fetch_with_isolation l off n m rc = Inr w"
  shows "(\<forall>r \<in> set (fw_records w). off \<le> rec_offset r \<and> 0 \<le> rec_offset r
            \<and> rec_offset r < int (length H) \<and> data_from_record r = H ! nat (rec_offset r))
         \<and> sorted_wrt (<) (map rec_offset (fw_records w))"
proof -
  have wf: "log_wf l" using assms(1) by (simp add: represents_def)
  have ch: "chain (start_offset l) (pl_batches l) (pl_next_offset l)"
    using wf by (simp add: log_wf_def)
  have rd: "off \<le> rec_offset r \<and> r \<in> set (all_records (pl_batches l))" if "r \<in> set (fw_records w)" for r
    using fetched_readable [OF wf assms(2) that] readable_retained by (auto simp: set_readable)
  obtain k where "fw_records w = take k (readable (pl_batches l) off rc)"
    using fetch_inner_is_window [OF wf] assms(2) by (metis fetch_with_isolation_def windowE)
  then have "sorted_wrt (<) (map rec_offset (fw_records w))"
    using chain_sorted_readable [OF ch, of off rc] by (metis sorted_wrt_take take_map)
  then show ?thesis
    using rd represents_record [OF assms(1)] by blast
qed

text \<open>
  Whatever a fetch returns, under either isolation level, is what was written. Every
  record of the window has an offset at or after the requested one and below the high
  watermark, and its timestamp, key and value are those of the record accepted at that
  position of the history; the offsets are strictly increasing.
\<close>

lemma fetch_returns_history:
  assumes "represents H l" and "fetch_with_isolation l off n m rc = Inr w"
  shows "(\<forall>r \<in> set (fw_records w). off \<le> rec_offset r \<and> 0 \<le> rec_offset r
            \<and> rec_offset r < int (length H) \<and> data_from_record r = H ! nat (rec_offset r))
         \<and> sorted_wrt (<) (map rec_offset (fw_records w))"
  by (rule fetched_history [OF assms])

lemma fetch_returns_history_example:
  "\<exists>w. fetch_with_isolation
         (log_run [OpAppendData [sample_data 97], OpAppendTransactional [sample_data 98] 7,
                   OpAppendData [sample_data 99]] log_new) 0 10 4096 True = Inr w
       \<and> fw_records w = [sample_record 0 97, sample_record 2 99]
       \<and> (\<forall>r \<in> set (fw_records w).
             data_from_record r = [sample_data 97, sample_data 98, sample_data 99] ! nat (rec_offset r))"
proof -
  let ?ops = "[OpAppendData [sample_data 97], OpAppendTransactional [sample_data 98] 7,
    OpAppendData [sample_data 99]]"
  have h: "hist_run ?ops [] = [sample_data 97, sample_data 98, sample_data 99]"
    by (simp add: hist_run_def accepted_def MAX_APPEND_RECORDS_def)
  have rep: "represents [sample_data 97, sample_data 98, sample_data 99] (log_run ?ops log_new)"
    using log_run_represents [of "[]" log_new ?ops] represents_empty unfolding h
    by (simp add: max_signed_def)
  have f: "fetch_with_isolation (log_run ?ops log_new) 0 10 4096 True
      = Inr \<lparr>fw_high_watermark = 3, fw_last_stable_offset = 1,
             fw_records = [sample_record 0 97, sample_record 2 99]\<rparr>"
    by (simp add: log_eval fetch_eval)
  show ?thesis
    using fetch_returns_history [OF rep f] unfolding f by simp
qed

text \<open>
  C17: read-committed isolation. A read-committed fetch returns no record of a pending or
  aborted batch, and the last stable offset it reports is at most the high watermark, at or
  below the base offset of every batch still pending, and equal to one of the two.
\<close>

theorem read_committed_isolation:
  assumes "log_wf l" and "fetch_with_isolation l off n m True = Inr w"
  shows "(\<forall>r \<in> set (fw_records w). \<exists>b \<in> set (pl_batches l).
            r \<in> set (sb_records b) \<and> (sb_transaction b = None \<or> sb_state b = Committed))
       \<and> fw_last_stable_offset w \<le> fw_high_watermark w
       \<and> (\<forall>b \<in> set (pl_batches l). sb_state b = Pending \<longrightarrow> fw_last_stable_offset w \<le> sb_base_offset b)
       \<and> (fw_last_stable_offset w = fw_high_watermark w
           \<or> (\<exists>b \<in> set (pl_batches l). sb_state b = Pending
                \<and> sb_base_offset b = fw_last_stable_offset w))"
proof -
  have w: "fw_last_stable_offset w = last_stable_offset l" "fw_high_watermark w = pl_next_offset l"
    using assms(2) by (auto simp: fetch_with_isolation_def fetch_inner_def Let_def split: if_splits)
  have "\<exists>b \<in> set (pl_batches l). r \<in> set (sb_records b) \<and> (sb_transaction b = None \<or> sb_state b = Committed)"
    if "r \<in> set (fw_records w)" for r
    using fetched_readable [OF assms that] by (auto simp: set_readable hidden_def)
  then show ?thesis
    unfolding w using last_stable_offset_spec [OF assms(1)] by blast
qed

theorem read_committed_isolation_witness:
  "\<exists>w. fetch_with_isolation
         (log_run [OpAppendData [sample_data 97], OpAppendTransactional [sample_data 98] 7] log_new)
         0 10 4096 True = Inr w
       \<and> fw_records w = [sample_record 0 97] \<and> fw_last_stable_offset w = 1
       \<and> fw_last_stable_offset w \<le> fw_high_watermark w"
proof -
  let ?ops = "[OpAppendData [sample_data 97], OpAppendTransactional [sample_data 98] 7]"
  let ?l = "log_run ?ops log_new"
  have wf: "log_wf ?l"
    using log_run_represents [of "[]" log_new ?ops] represents_empty
    by (simp add: represents_def hist_run_def accepted_def max_signed_def MAX_APPEND_RECORDS_def)
  have f: "fetch_with_isolation ?l 0 10 4096 True
      = Inr \<lparr>fw_high_watermark = 2, fw_last_stable_offset = 1, fw_records = [sample_record 0 97]\<rparr>"
    by (simp add: log_eval fetch_eval)
  show ?thesis
    using read_committed_isolation [OF wf f] unfolding f by simp
qed

text \<open>
  C29: the exact effect of resolving a transaction. Afterwards a read-committed reader sees
  every retained record of the producer's batches if the outcome was commit and none of
  them if it was abort, and for all other batches what it saw before; offsets, records and
  well-formedness are untouched.
\<close>

theorem commit_transaction_visibility:
  assumes "log_wf l"
  shows "log_wf (commit_transaction l p c)
    \<and> high_watermark (commit_transaction l p c) = high_watermark l
    \<and> all_records (pl_batches (commit_transaction l p c)) = all_records (pl_batches l)
    \<and> set (readable (pl_batches (commit_transaction l p c)) off True) =
        {r. off \<le> rec_offset r \<and> (\<exists>b \<in> set (pl_batches l). r \<in> set (sb_records b)
              \<and> (if sb_transaction b = Some p then c
                  else sb_transaction b = None \<or> sb_state b = Committed))}"
proof -
  have "r \<in> set (readable (pl_batches (commit_transaction l p c)) off True) \<longleftrightarrow>
      off \<le> rec_offset r \<and> (\<exists>b \<in> set (pl_batches l). r \<in> set (sb_records b)
        \<and> (if sb_transaction b = Some p then c else sb_transaction b = None \<or> sb_state b = Committed))" for r
    by (cases c) (auto simp: set_readable commit_transaction_def hidden_def bex_Un split: if_splits)
  then show ?thesis
    using commit_transaction_wf [OF assms] by (simp only: set_eq_iff mem_Collect_eq) (simp add: high_watermark_def)
qed

theorem commit_transaction_visibility_witness:
  "set (readable (pl_batches (commit_transaction
       (log_run [OpAppendData [sample_data 97], OpAppendTransactional [sample_data 98] 7] log_new) 7 True)) 1 True)
     = {sample_record 1 98}"
proof -
  let ?l = "log_run [OpAppendData [sample_data 97], OpAppendTransactional [sample_data 98] 7] log_new"
  have wf: "log_wf ?l"
    using log_run_represents [of "[]" log_new "[OpAppendData [sample_data 97], OpAppendTransactional [sample_data 98] 7]"]
      represents_empty
    by (simp add: represents_def hist_run_def accepted_def max_signed_def MAX_APPEND_RECORDS_def)
  have b: "pl_batches ?l =
      [\<lparr>sb_base_offset = 0, sb_records = [sample_record 0 97], sb_transaction = None, sb_state = Committed\<rparr>,
       \<lparr>sb_base_offset = 1, sb_records = [sample_record 1 98], sb_transaction = Some 7, sb_state = Pending\<rparr>]"
    by (simp add: log_eval)
  show ?thesis
    unfolding commit_transaction_visibility [OF wf, of 7 True 1, THEN conjunct2, THEN conjunct2, THEN conjunct2] b
    by (auto simp: sample_record_def)
qed

text \<open>
  Two consequences of the code that its comments do not suggest. Resolution is by producer
  identifier alone, so the last resolution of a producer overrides all earlier ones, on
  every batch the log still holds for it: aborting a second transaction hides the records of
  a first one that was committed. And a read-committed fetch is not cut at the last stable
  offset, which it reports.
\<close>

lemma commit_transaction_overrides:
  "commit_transaction (commit_transaction l p c) p c' = commit_transaction l p c'"
  by (simp add: commit_transaction_def comp_def cong: if_cong)

lemma later_abort_hides_committed:
  "fetch_with_isolation
     (log_run [OpAppendTransactional [sample_data 97] 1, OpCommitTransaction 1 True,
               OpAppendTransactional [sample_data 98] 1, OpCommitTransaction 1 False] log_new) 0 10 4096 True
   = Inr \<lparr>fw_high_watermark = 2, fw_last_stable_offset = 2, fw_records = []\<rparr>"
  by (simp add: log_eval fetch_eval)

lemma read_committed_beyond_stable_offset:
  "fetch_with_isolation
     (log_run [OpAppendTransactional [sample_data 97] 1, OpAppendData [sample_data 98]] log_new) 0 10 4096 True
   = Inr \<lparr>fw_high_watermark = 2, fw_last_stable_offset = 0, fw_records = [sample_record 1 98]\<rparr>"
  by (simp add: log_eval fetch_eval)

end
