(* ===== verification/Topic_Catalog.thy ===== *)
theory Topic_Catalog
  imports Broker_Prelude Partition_Log
begin

text \<open>
  The topic catalog of \<^verbatim>\<open>crates/broker-core/src/topic.rs\<close>: an ordered map from topic names to
  partition counts, what creating a topic does to it, and the routing check every data
  request goes through. \<open>catalog_wf\<close> is the catalog's invariant; \<open>catalog_reach\<close> are the
  catalogs a sequence of successful creations can build.
\<close>

section \<open>The catalog\<close>

record TopicMetadata =
  tm_name :: bytes
  tm_partitions :: int

record TopicCatalog =
  tc_topics :: "(bytes, int) btree_map"

definition catalog_new :: TopicCatalog where
  "catalog_new = \<lparr>tc_topics = []\<rparr>"

definition catalog_create :: "TopicCatalog \<Rightarrow> bytes \<Rightarrow> int \<Rightarrow> LogError + TopicCatalog" where
  "catalog_create c name partitions =
     (if name = [] \<or> partitions \<le> 0 then Inl InvalidTopic
      else if bt_get (tc_topics c) name \<noteq> None then Inl DuplicateTopic
      else Inr (c\<lparr>tc_topics := bt_insert name partitions (tc_topics c)\<rparr>))"

definition partition_count :: "TopicCatalog \<Rightarrow> bytes \<Rightarrow> int option" where
  "partition_count c name = bt_get (tc_topics c) name"

definition catalog_contains :: "TopicCatalog \<Rightarrow> bytes \<Rightarrow> bool" where
  "catalog_contains c name \<longleftrightarrow> bt_get (tc_topics c) name \<noteq> None"

definition catalog_len :: "TopicCatalog \<Rightarrow> nat" where
  "catalog_len c = length (tc_topics c)"

definition catalog_is_empty :: "TopicCatalog \<Rightarrow> bool" where
  "catalog_is_empty c \<longleftrightarrow> tc_topics c = []"

definition check_partition :: "TopicCatalog \<Rightarrow> bytes \<Rightarrow> int \<Rightarrow> LogError + unit" where
  "check_partition c topic prt =
     (case partition_count c topic of
        None \<Rightarrow> Inl UnknownTopic
      | Some count \<Rightarrow>
          if prt < 0 \<or> prt \<ge> count then Inl UnknownPartition else Inr ())"

definition catalog_metadata :: "TopicCatalog \<Rightarrow> TopicMetadata list" where
  "catalog_metadata c =
     map (\<lambda>(name, partitions). \<lparr>tm_name = name, tm_partitions = partitions\<rparr>) (tc_topics c)"

section \<open>Invariant\<close>

definition catalog_wf :: "TopicCatalog \<Rightarrow> bool" where
  "catalog_wf c \<longleftrightarrow> bt_wf (tc_topics c)
     \<and> bt_all (\<lambda>name count. name \<noteq> [] \<and> 0 < count) (tc_topics c)"

inductive catalog_reach :: "TopicCatalog \<Rightarrow> bool" where
  reach_new: "catalog_reach catalog_new"
| reach_create: "catalog_reach c \<Longrightarrow> catalog_create c name partitions = Inr c' \<Longrightarrow> catalog_reach c'"

lemma catalog_wf_new [simp, intro]: "catalog_wf catalog_new"
  by (simp add: catalog_wf_def catalog_new_def)

lemma catalog_create_cases:
  assumes "catalog_create c name partitions = Inr c'"
  shows "name \<noteq> [] \<and> 0 < partitions \<and> partition_count c name = None
       \<and> c' = c\<lparr>tc_topics := bt_insert name partitions (tc_topics c)\<rparr>"
  using assms by (auto simp: catalog_create_def partition_count_def split: if_splits)

lemma catalog_wf_create:
  "catalog_wf c \<Longrightarrow> catalog_create c name partitions = Inr c' \<Longrightarrow> catalog_wf c'"
  using catalog_create_cases [of c name partitions c'] by (auto simp: catalog_wf_def)

lemma catalog_reach_wf: "catalog_reach c \<Longrightarrow> catalog_wf c"
  by (induction rule: catalog_reach.induct) (auto intro: catalog_wf_create)

lemma partition_count_create:
  assumes "catalog_create c name partitions = Inr c'"
  shows "partition_count c' topic = (if topic = name then Some partitions else partition_count c topic)"
  using catalog_create_cases [OF assms] by (simp add: partition_count_def)

lemma check_partition_iff:
  "check_partition c topic prt = Inr () \<longleftrightarrow>
     (\<exists>count. partition_count c topic = Some count \<and> 0 \<le> prt \<and> prt < count)"
  by (auto simp: check_partition_def split: option.splits)

lemma check_partition_cases:
  "check_partition c topic prt =
     (if \<exists>count. partition_count c topic = Some count \<and> 0 \<le> prt \<and> prt < count then Inr ()
      else if catalog_contains c topic then Inl UnknownPartition else Inl UnknownTopic)"
  by (auto simp: check_partition_def catalog_contains_def partition_count_def split: option.splits)

lemma length_bt_insert:
  "bt_get m k = None \<Longrightarrow> length (bt_insert k v m) = Suc (length m)"
  by (induction m) (auto split: if_splits)

text \<open>
  The listing of the catalog: each topic of a reachable catalog exactly once, strictly ordered by
  name, with the partition count routing uses.
\<close>

lemma metadata_complete:
  assumes "catalog_reach c"
  shows "sorted_wrt (<) (map tm_name (catalog_metadata c))
    \<and> (\<forall>name n. partition_count c name = Some n \<longleftrightarrow>
          \<lparr>tm_name = name, tm_partitions = n\<rparr> \<in> set (catalog_metadata c))
    \<and> (\<forall>m \<in> set (catalog_metadata c). tm_name m \<noteq> [] \<and> check_partition c (tm_name m) 0 = Inr ())
    \<and> length (catalog_metadata c) = catalog_len c"
proof -
  have wf: "bt_wf (tc_topics c)" and pos: "bt_all (\<lambda>name count. name \<noteq> [] \<and> 0 < count) (tc_topics c)"
    using catalog_reach_wf [OF assms] by (auto simp: catalog_wf_def)
  have names: "map tm_name (catalog_metadata c) = bt_keys (tc_topics c)"
    by (auto simp: catalog_metadata_def bt_keys_def comp_def split: prod.splits)
  have mem: "\<lparr>tm_name = name, tm_partitions = n\<rparr> \<in> set (catalog_metadata c) \<longleftrightarrow>
      partition_count c name = Some n" for name n
    by (force simp: catalog_metadata_def partition_count_def bt_get_wf_iff [OF wf])
  have "tm_name m \<noteq> [] \<and> check_partition c (tm_name m) 0 = Inr ()" if "m \<in> set (catalog_metadata c)" for m
  proof -
    obtain name n where m: "m = \<lparr>tm_name = name, tm_partitions = n\<rparr>"
      by (cases m)
    have g: "bt_get (tc_topics c) (tm_name m) = Some (tm_partitions m)"
      using that mem [of name n] by (simp add: m partition_count_def)
    show ?thesis
      using bt_all_get [OF pos g] g by (simp add: check_partition_def partition_count_def)
  qed
  moreover have "length (catalog_metadata c) = catalog_len c"
    by (simp add: catalog_metadata_def catalog_len_def)
  ultimately show ?thesis
    using wf mem unfolding names bt_wf_def by blast
qed

section \<open>Properties\<close>

text \<open>
  C36: creating a topic. A creation succeeds exactly for a non-empty, new name with a positive
  partition count; then routing accepts precisely the partitions 0 to count - 1 of the
  new topic, answers for every other topic as before, and the catalog has one entry
  more. A rejected creation names the reason.
\<close>

theorem create_routes_exactly:
  assumes "catalog_reach c"
  shows "case catalog_create c name partitions of
      Inl e \<Rightarrow> (e = InvalidTopic \<and> (name = [] \<or> partitions \<le> 0))
            \<or> (e = DuplicateTopic \<and> name \<noteq> [] \<and> 0 < partitions \<and> catalog_contains c name)
    | Inr c' \<Rightarrow> name \<noteq> [] \<and> 0 < partitions \<and> \<not> catalog_contains c name
        \<and> (\<forall>p. check_partition c' name p = (if 0 \<le> p \<and> p < partitions then Inr () else Inl UnknownPartition))
        \<and> (\<forall>t p. t \<noteq> name \<longrightarrow> check_partition c' t p = check_partition c t p)
        \<and> catalog_len c' = catalog_len c + 1 \<and> \<not> catalog_is_empty c'"
proof (cases "catalog_create c name partitions")
  case (Inl e)
  then show ?thesis
    by (auto simp: catalog_create_def catalog_contains_def split: if_splits)
next
  case (Inr c')
  note c = catalog_create_cases [OF Inr] and pc = partition_count_create [OF Inr]
  have "catalog_len c' = catalog_len c + 1"
    using c length_bt_insert [of "tc_topics c" name partitions] by (simp add: catalog_len_def partition_count_def)
  moreover from this have "\<not> catalog_is_empty c'"
    by (auto simp: catalog_len_def catalog_is_empty_def)
  ultimately show ?thesis
    using c Inr by (auto simp: pc check_partition_def catalog_contains_def partition_count_def)
qed

theorem create_routes_exactly_witness:
  "\<exists>c'. catalog_create catalog_new [111, 107] 3 = Inr c'
     \<and> check_partition c' [111, 107] 2 = Inr () \<and> check_partition c' [111, 107] 3 = Inl UnknownPartition
     \<and> check_partition c' [111] 0 = Inl UnknownTopic"
  using create_routes_exactly [OF reach_new, of "[111, 107]" 3]
  by (simp add: catalog_create_def catalog_new_def check_partition_def partition_count_def)

end
