(* ===== verification/Transaction_Coordinator.thy ===== *)
theory Transaction_Coordinator
  imports Broker_Prelude
begin

text \<open>
  The transaction coordinator of \<^verbatim>\<open>crates/broker-core/src/coordination.rs\<close>: producer
  identities with epochs, the transaction each transactional identifier has open, and the
  work that ending it releases.

  The operations that act for a producer share one contract, the locale \<open>producer_op\<close>: they
  succeed only for the current identity and touch nothing but the contents of that producer's
  transaction. Fencing and framing are proved once in it. \<open>txn_step\<close> is the
  single-writer interleaving of accepted operations; \<open>txn_trace\<close> relates a coordinator to
  the accepted operations that led to it.
\<close>

section \<open>State and operations\<close>

record ProducerIdentity =
  pi_id :: int
  pi_epoch :: int

datatype TransactionState = Empty | Ongoing | PrepareCommit | PrepareAbort

record TransactionOffset =
  to_group_id :: bytes
  to_generation :: int
  to_topic :: bytes
  to_partition :: int
  to_offset :: int

record Transaction =
  tx_identity :: ProducerIdentity
  tx_state :: TransactionState
  tx_partitions :: "(bytes \<times> int) btree_set"
  tx_offsets :: "TransactionOffset list"

record TransactionCompletion =
  co_partitions :: "(bytes \<times> int) list"
  co_offsets :: "TransactionOffset list"

datatype CoordinationError =
    InvalidId | UnknownTransaction | ProducerFenced | InvalidTransactionState
  | UnknownGroup | UnknownMember | IllegalGeneration

record TransactionCoordinator =
  tr_next_id :: int
  tr_transactions :: "(bytes, Transaction) btree_map"

definition txn_new :: TransactionCoordinator where
  "txn_new = \<lparr>tr_next_id = 1, tr_transactions = []\<rparr>"

definition txn_init ::
  "TransactionCoordinator \<Rightarrow> bytes \<Rightarrow> CoordinationError + ProducerIdentity \<times> TransactionCoordinator" where
  "txn_init c transactional_id =
     (if transactional_id = [] then Inl InvalidId
      else
        let (identity, next_id) =
              (case bt_get (tr_transactions c) transactional_id of
                 Some previous \<Rightarrow>
                   (\<lparr>pi_id = pi_id (tx_identity previous),
                     pi_epoch = sat_add 16 (pi_epoch (tx_identity previous)) 1\<rparr>,
                    tr_next_id c)
               | None \<Rightarrow> (\<lparr>pi_id = tr_next_id c, pi_epoch = 0\<rparr>, sat_add 64 (tr_next_id c) 1))
        in Inr (identity,
                \<lparr>tr_next_id = next_id,
                 tr_transactions =
                   bt_insert transactional_id
                     \<lparr>tx_identity = identity, tx_state = Empty, tx_partitions = [], tx_offsets = []\<rparr>
                     (tr_transactions c)\<rparr>))"

text \<open>The guard of every producer operation: the transaction a mutable reference would point to.\<close>

definition transaction_mut ::
  "TransactionCoordinator \<Rightarrow> bytes \<Rightarrow> ProducerIdentity \<Rightarrow> CoordinationError + Transaction" where
  "transaction_mut c transactional_id identity =
     (case bt_get (tr_transactions c) transactional_id of
        None \<Rightarrow> Inl UnknownTransaction
      | Some transaction \<Rightarrow>
          if tx_identity transaction \<noteq> identity then Inl ProducerFenced else Inr transaction)"

text \<open>Writing through that reference.\<close>

definition put_transaction ::
  "TransactionCoordinator \<Rightarrow> bytes \<Rightarrow> Transaction \<Rightarrow> TransactionCoordinator" where
  "put_transaction c transactional_id transaction =
     c\<lparr>tr_transactions := bt_insert transactional_id transaction (tr_transactions c)\<rparr>"

definition add_partition ::
  "TransactionCoordinator \<Rightarrow> bytes \<Rightarrow> ProducerIdentity \<Rightarrow> bytes \<Rightarrow> int
     \<Rightarrow> CoordinationError + unit \<times> TransactionCoordinator" where
  "add_partition c transactional_id identity topic prt =
     (if topic = [] \<or> prt < 0 then Inl InvalidId
      else case transaction_mut c transactional_id identity of
        Inl e \<Rightarrow> Inl e
      | Inr transaction \<Rightarrow>
          if tx_state transaction \<in> {PrepareCommit, PrepareAbort} then Inl InvalidTransactionState
          else Inr ((), put_transaction c transactional_id
                 (transaction\<lparr>tx_state := Ongoing,
                    tx_partitions := bs_insert (topic, prt) (tx_partitions transaction)\<rparr>)))"

definition validate_produce ::
  "TransactionCoordinator \<Rightarrow> bytes \<Rightarrow> ProducerIdentity \<Rightarrow> bytes \<Rightarrow> int
     \<Rightarrow> CoordinationError + unit \<times> TransactionCoordinator" where
  "validate_produce c transactional_id identity topic prt =
     (case transaction_mut c transactional_id identity of
        Inl e \<Rightarrow> Inl e
      | Inr transaction \<Rightarrow>
          if tx_state transaction \<noteq> Ongoing \<or> (topic, prt) \<notin> set (tx_partitions transaction)
          then Inl InvalidTransactionState else Inr ((), c))"

definition add_offset ::
  "TransactionCoordinator \<Rightarrow> bytes \<Rightarrow> ProducerIdentity \<Rightarrow> TransactionOffset
     \<Rightarrow> CoordinationError + unit \<times> TransactionCoordinator" where
  "add_offset c transactional_id identity off =
     (if to_group_id off = [] \<or> to_topic off = [] \<or> to_generation off < 0
         \<or> to_partition off < 0 \<or> to_offset off < 0
      then Inl InvalidId
      else case transaction_mut c transactional_id identity of
        Inl e \<Rightarrow> Inl e
      | Inr transaction \<Rightarrow>
          if tx_state transaction \<noteq> Ongoing then Inl InvalidTransactionState
          else Inr ((), put_transaction c transactional_id
                 (transaction\<lparr>tx_offsets := tx_offsets transaction @ [off]\<rparr>)))"

definition txn_end ::
  "TransactionCoordinator \<Rightarrow> bytes \<Rightarrow> ProducerIdentity \<Rightarrow> bool
     \<Rightarrow> CoordinationError + TransactionCompletion \<times> TransactionCoordinator" where
  "txn_end c transactional_id identity commit =
     (case transaction_mut c transactional_id identity of
        Inl e \<Rightarrow> Inl e
      | Inr transaction \<Rightarrow>
          if tx_state transaction \<noteq> Ongoing then Inl InvalidTransactionState
          else
            let transaction = transaction\<lparr>tx_state := (if commit then PrepareCommit else PrepareAbort)\<rparr>;
                completion = \<lparr>co_partitions = tx_partitions transaction, co_offsets = tx_offsets transaction\<rparr>;
                transaction = transaction\<lparr>tx_partitions := [], tx_offsets := [], tx_state := Empty\<rparr>
            in Inr (completion, put_transaction c transactional_id transaction))"

section \<open>The contract of producer operations\<close>

abbreviation lookup_txn :: "TransactionCoordinator \<Rightarrow> bytes \<Rightarrow> Transaction option" where
  "lookup_txn c tid \<equiv> bt_get (tr_transactions c) tid"

definition current_identity :: "TransactionCoordinator \<Rightarrow> bytes \<Rightarrow> ProducerIdentity option" where
  "current_identity c tid = map_option tx_identity (lookup_txn c tid)"

lemma put_transaction_simps [simp]:
  "lookup_txn (put_transaction c tid t) tid' = (if tid' = tid then Some t else lookup_txn c tid')"
  "tr_next_id (put_transaction c tid t) = tr_next_id c"
  by (simp_all add: put_transaction_def)

lemma transaction_mut_Inr [simp]:
  "transaction_mut c tid i = Inr t \<longleftrightarrow> lookup_txn c tid = Some t \<and> tx_identity t = i"
  by (auto simp: transaction_mut_def split: option.splits)

lemma transaction_mut_Inl:
  "transaction_mut c tid i = Inl e \<longleftrightarrow>
     (lookup_txn c tid = None \<and> e = UnknownTransaction)
   \<or> (\<exists>t. lookup_txn c tid = Some t \<and> tx_identity t \<noteq> i \<and> e = ProducerFenced)"
  by (auto simp: transaction_mut_def split: option.splits)

text \<open>
  \<open>run c i\<close> is the operation on behalf of identity \<open>i\<close>. If it succeeds, \<open>i\<close> is the identity
  on record for the transactional identifier, and the new coordinator differs at most in that
  entry, whose identity stays.
\<close>

locale producer_op =
  fixes run :: "TransactionCoordinator \<Rightarrow> ProducerIdentity \<Rightarrow> CoordinationError + 'r \<times> TransactionCoordinator"
    and tid :: bytes
  assumes run_current: "run c i = Inr (r, c') \<Longrightarrow> current_identity c tid = Some i"
    and run_identity: "run c i = Inr (r, c') \<Longrightarrow> current_identity c' tid = Some i"
    and run_frame: "run c i = Inr (r, c') \<Longrightarrow> tid' \<noteq> tid \<Longrightarrow> lookup_txn c' tid' = lookup_txn c tid'"
    and run_next_id: "run c i = Inr (r, c') \<Longrightarrow> tr_next_id c' = tr_next_id c"
begin

lemma op_fenced:
  assumes "current_identity c tid = Some j" and "i \<noteq> j"
  shows "\<exists>e. run c i = Inl e"
  using assms run_current by (cases "run c i") fastforce+

lemma op_keeps_identities:
  assumes "run c i = Inr (r, c')"
  shows "current_identity c' = current_identity c"
proof
  fix t
  show "current_identity c' t = current_identity c t"
    using run_current [OF assms] run_identity [OF assms] run_frame [OF assms, of t]
    by (cases "t = tid") (auto simp: current_identity_def)
qed

end

interpretation addp: producer_op "\<lambda>c i. add_partition c tid i topic prt" tid for tid topic prt
  by unfold_locales
    (auto simp: add_partition_def current_identity_def split: if_splits sum.splits)

interpretation valp: producer_op "\<lambda>c i. validate_produce c tid i topic prt" tid for tid topic prt
  by unfold_locales
    (auto simp: validate_produce_def current_identity_def split: if_splits sum.splits)

interpretation addo: producer_op "\<lambda>c i. add_offset c tid i off" tid for tid off
  by unfold_locales
    (auto simp: add_offset_def current_identity_def split: if_splits sum.splits)

interpretation endt: producer_op "\<lambda>c i. txn_end c tid i commit" tid for tid commit
  by unfold_locales
    (auto simp: txn_end_def current_identity_def Let_def split: if_splits sum.splits)

section \<open>Invariant and interleavings\<close>

datatype TxnOp =
    OpInit bytes
  | OpAddPartition bytes ProducerIdentity bytes int
  | OpValidate bytes ProducerIdentity bytes int
  | OpAddOffset bytes ProducerIdentity TransactionOffset
  | OpEnd bytes ProducerIdentity bool

text \<open>One accepted operation. A rejected one returns an error and leaves the coordinator as it is.\<close>

inductive txn_step :: "TransactionCoordinator \<Rightarrow> TxnOp \<Rightarrow> TransactionCoordinator \<Rightarrow> bool" where
  step_init: "txn_init c tid = Inr (i, c') \<Longrightarrow> txn_step c (OpInit tid) c'"
| step_add_partition: "add_partition c tid i topic prt = Inr (u, c') \<Longrightarrow>
    txn_step c (OpAddPartition tid i topic prt) c'"
| step_validate: "validate_produce c tid i topic prt = Inr (u, c') \<Longrightarrow>
    txn_step c (OpValidate tid i topic prt) c'"
| step_add_offset: "add_offset c tid i off = Inr (u, c') \<Longrightarrow> txn_step c (OpAddOffset tid i off) c'"
| step_end: "txn_end c tid i commit = Inr (done, c') \<Longrightarrow> txn_step c (OpEnd tid i commit) c'"

inductive_cases txn_stepE:
  "txn_step c (OpInit tid) c'"
  "txn_step c (OpAddPartition tid i topic prt) c'"
  "txn_step c (OpValidate tid i topic prt) c'"
  "txn_step c (OpAddOffset tid i off) c'"
  "txn_step c (OpEnd tid i commit) c'"

inductive txn_trace :: "TransactionCoordinator \<Rightarrow> TxnOp list \<Rightarrow> TransactionCoordinator \<Rightarrow> bool" where
  trace_nil: "txn_trace c [] c"
| trace_snoc: "txn_trace c ops d \<Longrightarrow> txn_step d op e \<Longrightarrow> txn_trace c (ops @ [op]) e"

definition offset_ok :: "TransactionOffset \<Rightarrow> bool" where
  "offset_ok off \<longleftrightarrow> to_group_id off \<noteq> [] \<and> to_topic off \<noteq> [] \<and> 0 \<le> to_generation off
     \<and> 0 \<le> to_partition off \<and> 0 \<le> to_offset off"

definition txn_ok :: "int \<Rightarrow> bytes \<Rightarrow> Transaction \<Rightarrow> bool" where
  "txn_ok next_id tid t \<longleftrightarrow>
     tid \<noteq> [] \<and> 1 \<le> pi_id (tx_identity t) \<and> pi_id (tx_identity t) \<le> next_id
   \<and> (next_id < max_signed 64 \<longrightarrow> pi_id (tx_identity t) < next_id)
   \<and> 0 \<le> pi_epoch (tx_identity t) \<and> in_i16 (pi_epoch (tx_identity t))
   \<and> (tx_state t = Empty \<and> tx_partitions t = [] \<and> tx_offsets t = []
       \<or> tx_state t = Ongoing \<and> tx_partitions t \<noteq> [])
   \<and> sorted_wrt (<) (tx_partitions t)
   \<and> (\<forall>(topic, prt) \<in> set (tx_partitions t). topic \<noteq> [] \<and> 0 \<le> prt)
   \<and> (\<forall>off \<in> set (tx_offsets t). offset_ok off)"

definition txn_wf :: "TransactionCoordinator \<Rightarrow> bool" where
  "txn_wf c \<longleftrightarrow> 1 \<le> tr_next_id c \<and> in_i64 (tr_next_id c)
     \<and> bt_wf (tr_transactions c) \<and> bt_all (txn_ok (tr_next_id c)) (tr_transactions c)"

lemma txn_wf_new [simp, intro]: "txn_wf txn_new"
  by (simp add: txn_wf_def txn_new_def in_signed_def)

lemma txn_wf_lookup: "txn_wf c \<Longrightarrow> lookup_txn c tid = Some t \<Longrightarrow> txn_ok (tr_next_id c) tid t"
  by (auto simp: txn_wf_def dest: bt_all_get)

lemma txn_wf_put [intro]:
  "txn_wf c \<Longrightarrow> txn_ok (tr_next_id c) tid t \<Longrightarrow> txn_wf (put_transaction c tid t)"
  by (auto simp: txn_wf_def put_transaction_def)

lemma bs_insert_nonempty [simp]: "bs_insert x s \<noteq> []"
  using set_bs_insert [of x s] by (metis empty_iff empty_set insertI1)

lemma txn_wf_add_partition:
  assumes "txn_wf c" and "add_partition c tid i topic prt = Inr (u, c')"
  shows "txn_wf c'"
proof -
  obtain t where t: "lookup_txn c tid = Some t" and pre: "topic \<noteq> []" "0 \<le> prt"
    and c': "c' = put_transaction c tid (t\<lparr>tx_state := Ongoing, tx_partitions := bs_insert (topic, prt) (tx_partitions t)\<rparr>)"
    using assms(2) by (auto simp: add_partition_def split: if_splits sum.splits)
  show ?thesis
    unfolding c' using txn_wf_lookup [OF assms(1) t] assms(1) pre
    by (intro txn_wf_put) (auto simp: txn_ok_def)
qed

lemma txn_wf_add_offset:
  assumes "txn_wf c" and "add_offset c tid i off = Inr (u, c')"
  shows "txn_wf c'"
proof -
  obtain t where t: "lookup_txn c tid = Some t" and st: "tx_state t = Ongoing" and ok: "offset_ok off"
    and c': "c' = put_transaction c tid (t\<lparr>tx_offsets := tx_offsets t @ [off]\<rparr>)"
    using assms(2) by (auto simp: add_offset_def offset_ok_def split: if_splits sum.splits)
  show ?thesis
    unfolding c' using txn_wf_lookup [OF assms(1) t] assms(1) st ok
    by (intro txn_wf_put) (auto simp: txn_ok_def)
qed

lemma txn_end_cases:
  assumes "txn_end c tid i commit = Inr (done, c')"
  obtains t where "lookup_txn c tid = Some t" "tx_identity t = i" "tx_state t = Ongoing"
    "done = \<lparr>co_partitions = tx_partitions t, co_offsets = tx_offsets t\<rparr>"
    "c' = put_transaction c tid (t\<lparr>tx_partitions := [], tx_offsets := [], tx_state := Empty\<rparr>)"
  using assms by (auto simp: txn_end_def Let_def split: if_splits sum.splits)

lemma txn_wf_end:
  assumes "txn_wf c" and "txn_end c tid i commit = Inr (done, c')"
  shows "txn_wf c'"
  using assms(2)
proof (cases rule: txn_end_cases)
  case (1 t)
  then show ?thesis
    using txn_wf_lookup [OF assms(1), of tid t] assms(1) by (auto simp: txn_ok_def)
qed

lemma validate_same: "validate_produce c tid i topic prt = Inr (u, c') \<Longrightarrow> c' = c"
  by (auto simp: validate_produce_def split: if_splits sum.splits)

lemma txn_init_cases:
  assumes "txn_init c tid = Inr (i, c')"
  obtains (renew) t where "tid \<noteq> []" "lookup_txn c tid = Some t"
      "i = \<lparr>pi_id = pi_id (tx_identity t), pi_epoch = sat_add 16 (pi_epoch (tx_identity t)) 1\<rparr>"
      "c' = put_transaction c tid \<lparr>tx_identity = i, tx_state = Empty, tx_partitions = [], tx_offsets = []\<rparr>"
    | (fresh) "tid \<noteq> []" "lookup_txn c tid = None" "i = \<lparr>pi_id = tr_next_id c, pi_epoch = 0\<rparr>"
      "c' = put_transaction (c\<lparr>tr_next_id := sat_add 64 (tr_next_id c) 1\<rparr>) tid
              \<lparr>tx_identity = i, tx_state = Empty, tx_partitions = [], tx_offsets = []\<rparr>"
  using assms
  by (cases c) (auto simp: txn_init_def put_transaction_def Let_def split: if_splits option.splits)

lemma txn_wf_bump:
  assumes "txn_wf c"
  shows "txn_wf (c\<lparr>tr_next_id := sat_add 64 (tr_next_id c) 1\<rparr>)"
proof -
  let ?n = "sat_add 64 (tr_next_id c) 1"
  have n: "tr_next_id c \<le> ?n" "tr_next_id c < max_signed 64 \<Longrightarrow> tr_next_id c < ?n" "in_i64 ?n"
    using assms sat_add_mono [of 64 "tr_next_id c" 1] sat_add_one_strict [of 64 "tr_next_id c"]
    by (auto simp: txn_wf_def)
  have "txn_ok ?n tid t" if "txn_ok (tr_next_id c) tid t" for tid t
    using that n by (auto simp: txn_ok_def)
  then show ?thesis
    using assms n by (auto simp: txn_wf_def bt_all_def list_all_iff)
qed

lemma txn_wf_init:
  assumes "txn_wf c" and "txn_init c tid = Inr (i, c')"
  shows "txn_wf c'"
  using assms(2)
proof (cases rule: txn_init_cases)
  case (renew t)
  then show ?thesis
    using txn_wf_lookup [OF assms(1) renew(2)] assms(1) sat_add_mono [of 16 "pi_epoch (tx_identity t)" 1]
    by (auto simp: txn_ok_def)
next
  case fresh
  have n: "1 \<le> tr_next_id c" "in_i64 (tr_next_id c)" using assms(1) by (auto simp: txn_wf_def)
  then have "tr_next_id c \<le> sat_add 64 (tr_next_id c) 1"
    "sat_add 64 (tr_next_id c) 1 < max_signed 64 \<Longrightarrow> tr_next_id c < sat_add 64 (tr_next_id c) 1"
    by (auto simp: sat_add_def saturate_def in_signed_def min_signed_def max_signed_def)
  then show ?thesis
    using txn_wf_bump [OF assms(1)] fresh n by (auto simp: txn_ok_def in_signed_def)
qed

lemma txn_wf_step: "txn_step c op c' \<Longrightarrow> txn_wf c \<Longrightarrow> txn_wf c'"
  by (induction rule: txn_step.induct)
    (auto intro: txn_wf_init txn_wf_add_partition txn_wf_add_offset txn_wf_end dest: validate_same)

lemma txn_wf_trace: "txn_trace c ops c' \<Longrightarrow> txn_wf c \<Longrightarrow> txn_wf c'"
  by (induction rule: txn_trace.induct) (auto intro: txn_wf_step)

text \<open>Epochs never go back, whatever is accepted: only initialisation moves an identity at all.\<close>

lemma init_identity:
  assumes "txn_init c tid = Inr (i, c')"
  shows "current_identity c' = (current_identity c)(tid \<mapsto> i)"
  using assms
  by (cases rule: txn_init_cases) (auto simp: current_identity_def fun_eq_iff)

lemma step_identity:
  assumes "txn_step c op c'"
  shows "(\<forall>tid. op \<noteq> OpInit tid) \<Longrightarrow> current_identity c' = current_identity c"
    and "op = OpInit tid \<Longrightarrow> \<exists>i. txn_init c tid = Inr (i, c')"
  using assms
  by (auto elim!: txn_stepE txn_step.cases
      dest: addp.op_keeps_identities valp.op_keeps_identities addo.op_keeps_identities endt.op_keeps_identities)

lemma step_epoch_mono:
  assumes "txn_step c op c'" and "txn_wf c" and "current_identity c tid = Some i"
  shows "\<exists>j. current_identity c' tid = Some j \<and> pi_id j = pi_id i \<and> pi_epoch i \<le> pi_epoch j"
proof (cases "\<exists>t. op = OpInit t")
  case True
  then obtain t j where init: "txn_init c t = Inr (j, c')"
    using step_identity(2) [OF assms(1)] by blast
  show ?thesis
  proof (cases "t = tid")
    case True
    obtain x where x: "lookup_txn c tid = Some x" "tx_identity x = i"
      using assms(3) by (auto simp: current_identity_def)
    have "in_i16 (pi_epoch i)"
      using txn_wf_lookup [OF assms(2) x(1)] x(2) by (auto simp: txn_ok_def)
    with init show ?thesis
      using x sat_add_mono [of 16 "pi_epoch i" 1] init_identity [OF init] True
      by (cases rule: txn_init_cases) auto
  qed (use init_identity [OF init] assms(3) in auto)
next
  case False
  then show ?thesis using step_identity(1) [OF assms(1)] assms(3) by auto
qed

lemma trace_epoch_mono:
  assumes "txn_trace c ops c'" and "txn_wf c" and "current_identity c tid = Some i"
  shows "\<exists>j. current_identity c' tid = Some j \<and> pi_id j = pi_id i \<and> pi_epoch i \<le> pi_epoch j"
  using assms
proof (induction rule: txn_trace.induct)
  case (trace_snoc c ops d op e)
  then obtain j where j: "current_identity d tid = Some j" "pi_id j = pi_id i" "pi_epoch i \<le> pi_epoch j"
    by blast
  show ?case
    using step_epoch_mono [OF trace_snoc(2) txn_wf_trace [OF trace_snoc(1,4)] j(1)] j by fastforce
qed auto

text \<open>What a transactional identifier has enlisted, read off the accepted operations alone.\<close>

fun enlist_step :: "bytes \<Rightarrow> (bytes \<times> int) set \<times> TransactionOffset list \<Rightarrow> TxnOp
    \<Rightarrow> (bytes \<times> int) set \<times> TransactionOffset list" where
  "enlist_step tid (ps, offs) (OpInit t) = (if t = tid then ({}, []) else (ps, offs))"
| "enlist_step tid (ps, offs) (OpAddPartition t i topic prt) =
     (if t = tid then (insert (topic, prt) ps, offs) else (ps, offs))"
| "enlist_step tid (ps, offs) (OpValidate t i topic prt) = (ps, offs)"
| "enlist_step tid (ps, offs) (OpAddOffset t i off) = (if t = tid then (ps, offs @ [off]) else (ps, offs))"
| "enlist_step tid (ps, offs) (OpEnd t i commit) = (if t = tid then ({}, []) else (ps, offs))"

definition enlisted :: "bytes \<Rightarrow> TxnOp list \<Rightarrow> (bytes \<times> int) set \<times> TransactionOffset list" where
  "enlisted tid ops = foldl (enlist_step tid) ({}, []) ops"

lemma enlisted_snoc [simp]: "enlisted tid (ops @ [op]) = enlist_step tid (enlisted tid ops) op"
  by (simp add: enlisted_def)

definition recorded :: "TransactionCoordinator \<Rightarrow> bytes \<Rightarrow> (bytes \<times> int) set \<times> TransactionOffset list" where
  "recorded c tid =
     (case lookup_txn c tid of None \<Rightarrow> ({}, []) | Some t \<Rightarrow> (set (tx_partitions t), tx_offsets t))"

lemma recorded_put:
  "recorded (put_transaction c tid t) tid' =
     (if tid' = tid then (set (tx_partitions t), tx_offsets t) else recorded c tid')"
  by (simp add: recorded_def)

lemma recorded_bump [simp]: "recorded (c\<lparr>tr_next_id := n\<rparr>) tid = recorded c tid"
  by (simp add: recorded_def)

lemma step_recorded:
  assumes "txn_step c op c'"
  shows "recorded c' tid = enlist_step tid (recorded c tid) op"
  using assms
proof (cases rule: txn_step.cases)
  case (step_init t i)
  from step_init(2) show ?thesis
    by (cases rule: txn_init_cases)
      (auto simp: step_init(1) recorded_put intro: prod.exhaust [of "recorded c tid"])
next
  case (step_add_partition t i topic prt u)
  then show ?thesis
    by (auto simp: add_partition_def recorded_put recorded_def [of c] split: if_splits sum.splits option.splits)
next
  case (step_validate t i topic prt u)
  then show ?thesis
    by (cases "recorded c tid") (auto dest: validate_same)
next
  case (step_add_offset t i off u)
  then show ?thesis
    by (auto simp: add_offset_def recorded_put recorded_def [of c] split: if_splits sum.splits option.splits)
next
  case (step_end t i commit fin)
  from step_end(2) show ?thesis
    by (cases rule: txn_end_cases)
      (cases "recorded c tid", auto simp: step_end(1) recorded_put)
qed

lemma trace_recorded:
  assumes "txn_trace txn_new ops c"
  shows "recorded c tid = enlisted tid ops"
proof -
  have new: "recorded txn_new tid = enlisted tid []"
    by (simp add: recorded_def txn_new_def enlisted_def)
  have "txn_trace c0 ops c \<Longrightarrow> c0 = txn_new \<Longrightarrow> recorded c tid = enlisted tid ops" for c0
    by (induction rule: txn_trace.induct) (auto simp: step_recorded new)
  then show ?thesis using assms by blast
qed

lemma trace_recordedE:
  assumes "txn_trace txn_new ops c" and "lookup_txn c tid = Some t"
  shows "set (tx_partitions t) = fst (enlisted tid ops)" "tx_offsets t = snd (enlisted tid ops)"
    "tx_state t = Ongoing \<longleftrightarrow> fst (enlisted tid ops) \<noteq> {}" "sorted_wrt (<) (tx_partitions t)"
  using trace_recorded [OF assms(1), of tid, symmetric] assms(2)
    txn_wf_lookup [OF txn_wf_trace [OF assms(1) txn_wf_new] assms(2)]
  by (auto simp: recorded_def txn_ok_def)

text \<open>Producer ids are not reused as long as the counter has not reached its maximum.\<close>

definition ids_unique :: "TransactionCoordinator \<Rightarrow> bool" where
  "ids_unique c \<longleftrightarrow> (tr_next_id c < max_signed 64 \<longrightarrow>
     (\<forall>a b i j. current_identity c a = Some i \<longrightarrow> current_identity c b = Some j \<longrightarrow>
        pi_id i = pi_id j \<longrightarrow> a = b))"

lemma identity_below_next:
  assumes "txn_wf c" and "current_identity c tid = Some i"
  shows "pi_id i \<le> tr_next_id c" "tr_next_id c < max_signed 64 \<Longrightarrow> pi_id i < tr_next_id c"
  using assms txn_wf_lookup [OF assms(1), of tid] by (auto simp: current_identity_def txn_ok_def)

lemma ids_unique_init:
  assumes "txn_wf c" and "ids_unique c" and "txn_init c tid = Inr (i, c')"
  shows "ids_unique c'"
  using assms(3)
proof (cases rule: txn_init_cases)
  case (renew t)
  have "current_identity c tid = Some (tx_identity t)"
    using renew by (simp add: current_identity_def)
  moreover have "pi_id i = pi_id (tx_identity t)" "tr_next_id c' = tr_next_id c"
    using renew by simp_all
  ultimately show ?thesis
    using assms(2) unfolding ids_unique_def init_identity [OF assms(3)]
    by (fastforce split: if_splits)
next
  case fresh
  have lt: "tr_next_id c < max_signed 64" if "tr_next_id c' < max_signed 64"
    using that fresh(4) assms(1)
    by (auto simp: txn_wf_def sat_add_def saturate_def in_signed_def min_signed_def max_signed_def)
  have "pi_id j < tr_next_id c" if "tr_next_id c' < max_signed 64" "current_identity c b = Some j" for b j
    using identity_below_next(2) [OF assms(1) that(2) lt [OF that(1)]] .
  then show ?thesis
    using assms(2) lt fresh(3) by (fastforce simp: ids_unique_def init_identity [OF assms(3)] split: if_splits)
qed

lemma step_next_id:
  "txn_step c op c' \<Longrightarrow> (\<forall>tid. op \<noteq> OpInit tid) \<Longrightarrow> tr_next_id c' = tr_next_id c"
  by (auto elim!: txn_step.cases
      dest: addp.run_next_id valp.run_next_id addo.run_next_id endt.run_next_id)

lemma ids_unique_step:
  assumes "txn_step c op c'" and "txn_wf c" and "ids_unique c"
  shows "ids_unique c'"
proof (cases "\<exists>t. op = OpInit t")
  case True
  then show ?thesis using step_identity(2) [OF assms(1)] ids_unique_init [OF assms(2,3)] by blast
next
  case False
  then show ?thesis
    using step_identity(1) [OF assms(1)] step_next_id [OF assms(1)] assms(3) by (simp add: ids_unique_def)
qed

lemma ids_unique_trace: "txn_trace c ops c' \<Longrightarrow> txn_wf c \<Longrightarrow> ids_unique c \<Longrightarrow> ids_unique c'"
  by (induction rule: txn_trace.induct) (auto intro: ids_unique_step txn_wf_trace)

section \<open>Properties\<close>

text \<open>
  C12: epoch fencing. Once a transactional identifier is initialised again, the identity it had
  is refused for good: whatever operations are accepted afterwards, in whatever order, every
  operation under the old identity fails, with \<open>ProducerFenced\<close> as soon as its arguments are
  well formed. The hypothesis on the epoch excludes the saturated one.
\<close>

theorem reinit_fences_forever:
  assumes "txn_trace txn_new ops c" and "current_identity c tid = Some i" and "pi_epoch i < max_signed 16"
    and "txn_init c tid = Inr (j, c1)" and "txn_trace c1 ops' c2"
  shows "transaction_mut c2 tid i = Inl ProducerFenced
    \<and> validate_produce c2 tid i topic prt = Inl ProducerFenced
    \<and> txn_end c2 tid i commit = Inl ProducerFenced
    \<and> add_partition c2 tid i topic prt = Inl (if topic = [] \<or> prt < 0 then InvalidId else ProducerFenced)
    \<and> add_offset c2 tid i off = Inl (if offset_ok off then ProducerFenced else InvalidId)"
proof -
  have wf: "txn_wf c" "txn_wf c1"
    using txn_wf_trace [OF assms(1)] txn_wf_init [OF _ assms(4)] by auto
  obtain t where t: "lookup_txn c tid = Some t" "tx_identity t = i"
    using assms(2) by (auto simp: current_identity_def)
  have "pi_epoch j = sat_add 16 (pi_epoch i) 1"
    using assms(4) t by (cases rule: txn_init_cases) auto
  then have j: "pi_epoch i < pi_epoch j"
    using sat_add_one_strict [of 16 "pi_epoch i"] txn_wf_lookup [OF wf(1) t(1)] t(2) assms(3)
    by (simp add: txn_ok_def)
  have "current_identity c1 tid = Some j"
    by (simp add: init_identity [OF assms(4)])
  from trace_epoch_mono [OF assms(5) wf(2) this] j
  obtain k where "current_identity c2 tid = Some k" "pi_epoch i < pi_epoch k" by fastforce
  then have "transaction_mut c2 tid i = Inl ProducerFenced"
    by (auto simp: transaction_mut_Inl current_identity_def)
  then show ?thesis
    by (auto simp: validate_produce_def txn_end_def add_partition_def add_offset_def offset_ok_def)
qed

lemmas txn_eval = txn_init_def txn_new_def add_partition_def add_offset_def txn_end_def validate_produce_def
  transaction_mut_def put_transaction_def bs_insert_def bt_keys_def current_identity_def sat_add_def saturate_def
  min_signed_def max_signed_def Let_def

theorem reinit_fences_forever_witness:
  "\<exists>c i c1 j. txn_init txn_new [116] = Inr (i, c) \<and> txn_init c [116] = Inr (j, c1) \<and> i \<noteq> j
     \<and> validate_produce c1 [116] i [97] 0 = Inl ProducerFenced"
proof -
  let ?t = "\<lambda>i. \<lparr>tx_identity = i, tx_state = Empty, tx_partitions = [], tx_offsets = []\<rparr>"
  let ?i = "\<lparr>pi_id = 1, pi_epoch = 0\<rparr>" let ?j = "\<lparr>pi_id = 1, pi_epoch = 1\<rparr>"
  let ?c = "\<lparr>tr_next_id = 2, tr_transactions = [([116], ?t ?i)]\<rparr>"
  let ?c1 = "\<lparr>tr_next_id = 2, tr_transactions = [([116], ?t ?j)]\<rparr>"
  have a: "txn_init txn_new [116] = Inr (?i, ?c)" and b: "txn_init ?c [116] = Inr (?j, ?c1)"
    by (simp_all add: txn_eval)
  have tr: "txn_trace txn_new ([] @ [OpInit [116]]) ?c"
    by (rule trace_snoc [OF trace_nil step_init [OF a]])
  have "validate_produce ?c1 [116] ?i [97] 0 = Inl ProducerFenced"
    using reinit_fences_forever [OF tr _ _ b trace_nil, of ?i "[97]" 0]
    by (simp add: current_identity_def max_signed_def)
  then show ?thesis using a b by fastforce
qed

text \<open>
  C19: ending a transaction releases exactly what was enlisted in it. After any accepted
  operations, \<open>end\<close> succeeds exactly for the current identity of an identifier with a
  partition enlisted since its last initialisation or end. It then returns those partitions, each
  once and in order, and the enlisted consumer offsets in the order they were added; the
  transaction is empty afterwards and the identity, and every other transaction, is kept.
\<close>

theorem end_releases_enlisted:
  assumes "txn_trace txn_new ops c"
  shows "(case txn_end c tid i commit of
      Inl e \<Rightarrow> current_identity c tid \<noteq> Some i \<or> fst (enlisted tid ops) = {}
    | Inr (fin, c') \<Rightarrow> current_identity c tid = Some i \<and> fst (enlisted tid ops) \<noteq> {}
        \<and> set (co_partitions fin) = fst (enlisted tid ops) \<and> sorted_wrt (<) (co_partitions fin)
        \<and> co_offsets fin = snd (enlisted tid ops)
        \<and> recorded c' tid = ({}, []) \<and> current_identity c' = current_identity c
        \<and> (\<forall>t. t \<noteq> tid \<longrightarrow> lookup_txn c' t = lookup_txn c t))"
proof (cases "txn_end c tid i commit")
  case (Inl e)
  show ?thesis
  proof (cases "current_identity c tid = Some i")
    case True
    then obtain t where t: "lookup_txn c tid = Some t" "tx_identity t = i"
      by (auto simp: current_identity_def)
    then show ?thesis
      using Inl trace_recordedE(3) [OF assms t(1)] by (auto simp: txn_end_def transaction_mut_def Let_def split: if_splits)
  qed (use Inl in simp)
next
  case (Inr r)
  obtain fin c' where r: "r = (fin, c')" by fastforce
  from Inr [unfolded r] show ?thesis
  proof (cases rule: txn_end_cases)
    case (1 t)
    then show ?thesis
      using trace_recordedE [OF assms 1(1)] Inr endt.op_keeps_identities [OF Inr [unfolded r]]
      by (auto simp: r current_identity_def recorded_put)
  qed
qed

theorem end_releases_enlisted_witness:
  "\<exists>c c' fin. txn_trace txn_new [OpInit [116], OpAddPartition [116] \<lparr>pi_id = 1, pi_epoch = 0\<rparr> [97] 3] c
     \<and> txn_end c [116] \<lparr>pi_id = 1, pi_epoch = 0\<rparr> True = Inr (fin, c') \<and> co_partitions fin = [([97], 3)]
     \<and> recorded c' [116] = ({}, [])"
proof -
  let ?i = "\<lparr>pi_id = 1, pi_epoch = 0\<rparr>"
  let ?c = "\<lambda>s ps. \<lparr>tr_next_id = 2, tr_transactions =
    [([116], \<lparr>tx_identity = ?i, tx_state = s, tx_partitions = ps, tx_offsets = []\<rparr>)]\<rparr>"
  have a: "txn_init txn_new [116] = Inr (?i, ?c Empty [])"
    and b: "add_partition (?c Empty []) [116] ?i [97] 3 = Inr ((), ?c Ongoing [([97], 3)])"
    and e: "txn_end (?c Ongoing [([97], 3)]) [116] ?i True
        = Inr (\<lparr>co_partitions = [([97], 3)], co_offsets = []\<rparr>, ?c Empty [])"
    by (simp_all add: txn_eval)
  have tr: "txn_trace txn_new (([] @ [OpInit [116]]) @ [OpAddPartition [116] ?i [97] 3]) (?c Ongoing [([97], 3)])"
    by (rule trace_snoc [OF trace_snoc [OF trace_nil step_init [OF a]] step_add_partition [OF b]])
  have "recorded (?c Empty []) [116] = ({}, [])"
    using end_releases_enlisted [OF tr, of "[116]" ?i True] unfolding e by simp
  then show ?thesis using tr e by fastforce
qed

text \<open>
  Transactional produce is admitted exactly for enlisted partitions: after any accepted
  operations, validation accepts a write if and only if it comes from the current identity
  and its partition was added to the transaction that is open. Validation changes nothing.
\<close>

lemma produce_only_enlisted:
  assumes "txn_trace txn_new ops c"
  shows "validate_produce c tid i topic prt = Inr ((), c) \<longleftrightarrow>
           current_identity c tid = Some i \<and> (topic, prt) \<in> fst (enlisted tid ops)"
    (is "?v \<longleftrightarrow> ?e")
proof (cases "lookup_txn c tid")
  case (Some t)
  then show ?thesis
    using trace_recordedE [OF assms Some]
    by (auto simp: validate_produce_def transaction_mut_def current_identity_def)
qed (simp add: validate_produce_def transaction_mut_def current_identity_def)

lemma produce_only_enlisted_example:
  "validate_produce txn_new [116] \<lparr>pi_id = 1, pi_epoch = 0\<rparr> [97] 3 \<noteq> Inr ((), txn_new)
   \<and> (\<exists>c. txn_trace txn_new [OpInit [116], OpAddPartition [116] \<lparr>pi_id = 1, pi_epoch = 0\<rparr> [97] 3] c
        \<and> validate_produce c [116] \<lparr>pi_id = 1, pi_epoch = 0\<rparr> [97] 3 = Inr ((), c))"
proof -
  let ?i = "\<lparr>pi_id = 1, pi_epoch = 0\<rparr>"
  let ?c = "\<lambda>s ps. \<lparr>tr_next_id = 2, tr_transactions =
    [([116], \<lparr>tx_identity = ?i, tx_state = s, tx_partitions = ps, tx_offsets = []\<rparr>)]\<rparr>"
  have a: "txn_init txn_new [116] = Inr (?i, ?c Empty [])"
    and b: "add_partition (?c Empty []) [116] ?i [97] 3 = Inr ((), ?c Ongoing [([97], 3)])"
    by (simp_all add: txn_eval)
  have tr: "txn_trace txn_new (([] @ [OpInit [116]]) @ [OpAddPartition [116] ?i [97] 3]) (?c Ongoing [([97], 3)])"
    by (rule trace_snoc [OF trace_snoc [OF trace_nil step_init [OF a]] step_add_partition [OF b]])
  have "validate_produce (?c Ongoing [([97], 3)]) [116] ?i [97] 3 = Inr ((), ?c Ongoing [([97], 3)])"
    using produce_only_enlisted [OF tr, of "[116]" ?i "[97]" 3]
    by (simp add: current_identity_def enlisted_def)
  then show ?thesis
    using tr produce_only_enlisted [OF trace_nil, of "[116]" ?i "[97]" 3] by (auto simp: enlisted_def)
qed

text \<open>
  C30: the coordinator's invariant. After any accepted operations every transaction is either
  empty, with nothing enlisted, or ongoing with at least one partition (the prepare states
  are never visible between operations); its identifier is non-empty, its producer id has
  been issued and its epoch is a non-negative 16-bit value; the partitions are a strictly sorted
  set of valid names; and until the 64-bit counter is exhausted no two
  transactional identifiers share a producer id.
\<close>

theorem coordinator_invariant:
  assumes "txn_trace txn_new ops c"
  shows "txn_wf c \<and> ids_unique c"
proof -
  have "ids_unique txn_new" by (simp add: ids_unique_def txn_new_def current_identity_def)
  then show ?thesis using txn_wf_trace [OF assms] ids_unique_trace [OF assms] by blast
qed

theorem coordinator_invariant_witness:
  "\<exists>c. txn_trace txn_new [OpInit [116]] c \<and> txn_wf c \<and> ids_unique c \<and> current_identity c [116] \<noteq> None"
proof -
  obtain i c where a: "txn_init txn_new [116] = Inr (i, c)" and ci: "current_identity c [116] = Some i"
    by (simp add: txn_eval)
  have tr: "txn_trace txn_new ([] @ [OpInit [116]]) c"
    by (rule trace_snoc [OF trace_nil step_init [OF a]])
  show ?thesis using coordinator_invariant [OF tr] tr ci by auto
qed

text \<open>
  The boundary of fencing: at the largest epoch the saturating increment issues the identity
  that is already in use, so the old producer is not fenced.
\<close>

lemma init_saturated_epoch_not_fenced:
  assumes "current_identity c tid = Some i" and "pi_epoch i = max_signed 16" and "tid \<noteq> []"
  shows "\<exists>c'. txn_init c tid = Inr (i, c') \<and> (\<exists>t. transaction_mut c' tid i = Inr t)"
proof -
  have "sat_add 16 (pi_epoch i) 1 = pi_epoch i"
    using assms(2) by (simp add: sat_add_def saturate_def min_signed_def max_signed_def)
  then show ?thesis
    using assms(1,3) by (auto simp: txn_init_def current_identity_def Let_def)
qed

end
