(* ===== verification/Group_Coordinator.thy ===== *)
theory Group_Coordinator
  imports Broker_Prelude Transaction_Coordinator "HOL-Library.Multiset"
begin

text \<open>
  The consumer-group coordinator of \<^verbatim>\<open>crates/broker-core/src/coordination.rs\<close>: membership,
  generations, round-robin assignment and committed offsets.

  The locale \<open>group_op\<close> is the contract all operations share: they touch one group, keep the
  coordinator well formed and never lower a generation. \<open>group_trace\<close> relates a coordinator to
  the accepted operations that led to it.
\<close>

section \<open>State and operations\<close>

record GroupAssignment =
  ga_member_id :: bytes
  ga_partitions :: "(bytes \<times> int) list"

record GroupMember =
  gm_subscriptions :: "bytes list"
  gm_generation :: int
  gm_alive :: bool

record Group =
  gr_generation :: int
  gr_members :: "(bytes, GroupMember) btree_map"
  gr_assignments :: "GroupAssignment list"
  gr_offsets :: "(bytes \<times> int, int) btree_map"

record GroupCoordinator =
  gc_groups :: "(bytes, Group) btree_map"

definition group_new :: GroupCoordinator where
  "group_new = \<lparr>gc_groups = []\<rparr>"

definition empty_group :: Group where
  "empty_group = \<lparr>gr_generation = 0, gr_members = [], gr_assignments = [], gr_offsets = []\<rparr>"

definition next_generation :: "int \<Rightarrow> int" where
  "next_generation g = max (sat_add 32 g 1) 1"

text \<open>The indices of the members subscribed to a topic, in member order.\<close>

definition eligible :: "GroupMember list \<Rightarrow> bytes \<Rightarrow> nat list" where
  "eligible members topic =
     map fst (filter (\<lambda>(member_index, member). topic \<in> set (gm_subscriptions member)) (enumerate 0 members))"

text \<open>One turn of the assignment loop: partition number \<open>index\<close> of the list goes to one eligible member.\<close>

definition assign_one ::
  "GroupMember list \<Rightarrow> GroupAssignment list \<Rightarrow> nat \<times> bytes \<times> int \<Rightarrow> GroupAssignment list" where
  "assign_one members assignments = (\<lambda>(index, topic, prt).
     let el = eligible members topic; k = index mod max (length el) 1 in
     if k < length el
     then assignments[el ! k := (assignments ! (el ! k))
            \<lparr>ga_partitions := ga_partitions (assignments ! (el ! k)) @ [(topic, prt)]\<rparr>]
     else assignments)"

definition assign_partitions ::
  "(bytes, GroupMember) btree_map \<Rightarrow> (bytes \<times> int) list \<Rightarrow> GroupAssignment list" where
  "assign_partitions members partitions =
     foldl (assign_one (bt_values members))
       (map (\<lambda>member_id. \<lparr>ga_member_id = member_id, ga_partitions = []\<rparr>) (bt_keys members))
       (enumerate 0 partitions)"

definition group_join ::
  "GroupCoordinator \<Rightarrow> bytes \<Rightarrow> bytes \<Rightarrow> bytes list \<Rightarrow> (bytes \<times> int) list
     \<Rightarrow> CoordinationError + (int \<times> GroupAssignment list) \<times> GroupCoordinator" where
  "group_join c group_id member_id subscriptions partitions =
     (if group_id = [] \<or> member_id = [] then Inl InvalidId
      else
        let grp = (case bt_get (gc_groups c) group_id of Some g \<Rightarrow> g | None \<Rightarrow> empty_group);
            generation = next_generation (gr_generation grp);
            members = bt_insert member_id
              \<lparr>gm_subscriptions = subscriptions, gm_generation = generation, gm_alive = True\<rparr>
              (gr_members grp);
            assignments = assign_partitions members partitions
        in Inr ((generation, assignments),
                c\<lparr>gc_groups := bt_insert group_id
                    (grp\<lparr>gr_generation := generation, gr_members := members, gr_assignments := assignments\<rparr>)
                    (gc_groups c)\<rparr>))"

definition put_group :: "GroupCoordinator \<Rightarrow> bytes \<Rightarrow> Group \<Rightarrow> GroupCoordinator" where
  "put_group c group_id g = c\<lparr>gc_groups := bt_insert group_id g (gc_groups c)\<rparr>"

definition heartbeat ::
  "GroupCoordinator \<Rightarrow> bytes \<Rightarrow> bytes \<Rightarrow> int \<Rightarrow> CoordinationError + unit \<times> GroupCoordinator" where
  "heartbeat c group_id member_id generation =
     (case bt_get (gc_groups c) group_id of
        None \<Rightarrow> Inl UnknownGroup
      | Some grp \<Rightarrow>
          if generation \<noteq> gr_generation grp then Inl IllegalGeneration
          else case bt_get (gr_members grp) member_id of
            None \<Rightarrow> Inl UnknownMember
          | Some member \<Rightarrow>
              if gm_generation member \<noteq> generation then Inl IllegalGeneration
              else Inr ((), put_group c group_id
                     (grp\<lparr>gr_members := bt_insert member_id (member\<lparr>gm_alive := True\<rparr>) (gr_members grp)\<rparr>)))"

definition group_leave ::
  "GroupCoordinator \<Rightarrow> bytes \<Rightarrow> bytes \<Rightarrow> int \<Rightarrow> CoordinationError + unit \<times> GroupCoordinator" where
  "group_leave c group_id member_id generation =
     (case bt_get (gc_groups c) group_id of
        None \<Rightarrow> Inl UnknownGroup
      | Some grp \<Rightarrow>
          if generation \<noteq> gr_generation grp then Inl IllegalGeneration
          else if bt_get (gr_members grp) member_id = None then Inl UnknownMember
          else Inr ((), put_group c group_id
                 (grp\<lparr>gr_members := bt_remove member_id (gr_members grp),
                        gr_generation := next_generation (gr_generation grp)\<rparr>)))"

definition leave_any ::
  "GroupCoordinator \<Rightarrow> bytes \<Rightarrow> bytes \<Rightarrow> CoordinationError + unit \<times> GroupCoordinator" where
  "leave_any c group_id member_id =
     (case bt_get (gc_groups c) group_id of
        None \<Rightarrow> Inl UnknownGroup
      | Some grp \<Rightarrow>
          if bt_get (gr_members grp) member_id = None then Inl UnknownMember
          else Inr ((), put_group c group_id
                 (grp\<lparr>gr_members := bt_remove member_id (gr_members grp),
                        gr_generation := next_generation (gr_generation grp)\<rparr>)))"

definition commit_offset ::
  "GroupCoordinator \<Rightarrow> bytes \<Rightarrow> int \<Rightarrow> bytes \<Rightarrow> int \<Rightarrow> int
     \<Rightarrow> CoordinationError + unit \<times> GroupCoordinator" where
  "commit_offset c group_id generation topic prt off =
     (case bt_get (gc_groups c) group_id of
        None \<Rightarrow> Inl UnknownGroup
      | Some grp \<Rightarrow>
          if generation \<noteq> gr_generation grp then Inl IllegalGeneration
          else if prt < 0 \<or> off < 0 then Inl InvalidId
          else Inr ((), put_group c group_id
                 (grp\<lparr>gr_offsets := bt_insert (topic, prt) off (gr_offsets grp)\<rparr>)))"

definition group_offset ::
  "GroupCoordinator \<Rightarrow> bytes \<Rightarrow> bytes \<Rightarrow> int \<Rightarrow> CoordinationError + int option" where
  "group_offset c group_id topic prt =
     (case bt_get (gc_groups c) group_id of
        None \<Rightarrow> Inl UnknownGroup
      | Some grp \<Rightarrow> Inr (bt_get (gr_offsets grp) (topic, prt)))"

section \<open>The assignment\<close>

lemma set_eligible:
  "k \<in> set (eligible members topic) \<longleftrightarrow> k < length members \<and> topic \<in> set (gm_subscriptions (members ! k))"
  by (auto simp: eligible_def in_set_enumerate_eq image_iff)

lemma distinct_eligible [simp]: "distinct (eligible members topic)"
  by (auto simp: eligible_def distinct_map inj_on_def enumerate_eq_zip in_set_zip distinct_zipI1)

definition subscribed :: "GroupMember list \<Rightarrow> bytes \<Rightarrow> bool" where
  "subscribed members topic \<longleftrightarrow> (\<exists>m \<in> set members. topic \<in> set (gm_subscriptions m))"

lemma eligible_Nil_iff: "eligible members topic = [] \<longleftrightarrow> \<not> subscribed members topic"
proof -
  have "eligible members topic = [] \<longleftrightarrow> (\<forall>k. k \<notin> set (eligible members topic))"
    by (cases "eligible members topic") auto
  then show ?thesis
    unfolding set_eligible subscribed_def by (metis in_set_conv_nth)
qed

text \<open>The member the partition at an index of the list goes to.\<close>

definition assignee :: "GroupMember list \<Rightarrow> nat \<Rightarrow> bytes \<Rightarrow> nat" where
  "assignee members index topic = eligible members topic ! (index mod length (eligible members topic))"

lemma assign_one_eq:
  "assign_one members as (index, topic, prt) =
     (if subscribed members topic
      then as[assignee members index topic := (as ! assignee members index topic)
             \<lparr>ga_partitions := ga_partitions (as ! assignee members index topic) @ [(topic, prt)]\<rparr>]
      else as)"
proof (cases "eligible members topic = []")
  case True
  then show ?thesis by (simp add: assign_one_def eligible_Nil_iff)
next
  case False
  then have "max (length (eligible members topic)) 1 = length (eligible members topic)"
    by (cases "eligible members topic") auto
  moreover have "subscribed members topic" using False by (simp add: eligible_Nil_iff)
  ultimately show ?thesis using False by (simp add: assign_one_def assignee_def Let_def)
qed

lemma assignee_eligible:
  assumes "subscribed members topic"
  shows "assignee members index topic < length members"
    "topic \<in> set (gm_subscriptions (members ! assignee members index topic))"
proof -
  have "eligible members topic \<noteq> []" using assms by (simp add: eligible_Nil_iff)
  then have "assignee members index topic \<in> set (eligible members topic)"
    by (simp add: assignee_def)
  then show "assignee members index topic < length members"
    "topic \<in> set (gm_subscriptions (members ! assignee members index topic))"
    by (auto simp: set_eligible)
qed

lemma mset_concat_update:
  assumes "k < length xs"
  shows "mset (concat (xs[k := xs ! k @ [x]])) = add_mset x (mset (concat xs))"
  using assms by (induction xs arbitrary: k) (auto split: nat.splits)

text \<open>
  The loop as a whole: the assignment list keeps its members, and each member receives, in
  order, the partitions whose assignee it is.
\<close>

definition share :: "GroupMember list \<Rightarrow> (bytes \<times> int) list \<Rightarrow> nat \<Rightarrow> (bytes \<times> int) list" where
  "share members parts k =
     map snd (filter (\<lambda>(index, topic, prt). subscribed members topic \<and> assignee members index topic = k)
       (enumerate 0 parts))"

lemma share_snoc:
  "share members (parts @ [(topic, prt)]) k = share members parts k @
     (if subscribed members topic \<and> assignee members (length parts) topic = k then [(topic, prt)] else [])"
  by (simp add: share_def enumerate_append_eq)

lemma enumerate_snoc: "enumerate 0 (xs @ [x]) = enumerate 0 xs @ [(length xs, x)]"
  by (simp add: enumerate_append_eq)

lemma assign_loop:
  assumes "length ids = length members"
  shows "foldl (assign_one members) (map (\<lambda>m. \<lparr>ga_member_id = m, ga_partitions = []\<rparr>) ids) (enumerate 0 parts)
       = map (\<lambda>k. \<lparr>ga_member_id = ids ! k, ga_partitions = share members parts k\<rparr>) [0..<length ids]"
proof (induction parts rule: rev_induct)
  case Nil
  show ?case by (rule nth_equalityI) (simp_all add: share_def)
next
  case (snoc x parts)
  obtain topic prt where x: "x = (topic, prt)" by fastforce
  show ?case
  proof (cases "subscribed members topic")
    case True
    then have "assignee members (length parts) topic < length ids"
      using assignee_eligible(1) assms by simp
    then show ?thesis
      unfolding x enumerate_snoc foldl_append snoc
      by (intro nth_equalityI) (auto simp: assign_one_eq True share_snoc nth_list_update)
  next
    case False
    then show ?thesis
      unfolding x enumerate_snoc foldl_append snoc by (simp add: assign_one_eq share_snoc)
  qed
qed

lemma assign_partitions_eq:
  "assign_partitions members parts =
     map (\<lambda>k. \<lparr>ga_member_id = bt_keys members ! k, ga_partitions = share (bt_values members) parts k\<rparr>)
       [0..<length members]"
  using assign_loop [of "bt_keys members" "bt_values members" parts]
  by (simp add: assign_partitions_def bt_keys_def bt_values_def)

lemma mset_shares:
  "mset (concat (map (share members parts) [0..<length members])) =
     mset (filter (\<lambda>(topic, prt). subscribed members topic) parts)"
proof (induction parts rule: rev_induct)
  case Nil
  then show ?case by (simp add: share_def)
next
  case (snoc x parts)
  obtain topic prt where x: "x = (topic, prt)" by fastforce
  let ?xs = "map (share members parts) [0..<length members]"
  let ?a = "assignee members (length parts) topic"
  have "map (share members (parts @ [x])) [0..<length members] =
      (if subscribed members topic then ?xs[?a := ?xs ! ?a @ [x]] else ?xs)"
    using assignee_eligible(1) [of members topic "length parts"]
    by (intro nth_equalityI) (auto simp: x share_snoc nth_list_update)
  then show ?case
    using snoc mset_concat_update [of ?a ?xs x] assignee_eligible(1) [of members topic "length parts"]
    by (simp add: x)
qed

lemma same_eligible:
  assumes "\<forall>(topic, prt) \<in> set zs. \<forall>k < length members. topic \<in> set (gm_subscriptions (members ! k)) \<longleftrightarrow> k \<in> K" and "z \<in> set zs"
  shows "\<forall>(topic, prt) \<in> set zs. eligible members topic = eligible members (fst z)"
proof -
  have "eligible members (fst x) = map fst (filter (\<lambda>(k, m). k \<in> K) (enumerate 0 members))" if "x \<in> set zs" for x
  proof -
    have "\<forall>k < length members. fst x \<in> set (gm_subscriptions (members ! k)) \<longleftrightarrow> k \<in> K" using assms(1) that by (auto simp: case_prod_beta)
    then show ?thesis
      unfolding eligible_def by (intro arg_cong [where f = "map fst"] filter_cong refl) (auto simp: in_set_enumerate_eq)
  qed
  then show ?thesis using assms(2) by (simp add: case_prod_beta)
qed

text \<open>Among consecutive numbers, any two residues occur equally often, up to one.\<close>

lemma residue_count:
  fixes L j n m :: nat
  assumes "j < L"
  shows "length (filter (\<lambda>i. i mod L = j) [n..<n + m]) + (n + (L - 1 - j)) div L = (n + m + (L - 1 - j)) div L"
proof (induction m)
  case (Suc m)
  let ?x = "n + m"
  have "?x mod L < L" using assms by simp
  then have "(y + (L - j)) mod L = 0 \<longleftrightarrow> y = j" if "y = ?x mod L" for y
  proof (cases "y < j")
    case True
    then have "y + (L - j) < L" "0 < L - j" using assms by linarith+
    then show ?thesis using True by simp
  next
    case False
    then have "y + (L - j) = (y - j) + L" and lt: "y - j < L" using assms that \<open>?x mod L < L\<close> by linarith+
    then have "(y + (L - j)) mod L = y - j" by (metis mod_add_self2 mod_less)
    then show ?thesis using False by linarith
  qed
  then have r: "(?x + (L - j)) mod L = 0 \<longleftrightarrow> ?x mod L = j" by (metis mod_add_left_eq)
  define N where "N = ?x + (L - 1 - j)"
  have "Suc N = ?x + (L - j)" using assms by (simp add: N_def)
  then have "Suc N mod L = 0 \<longleftrightarrow> ?x mod L = j" using r by (simp only:)
  then have "Suc N div L = N div L + (if ?x mod L = j then 1 else 0)" by (simp add: div_Suc)
  then have "(n + Suc m + (L - 1 - j)) div L = (n + m + (L - 1 - j)) div L + (if ?x mod L = j then 1 else 0)" by (simp add: N_def)
  then show ?case using Suc.IH by simp
qed simp

lemma residue_count_balanced:
  fixes L :: nat
  assumes "j < L" and "k < L"
  shows "length (filter (\<lambda>i. i mod L = j) [n..<n + m]) \<le> length (filter (\<lambda>i. i mod L = k) [n..<n + m]) + 1"
proof -
  have d: "m div L \<le> (a + m) div L - a div L \<and> (a + m) div L - a div L \<le> m div L + 1" for a
  proof -
    have "a mod L < L" "m mod L < L" using assms by simp_all
    then have "a mod L + m mod L < 2 * L" by linarith
    then have "(a mod L + m mod L) div L \<le> 1" using less_mult_imp_div_less [of "a mod L + m mod L" 2 L] by simp
    then show ?thesis using div_add1_eq [of a m L] by simp
  qed
  have "m div L \<le> length (filter (\<lambda>i. i mod L = r) [n..<n + m]) \<and> length (filter (\<lambda>i. i mod L = r) [n..<n + m]) \<le> m div L + 1"
    if "r < L" for r
  proof -
    have "n + (L - 1 - r) + m = n + m + (L - 1 - r)" by simp
    note d [of "n + (L - 1 - r)", unfolded this, folded residue_count [OF that, of n m]]
    then show ?thesis by simp
  qed
  from this [OF assms(1)] this [OF assms(2)] show ?thesis by linarith
qed

lemma share_block:
  assumes "distinct (xs @ zs @ ys)"
  shows "filter (\<lambda>p. p \<in> set zs) (share members (xs @ zs @ ys) k) =
    map snd (filter (\<lambda>(index, topic, prt). subscribed members topic \<and> assignee members index topic = k) (enumerate (length xs) zs))"
proof -
  let ?P = "\<lambda>(index, topic, prt). subscribed members topic \<and> assignee members index topic = k"
  have sub: "set (map snd (filter ?P (enumerate n us))) \<subseteq> set us" for n us
    by (auto simp: enumerate_eq_zip dest: set_zip_rightD)
  have none: "filter (\<lambda>p. p \<in> set zs) (map snd (filter ?P (enumerate n us))) = []" if "set us \<inter> set zs = {}" for n us
    unfolding filter_empty_conv using that sub [of n us] by blast
  have all: "filter (\<lambda>p. p \<in> set zs) (map snd (filter ?P (enumerate n zs))) = map snd (filter ?P (enumerate n zs))" for n
    unfolding filter_id_conv using sub [of n zs] by blast
  have "set xs \<inter> set zs = {}" "set ys \<inter> set zs = {}" using assms by auto
  then show ?thesis using none all by (simp add: share_def enumerate_append_eq)
qed

lemma length_share_block:
  assumes "\<forall>(topic, prt) \<in> set zs. eligible members topic = el" and "j < length el"
  shows "length (filter (\<lambda>(index, topic, prt). subscribed members topic \<and> assignee members index topic = el ! j) (enumerate n zs))
    = length (filter (\<lambda>i. i mod length el = j) [n..<n + length zs])"
  using assms(1)
proof (induction zs rule: rev_induct)
  case (snoc x zs)
  obtain topic prt where x: "x = (topic, prt)" by fastforce
  have el: "eligible members topic = el" using snoc.prems by (auto simp: x)
  have "subscribed members topic"
    using el assms(2) eligible_Nil_iff [of members topic] by force
  moreover have "(n + length zs) mod length el < length el"
    using assms(2) by (intro mod_less_divisor) linarith
  then have "assignee members (n + length zs) topic = el ! j \<longleftrightarrow> (n + length zs) mod length el = j"
    using distinct_eligible [of members topic] assms(2)
      nth_eq_iff_index_eq [of el "(n + length zs) mod length el" j]
    by (simp add: assignee_def el)
  ultimately show ?case
    using snoc.IH snoc.prems by (simp add: x enumerate_append_eq)
qed simp

section \<open>Invariant and contract\<close>

abbreviation lookup_group :: "GroupCoordinator \<Rightarrow> bytes \<Rightarrow> Group option" where
  "lookup_group c gid \<equiv> bt_get (gc_groups c) gid"

definition generation_of :: "GroupCoordinator \<Rightarrow> bytes \<Rightarrow> int option" where
  "generation_of c gid = map_option gr_generation (lookup_group c gid)"

definition member_ok :: "int \<Rightarrow> bytes \<Rightarrow> GroupMember \<Rightarrow> bool" where
  "member_ok generation mid m \<longleftrightarrow> mid \<noteq> [] \<and> 1 \<le> gm_generation m \<and> gm_generation m \<le> generation"

definition fresh_generations :: "Group \<Rightarrow> bool" where
  "fresh_generations g \<longleftrightarrow> (gr_generation g < max_signed 32 \<longrightarrow>
     (\<forall>a b m n. bt_get (gr_members g) a = Some m \<longrightarrow> bt_get (gr_members g) b = Some n \<longrightarrow>
        gm_generation m = gm_generation n \<longrightarrow> a = b))"

definition group_ok :: "bytes \<Rightarrow> Group \<Rightarrow> bool" where
  "group_ok gid g \<longleftrightarrow> gid \<noteq> [] \<and> 1 \<le> gr_generation g \<and> in_i32 (gr_generation g)
     \<and> bt_wf (gr_members g) \<and> bt_all (member_ok (gr_generation g)) (gr_members g)
     \<and> fresh_generations g
     \<and> bt_wf (gr_offsets g) \<and> bt_all (\<lambda>(topic, prt) off. 0 \<le> prt \<and> 0 \<le> off) (gr_offsets g)"

definition group_wf :: "GroupCoordinator \<Rightarrow> bool" where
  "group_wf c \<longleftrightarrow> bt_wf (gc_groups c) \<and> bt_all group_ok (gc_groups c)"

lemma put_group_simps [simp]:
  "lookup_group (put_group c gid g) gid' = (if gid' = gid then Some g else lookup_group c gid')"
  by (simp add: put_group_def)

lemma group_wf_new [simp, intro]: "group_wf group_new"
  by (simp add: group_wf_def group_new_def)

lemma group_wf_lookup: "group_wf c \<Longrightarrow> lookup_group c gid = Some g \<Longrightarrow> group_ok gid g"
  by (auto simp: group_wf_def dest: bt_all_get)

lemma group_wf_put [intro]: "group_wf c \<Longrightarrow> group_ok gid g \<Longrightarrow> group_wf (put_group c gid g)"
  by (auto simp: group_wf_def put_group_def)

lemma next_generation_bounds:
  assumes "in_i32 g" and "0 \<le> g"
  shows "1 \<le> next_generation g" "g \<le> next_generation g" "in_i32 (next_generation g)"
    "g < max_signed 32 \<Longrightarrow> next_generation g = g + 1"
    "next_generation g < max_signed 32 \<Longrightarrow> next_generation g = g + 1"
  using assms
  by (auto simp: next_generation_def sat_add_def saturate_def in_signed_def min_signed_def max_signed_def)

lemma bt_all_mono: "bt_all P m \<Longrightarrow> (\<And>k v. P k v \<Longrightarrow> Q k v) \<Longrightarrow> bt_all Q m"
  by (auto simp: bt_all_def list_all_iff)

text \<open>A membership change to a group: members and generation move together.\<close>

lemma group_ok_leave:
  assumes "group_ok gid g"
  shows "group_ok gid (g\<lparr>gr_members := bt_remove mid (gr_members g),
           gr_generation := next_generation (gr_generation g)\<rparr>)"
proof -
  have n: "1 \<le> next_generation (gr_generation g)" "gr_generation g \<le> next_generation (gr_generation g)"
    "in_i32 (next_generation (gr_generation g))"
    "next_generation (gr_generation g) < max_signed 32 \<Longrightarrow> gr_generation g < max_signed 32"
    using next_generation_bounds [of "gr_generation g"] assms by (auto simp: group_ok_def)
  have "bt_all (member_ok (next_generation (gr_generation g))) (gr_members g)"
    using assms n(2) by (auto simp: group_ok_def member_ok_def elim!: bt_all_mono)
  then show ?thesis
    using assms n by (auto simp: group_ok_def fresh_generations_def bt_get_remove split: if_splits)
qed

lemma group_ok_join:
  assumes "gid \<noteq> []" "mid \<noteq> []" and g: "group_ok gid g \<or> g = empty_group"
  defines "gen \<equiv> next_generation (gr_generation g)"
  shows "group_ok gid (g\<lparr>gr_generation := gen,
           gr_members := bt_insert mid \<lparr>gm_subscriptions = subs, gm_generation = gen, gm_alive = True\<rparr> (gr_members g),
           gr_assignments := as\<rparr>)"
proof -
  have pre: "in_i32 (gr_generation g)" "0 \<le> gr_generation g" "bt_wf (gr_members g)"
    "bt_all (member_ok (gr_generation g)) (gr_members g)" "fresh_generations g"
    "bt_wf (gr_offsets g)" "bt_all (\<lambda>(topic, prt) off. 0 \<le> prt \<and> 0 \<le> off) (gr_offsets g)"
    using g by (auto simp: group_ok_def empty_group_def in_signed_def fresh_generations_def)
  note n = next_generation_bounds [OF pre(1,2), folded gen_def]
  have all: "bt_all (member_ok gen) (gr_members g)"
    using pre(4) n(2) by (auto simp: member_ok_def elim!: bt_all_mono)
  have old: "gm_generation m < gen" if "bt_get (gr_members g) b = Some m" "gen < max_signed 32" for b m
    using bt_all_get [OF pre(4) that(1)] n(5) [OF that(2)] by (auto simp: member_ok_def)
  have "fresh_generations (g\<lparr>gr_generation := gen,
           gr_members := bt_insert mid \<lparr>gm_subscriptions = subs, gm_generation = gen, gm_alive = True\<rparr> (gr_members g),
           gr_assignments := as\<rparr>)"
    using pre(5) n(5) old by (fastforce simp: fresh_generations_def)
  then show ?thesis
    using assms(1,2) pre n all by (auto simp: group_ok_def member_ok_def)
qed

text \<open>
  \<open>run c\<close> is an operation on group \<open>gid\<close>. It leaves the other groups alone, keeps the
  coordinator well formed and never lowers the group's generation.
\<close>

locale group_op =
  fixes run :: "GroupCoordinator \<Rightarrow> CoordinationError + 'r \<times> GroupCoordinator"
    and gid :: bytes
  assumes run_others: "run c = Inr (r, c') \<Longrightarrow> gid' \<noteq> gid \<Longrightarrow> lookup_group c' gid' = lookup_group c gid'"
    and run_wf: "group_wf c \<Longrightarrow> run c = Inr (r, c') \<Longrightarrow> group_wf c'"
    and run_generation: "group_wf c \<Longrightarrow> run c = Inr (r, c') \<Longrightarrow> generation_of c gid = Some n \<Longrightarrow>
      \<exists>n'. generation_of c' gid = Some n' \<and> n \<le> n'"
begin

lemma op_generations:
  assumes "group_wf c" and "run c = Inr (r, c')" and "generation_of c gid' = Some n"
  shows "\<exists>n'. generation_of c' gid' = Some n' \<and> n \<le> n'"
  using run_generation [OF assms(1,2)] run_others [OF assms(2), of gid'] assms(3)
  by (cases "gid' = gid") (auto simp: generation_of_def)

end

lemma group_join_cases:
  assumes "group_join c gid mid subs parts = Inr (r, c')"
  obtains g where "gid \<noteq> []" "mid \<noteq> []"
    "g = (case lookup_group c gid of Some g \<Rightarrow> g | None \<Rightarrow> empty_group)"
    "c' = put_group c gid (g\<lparr>gr_generation := fst r,
       gr_members := bt_insert mid \<lparr>gm_subscriptions = subs, gm_generation = fst r, gm_alive = True\<rparr> (gr_members g),
       gr_assignments := snd r\<rparr>)"
    "fst r = next_generation (gr_generation g)"
    "snd r = assign_partitions
       (bt_insert mid \<lparr>gm_subscriptions = subs, gm_generation = fst r, gm_alive = True\<rparr> (gr_members g)) parts"
  using assms by (auto simp: group_join_def put_group_def Let_def split: if_splits)

lemma leave_cases:
  "leave_any c gid mid = Inr (u, c') \<longleftrightarrow>
     (\<exists>g. lookup_group c gid = Some g \<and> bt_get (gr_members g) mid \<noteq> None
        \<and> c' = put_group c gid (g\<lparr>gr_members := bt_remove mid (gr_members g),
                 gr_generation := next_generation (gr_generation g)\<rparr>))"
  "group_leave c gid mid n = Inr (u, c') \<longleftrightarrow>
     generation_of c gid = Some n \<and> leave_any c gid mid = Inr (u, c')"
  by (auto simp: leave_any_def group_leave_def generation_of_def split: option.splits)

lemma group_wf_leave: "group_wf c \<Longrightarrow> leave_any c gid mid = Inr (u, c') \<Longrightarrow> group_wf c'"
  by (auto simp: leave_cases intro: group_ok_leave group_wf_lookup)

lemma group_wf_join:
  assumes "group_wf c" and "group_join c gid mid subs parts = Inr (r, c')"
  shows "group_wf c'"
  using assms(2)
proof (cases rule: group_join_cases)
  case (1 g)
  have "group_ok gid g \<or> g = empty_group"
    using 1(3) group_wf_lookup [OF assms(1), of gid] by (auto split: option.splits)
  then show ?thesis
    unfolding 1(4) using group_ok_join [OF 1(1,2)] assms(1) 1(5) by auto
qed

lemma group_generation_ge:
  assumes "group_wf c" and "lookup_group c gid = Some g"
  shows "gr_generation g \<le> next_generation (gr_generation g)"
  using group_wf_lookup [OF assms] next_generation_bounds(2) [of "gr_generation g"] by (auto simp: group_ok_def)

lemma heartbeat_cases:
  assumes "heartbeat c gid mid n = Inr (u, c')"
  obtains g m where "lookup_group c gid = Some g" "gr_generation g = n"
    "bt_get (gr_members g) mid = Some m" "gm_generation m = n"
    "c' = put_group c gid (g\<lparr>gr_members := bt_insert mid (m\<lparr>gm_alive := True\<rparr>) (gr_members g)\<rparr>)"
  using assms by (auto simp: heartbeat_def split: option.splits if_splits)

lemma group_wf_heartbeat:
  assumes "group_wf c" and "heartbeat c gid mid n = Inr (u, c')"
  shows "group_wf c'"
  using assms(2)
proof (cases rule: heartbeat_cases)
  case (1 g m)
  have ok: "group_ok gid g" using group_wf_lookup [OF assms(1) 1(1)] .
  then have m: "member_ok (gr_generation g) mid m" and all: "bt_all (member_ok (gr_generation g)) (gr_members g)"
    using bt_all_get [OF _ 1(3)] by (auto simp: group_ok_def)
  have "fresh_generations (g\<lparr>gr_members := bt_insert mid (m\<lparr>gm_alive := True\<rparr>) (gr_members g)\<rparr>)"
    using ok 1(3) by (auto simp: group_ok_def fresh_generations_def split: if_splits)
  then have "group_ok gid (g\<lparr>gr_members := bt_insert mid (m\<lparr>gm_alive := True\<rparr>) (gr_members g)\<rparr>)"
    using ok m by (auto simp: group_ok_def member_ok_def)
  then show ?thesis unfolding 1(5) using assms(1) by auto
qed

lemma commit_offset_cases:
  "commit_offset c gid n topic prt off = Inr (u, c') \<longleftrightarrow>
     (\<exists>g. lookup_group c gid = Some g \<and> gr_generation g = n \<and> 0 \<le> prt \<and> 0 \<le> off
        \<and> c' = put_group c gid (g\<lparr>gr_offsets := bt_insert (topic, prt) off (gr_offsets g)\<rparr>))"
  by (auto simp: commit_offset_def split: option.splits)

lemma group_wf_commit: "group_wf c \<Longrightarrow> commit_offset c gid n topic prt off = Inr (u, c') \<Longrightarrow> group_wf c'"
proof -
  assume wf: "group_wf c" and "commit_offset c gid n topic prt off = Inr (u, c')"
  then obtain g where g: "lookup_group c gid = Some g" "0 \<le> prt" "0 \<le> off"
    and c': "c' = put_group c gid (g\<lparr>gr_offsets := bt_insert (topic, prt) off (gr_offsets g)\<rparr>)"
    by (auto simp: commit_offset_cases)
  have "group_ok gid (g\<lparr>gr_offsets := bt_insert (topic, prt) off (gr_offsets g)\<rparr>)"
    using group_wf_lookup [OF wf g(1)] g(2,3) by (auto simp: group_ok_def fresh_generations_def)
  then show "group_wf c'" unfolding c' using wf by auto
qed

interpretation joing: group_op "\<lambda>c. group_join c gid mid subs parts" gid for gid mid subs parts
proof unfold_locales
  fix c r c' n
  assume wf: "group_wf c" and j: "group_join c gid mid subs parts = Inr (r, c')" and n: "generation_of c gid = Some n"
  from j show "\<exists>n'. generation_of c' gid = Some n' \<and> n \<le> n'"
    by (cases rule: group_join_cases)
      (use n group_generation_ge [OF wf] in \<open>auto simp: generation_of_def\<close>)
qed (auto elim: group_join_cases intro: group_wf_join)

interpretation heartg: group_op "\<lambda>c. heartbeat c gid mid n" gid for gid mid n
proof unfold_locales
  fix c r c'
  assume "group_wf c" and "heartbeat c gid mid n = Inr (r, c')"
  then show "group_wf c'" by (rule group_wf_heartbeat)
qed (auto elim!: heartbeat_cases simp: generation_of_def)

interpretation leaveg: group_op "\<lambda>c. leave_any c gid mid" gid for gid mid
proof unfold_locales
  fix c r c'
  assume "group_wf c" and "leave_any c gid mid = Inr (r, c')"
  then show "group_wf c'" by (rule group_wf_leave)
qed (auto simp: generation_of_def leave_cases dest: group_generation_ge)

interpretation leavegen: group_op "\<lambda>c. group_leave c gid mid n" gid for gid mid n
  by unfold_locales
    (auto simp: leave_cases(2) dest: leaveg.run_others leaveg.run_wf leaveg.run_generation)

interpretation commitg: group_op "\<lambda>c. commit_offset c gid n topic prt off" gid for gid n topic prt off
proof unfold_locales
  fix c r c'
  assume "group_wf c" and "commit_offset c gid n topic prt off = Inr (r, c')"
  then show "group_wf c'" by (rule group_wf_commit)
qed (auto simp: generation_of_def commit_offset_cases)

section \<open>Interleavings\<close>

datatype GroupOp =
    OpJoin bytes bytes "bytes list" "(bytes \<times> int) list"
  | OpHeartbeat bytes bytes int
  | OpLeave bytes bytes int
  | OpLeaveAny bytes bytes
  | OpCommitOffset bytes int bytes int int

inductive group_step :: "GroupCoordinator \<Rightarrow> GroupOp \<Rightarrow> GroupCoordinator \<Rightarrow> bool" where
  gstep_join: "group_join c gid mid subs parts = Inr (r, c') \<Longrightarrow> group_step c (OpJoin gid mid subs parts) c'"
| gstep_heartbeat: "heartbeat c gid mid n = Inr (u, c') \<Longrightarrow> group_step c (OpHeartbeat gid mid n) c'"
| gstep_leave: "group_leave c gid mid n = Inr (u, c') \<Longrightarrow> group_step c (OpLeave gid mid n) c'"
| gstep_leave_any: "leave_any c gid mid = Inr (u, c') \<Longrightarrow> group_step c (OpLeaveAny gid mid) c'"
| gstep_commit: "commit_offset c gid n topic prt off = Inr (u, c') \<Longrightarrow>
    group_step c (OpCommitOffset gid n topic prt off) c'"

inductive group_trace :: "GroupCoordinator \<Rightarrow> GroupOp list \<Rightarrow> GroupCoordinator \<Rightarrow> bool" where
  gtrace_nil: "group_trace c [] c"
| gtrace_snoc: "group_trace c ops d \<Longrightarrow> group_step d op e \<Longrightarrow> group_trace c (ops @ [op]) e"

lemma group_wf_step: "group_step c op c' \<Longrightarrow> group_wf c \<Longrightarrow> group_wf c'"
  by (induction rule: group_step.induct)
    (blast intro: joing.run_wf heartg.run_wf leavegen.run_wf leaveg.run_wf commitg.run_wf)+

lemma group_wf_trace: "group_trace c ops c' \<Longrightarrow> group_wf c \<Longrightarrow> group_wf c'"
  by (induction rule: group_trace.induct) (auto intro: group_wf_step)

lemma step_generation_mono:
  assumes "group_step c op c'" and "group_wf c" and "generation_of c gid = Some n"
  shows "\<exists>n'. generation_of c' gid = Some n' \<and> n \<le> n'"
  using assms
  by (induction rule: group_step.induct)
    (blast intro: joing.op_generations heartg.op_generations leavegen.op_generations
      leaveg.op_generations commitg.op_generations)+

lemma trace_generation_mono:
  assumes "group_trace c ops c'" and "group_wf c" and "generation_of c gid = Some n"
  shows "\<exists>n'. generation_of c' gid = Some n' \<and> n \<le> n'"
  using assms
proof (induction rule: group_trace.induct)
  case (gtrace_snoc c ops d op e)
  then obtain k where k: "generation_of d gid = Some k" "n \<le> k" by blast
  show ?case
    using step_generation_mono [OF gtrace_snoc(2) group_wf_trace [OF gtrace_snoc(1,4)] k(1)] k(2) by fastforce
qed auto

text \<open>What a consumer offset should be, read off the accepted operations alone.\<close>

fun last_commit :: "bytes \<Rightarrow> bytes \<Rightarrow> int \<Rightarrow> int option \<Rightarrow> GroupOp \<Rightarrow> int option" where
  "last_commit gid topic prt cur (OpCommitOffset gid' n topic' prt' off) =
     (if gid' = gid \<and> topic' = topic \<and> prt' = prt then Some off else cur)"
| "last_commit gid topic prt cur op = cur"

definition stored_offset :: "GroupCoordinator \<Rightarrow> bytes \<Rightarrow> bytes \<Rightarrow> int \<Rightarrow> int option" where
  "stored_offset c gid topic prt =
     (case lookup_group c gid of None \<Rightarrow> None | Some g \<Rightarrow> bt_get (gr_offsets g) (topic, prt))"

lemma stored_offset_put:
  "stored_offset (put_group c gid g) gid' topic prt =
     (if gid' = gid then bt_get (gr_offsets g) (topic, prt) else stored_offset c gid' topic prt)"
  by (simp add: stored_offset_def)

lemma step_stored:
  assumes "group_step c op c'"
  shows "stored_offset c' gid topic prt = last_commit gid topic prt (stored_offset c gid topic prt) op"
  using assms
proof (cases rule: group_step.cases)
  case (gstep_join gid' mid subs parts r)
  from gstep_join(2) show ?thesis
    by (cases rule: group_join_cases)
      (auto simp: gstep_join(1) stored_offset_put stored_offset_def [of c] empty_group_def split: option.splits)
next
  case (gstep_heartbeat gid' mid n u)
  from gstep_heartbeat(2) show ?thesis
    by (cases rule: heartbeat_cases)
      (auto simp: gstep_heartbeat(1) stored_offset_put stored_offset_def [of c])
qed (auto simp: leave_cases commit_offset_cases stored_offset_put stored_offset_def [of c])

lemma trace_stored:
  assumes "group_trace group_new ops c"
  shows "stored_offset c gid topic prt = foldl (last_commit gid topic prt) None ops"
proof -
  have new: "stored_offset group_new gid topic prt = None"
    by (simp add: stored_offset_def group_new_def)
  have "group_trace c0 ops c \<Longrightarrow> c0 = group_new \<Longrightarrow>
      stored_offset c gid topic prt = foldl (last_commit gid topic prt) None ops" for c0
    by (induction rule: group_trace.induct) (auto simp: step_stored new)
  then show ?thesis using assms by blast
qed

fun changes_members :: "bytes \<Rightarrow> GroupOp \<Rightarrow> bool" where
  "changes_members gid (OpJoin g mid subs parts) = (g = gid)"
| "changes_members gid (OpLeave g mid n) = (g = gid)"
| "changes_members gid (OpLeaveAny g mid) = (g = gid)"
| "changes_members gid op = False"

lemma membership_bumps:
  assumes "group_step c op c'" and "changes_members gid op" and "group_wf c"
    and "generation_of c gid = Some n" and "n < max_signed 32"
  shows "generation_of c' gid = Some (n + 1)"
proof -
  obtain g where g: "lookup_group c gid = Some g" "gr_generation g = n"
    using assms(4) by (auto simp: generation_of_def)
  have "next_generation n = n + 1"
    using next_generation_bounds(4) [of n] group_wf_lookup [OF assms(3) g(1)] g(2) assms(5)
    by (auto simp: group_ok_def)
  with assms(1,2) show ?thesis
    using g by (cases rule: group_step.cases)
      (auto simp: leave_cases generation_of_def elim!: group_join_cases)
qed

section \<open>Properties\<close>

text \<open>
  C13: assignment is exact. A successful join returns one assignment per member, in member
  order. Counted with multiplicity, the assigned partitions are exactly the listed partitions whose topic
  some member subscribes to, each assigned to one member, and a member receives only
  topics it subscribes to.
\<close>

theorem join_assigns_exactly:
  assumes "group_join c gid mid subs parts = Inr ((gen, as), c')"
  shows "\<exists>g. lookup_group c' gid = Some g \<and> gr_generation g = gen \<and> gr_assignments g = as
     \<and> mid \<in> set (bt_keys (gr_members g)) \<and> map ga_member_id as = bt_keys (gr_members g)
     \<and> mset (concat (map ga_partitions as)) =
         mset (filter (\<lambda>(topic, prt). subscribed (bt_values (gr_members g)) topic) parts)
     \<and> (\<forall>k < length as. \<forall>(topic, prt) \<in> set (ga_partitions (as ! k)).
          topic \<in> set (gm_subscriptions (bt_values (gr_members g) ! k)))"
  using assms
proof (cases rule: group_join_cases)
  case (1 g0)
  let ?ms = "bt_insert mid \<lparr>gm_subscriptions = subs, gm_generation = gen, gm_alive = True\<rparr> (gr_members g0)"
  have as: "as = map (\<lambda>k. \<lparr>ga_member_id = bt_keys ?ms ! k, ga_partitions = share (bt_values ?ms) parts k\<rparr>)
      [0..<length ?ms]"
    using 1(6) assign_partitions_eq by simp
  have ids: "map ga_member_id as = bt_keys ?ms"
    unfolding as by (intro nth_equalityI) (simp_all add: bt_keys_def)
  have len: "length (bt_values ?ms) = length ?ms" by (simp add: bt_values_def)
  have "mset (concat (map ga_partitions as)) =
      mset (filter (\<lambda>(topic, prt). subscribed (bt_values ?ms) topic) parts)"
    unfolding mset_shares [of "bt_values ?ms" parts, symmetric] len as by (simp add: comp_def)
  moreover have "topic \<in> set (gm_subscriptions (bt_values ?ms ! k))"
    if "k < length as" "(topic, prt) \<in> set (ga_partitions (as ! k))" for k topic prt
    using that assignee_eligible(2) by (auto simp: as share_def)
  moreover have "mid \<in> set (bt_keys ?ms)" by simp
  ultimately show ?thesis
    using ids 1(4) by (auto simp del: set_keys_insert)
qed

theorem join_assigns_exactly_witness:
  "\<exists>r c'. group_join group_new [103] [109] [[97]] [([97], 0), ([98], 0), ([97], 1)] = Inr (r, c')
     \<and> snd r = [\<lparr>ga_member_id = [109], ga_partitions = [([97], 0), ([97], 1)]\<rparr>]
     \<and> (\<exists>g. lookup_group c' [103] = Some g \<and> map ga_member_id (snd r) = bt_keys (gr_members g))"
proof -
  let ?ms = "[([109], \<lparr>gm_subscriptions = [[97]], gm_generation = 1, gm_alive = True\<rparr>)]"
  let ?as = "[\<lparr>ga_member_id = [109], ga_partitions = [([97], 0), ([97], 1)]\<rparr>]"
  let ?c = "\<lparr>gc_groups = [([103], \<lparr>gr_generation = 1, gr_members = ?ms, gr_assignments = ?as, gr_offsets = []\<rparr>)]\<rparr>"
  have j: "group_join group_new [103] [109] [[97]] [([97], 0), ([98], 0), ([97], 1)] = Inr ((1, ?as), ?c)"
    by (simp add: group_join_def group_new_def empty_group_def next_generation_def sat_add_def saturate_def
        min_signed_def max_signed_def assign_partitions_def assign_one_def eligible_def bt_keys_def bt_values_def Let_def)
  show ?thesis
    using join_assigns_exactly [OF j] unfolding j by auto
qed

text \<open>
  C31: the assignment is balanced where subscriptions agree. Any run of consecutive listed
  partitions whose topics have the same subscribers is spread evenly over them: the numbers of its
  partitions given to two subscribers differ by at most one. A run is, for instance, the
  partitions of one topic, which the broker lists one after the other, or the whole list when every member
  subscribes to every topic. Between runs with different subscribers nothing is evened out.
\<close>

theorem assignment_balanced:
  assumes "distinct (xs @ zs @ ys)"
    and "\<forall>(topic, prt) \<in> set zs. \<forall>k < length members. topic \<in> set (gm_subscriptions (bt_values members ! k)) \<longleftrightarrow> k \<in> K"
    and "a \<in> K" and "a < length members" and "b \<in> K" and "b < length members"
  shows "length (filter (\<lambda>p. p \<in> set zs) (ga_partitions (assign_partitions members (xs @ zs @ ys) ! a)))
    \<le> length (filter (\<lambda>p. p \<in> set zs) (ga_partitions (assign_partitions members (xs @ zs @ ys) ! b))) + 1"
proof (cases zs)
  case Nil
  then show ?thesis by simp
next
  case (Cons z zs')
  let ?ms = "bt_values members"
  have len: "length ?ms = length members" by (simp add: bt_values_def)
  define el where "el = eligible ?ms (fst z)"
  have el: "\<forall>(topic, prt) \<in> set zs. eligible ?ms topic = el"
    unfolding el_def by (rule same_eligible [OF assms(2) [folded len]]) (simp add: Cons)
  have "a \<in> set el" "b \<in> set el" using assms(2-6) Cons by (auto simp: el_def set_eligible len)
  then obtain i j where ij: "i < length el" "a = el ! i" "j < length el" "b = el ! j" by (auto simp: in_set_conv_nth)
  have "length (filter (\<lambda>p. p \<in> set zs) (share ?ms (xs @ zs @ ys) (el ! k)))
      = length (filter (\<lambda>x. x mod length el = k) [length xs..<length xs + length zs])" if "k < length el" for k
    using length_share_block [OF el that, of "length xs"] by (simp add: share_block [OF assms(1)])
  then show ?thesis
    using residue_count_balanced [OF ij(1,3), of "length xs" "length zs"] assms(4,6) ij by (simp add: assign_partitions_eq)
qed

theorem assignment_balanced_witness:
  "length (filter (\<lambda>p. p \<in> {([97], 0), ([97], 1), ([97], 2)}) (ga_partitions (assign_partitions
      [([109], \<lparr>gm_subscriptions = [[97]], gm_generation = 1, gm_alive = True\<rparr>),
       ([110], \<lparr>gm_subscriptions = [[97], [98]], gm_generation = 2, gm_alive = True\<rparr>)]
      ([] @ [([97], 0), ([97], 1), ([97], 2)] @ [([98], 0)]) ! 0)))
    \<le> length (filter (\<lambda>p. p \<in> {([97], 0), ([97], 1), ([97], 2)}) (ga_partitions (assign_partitions
      [([109], \<lparr>gm_subscriptions = [[97]], gm_generation = 1, gm_alive = True\<rparr>),
       ([110], \<lparr>gm_subscriptions = [[97], [98]], gm_generation = 2, gm_alive = True\<rparr>)]
      ([] @ [([97], 0), ([97], 1), ([97], 2)] @ [([98], 0)]) ! 1))) + 1"
  using assignment_balanced [of "[]" "[([97], 0), ([97], 1), ([97], 2)]" "[([98], 0)]"
    "[([109], \<lparr>gm_subscriptions = [[97]], gm_generation = 1, gm_alive = True\<rparr>),
      ([110], \<lparr>gm_subscriptions = [[97], [98]], gm_generation = 2, gm_alive = True\<rparr>)]" "{0, 1}" 0 1]
  by (simp add: bt_values_def less_Suc_eq)

text \<open>
  Across topics it is not: the position in the whole list decides, also over topics nobody
  subscribes to. Of six topics with one partition each, two members subscribed to every other one
  are given three partitions and none.
\<close>

lemma assignment_uneven_across_topics:
  "map (length \<circ> ga_partitions) (assign_partitions
      [([109], \<lparr>gm_subscriptions = [[0], [2], [4]], gm_generation = 1, gm_alive = True\<rparr>),
       ([110], \<lparr>gm_subscriptions = [[0], [2], [4]], gm_generation = 2, gm_alive = True\<rparr>)]
      [([0], 0), ([1], 0), ([2], 0), ([3], 0), ([4], 0), ([5], 0)]) = [3, 0]"
  by (simp add: assign_partitions_def assign_one_def eligible_def bt_keys_def bt_values_def Let_def mod_Suc)

text \<open>
  C32: generation fencing. After a member joins or leaves a group, the generation the
  group had before is refused for good: whatever is accepted later, a heartbeat, a
  generation-checked leave or an offset commit that carries it fails with
  \<open>IllegalGeneration\<close>. The hypothesis excludes the saturated generation.
\<close>

theorem membership_fences_generation:
  assumes "group_trace group_new ops c" and "generation_of c gid = Some n" and "n < max_signed 32"
    and "group_step c op c1" and "changes_members gid op" and "group_trace c1 ops' c2"
  shows "heartbeat c2 gid mid n = Inl IllegalGeneration
       \<and> group_leave c2 gid mid n = Inl IllegalGeneration
       \<and> commit_offset c2 gid n topic prt off = Inl IllegalGeneration"
proof -
  have wf: "group_wf c" "group_wf c1"
    using group_wf_trace [OF assms(1)] group_wf_step [OF assms(4)] by auto
  from trace_generation_mono [OF assms(6) wf(2) membership_bumps [OF assms(4,5) wf(1) assms(2,3)]]
  obtain k g where "lookup_group c2 gid = Some g" "gr_generation g = k" "n < k"
    by (auto simp: generation_of_def)
  then show ?thesis
    by (simp add: heartbeat_def group_leave_def commit_offset_def)
qed

theorem membership_fences_generation_witness:
  "\<exists>r c r' c'. group_join group_new [103] [109] [] [] = Inr (r, c) \<and> group_join c [103] [110] [] [] = Inr (r', c')
     \<and> heartbeat c' [103] [109] 1 = Inl IllegalGeneration"
proof -
  let ?m = "\<lambda>n. \<lparr>gm_subscriptions = [], gm_generation = n, gm_alive = True\<rparr>"
  let ?a = "\<lambda>m. \<lparr>ga_member_id = m, ga_partitions = []\<rparr>"
  let ?c = "\<lparr>gc_groups = [([103], \<lparr>gr_generation = 1, gr_members = [([109], ?m 1)],
    gr_assignments = [?a [109]], gr_offsets = []\<rparr>)]\<rparr>"
  let ?c' = "\<lparr>gc_groups = [([103], \<lparr>gr_generation = 2, gr_members = [([109], ?m 1), ([110], ?m 2)],
    gr_assignments = [?a [109], ?a [110]], gr_offsets = []\<rparr>)]\<rparr>"
  note ev = group_join_def group_new_def empty_group_def next_generation_def sat_add_def saturate_def
    min_signed_def max_signed_def assign_partitions_def bt_keys_def Let_def
  have j: "group_join group_new [103] [109] [] [] = Inr ((1, [?a [109]]), ?c)"
    and k: "group_join ?c [103] [110] [] [] = Inr ((2, [?a [109], ?a [110]]), ?c')"
    by (simp_all add: ev)
  have "heartbeat ?c' [103] [109] 1 = Inl IllegalGeneration"
    using membership_fences_generation [OF gtrace_snoc [OF gtrace_nil gstep_join [OF j]] _ _ gstep_join [OF k] _ gtrace_nil,
        of "[103]" 1 "[109]"]
    by (simp add: generation_of_def max_signed_def)
  then show ?thesis using j k by blast
qed

text \<open>
  Committed offsets are durable across membership changes. After any accepted operations,
  reading a group's offset for a partition returns the value of the last accepted commit
  for that group, topic and partition, if there was one; only an unknown group is an error.
\<close>

lemma offset_reads_last_commit:
  assumes "group_trace group_new ops c"
  shows "group_offset c gid topic prt =
     (if generation_of c gid = None then Inl UnknownGroup
      else Inr (foldl (last_commit gid topic prt) None ops))"
  using trace_stored [OF assms, of gid topic prt]
  by (auto simp: group_offset_def stored_offset_def generation_of_def split: option.splits)

lemma offset_reads_last_commit_example:
  "\<exists>r c c'. group_join group_new [103] [109] [] [] = Inr (r, c) \<and> commit_offset c [103] 1 [97] 0 42 = Inr ((), c')
     \<and> group_offset c' [103] [97] 0 = Inr (Some 42) \<and> group_offset c' [104] [97] 0 = Inl UnknownGroup"
proof -
  let ?g = "\<lambda>offs. \<lparr>gr_generation = 1, gr_members =
      [([109], \<lparr>gm_subscriptions = [], gm_generation = 1, gm_alive = True\<rparr>)],
    gr_assignments = [\<lparr>ga_member_id = [109], ga_partitions = []\<rparr>], gr_offsets = offs\<rparr>"
  let ?c = "\<lambda>offs. \<lparr>gc_groups = [([103], ?g offs)]\<rparr>"
  have j: "group_join group_new [103] [109] [] [] =
      Inr ((1, [\<lparr>ga_member_id = [109], ga_partitions = []\<rparr>]), ?c [])"
    by (simp add: group_join_def group_new_def empty_group_def next_generation_def sat_add_def saturate_def
        min_signed_def max_signed_def assign_partitions_def bt_keys_def Let_def)
  have k: "commit_offset (?c []) [103] 1 [97] 0 42 = Inr ((), ?c [(([97], 0), 42)])"
    by (simp add: commit_offset_def put_group_def)
  have tr: "group_trace group_new (([] @ [OpJoin [103] [109] [] []]) @ [OpCommitOffset [103] 1 [97] 0 42])
      (?c [(([97], 0), 42)])"
    by (rule gtrace_snoc [OF gtrace_snoc [OF gtrace_nil gstep_join [OF j]] gstep_commit [OF k]])
  show ?thesis
    using j k offset_reads_last_commit [OF tr, of "[103]" "[97]" 0] offset_reads_last_commit [OF tr, of "[104]" "[97]" 0]
    by (fastforce simp: generation_of_def)
qed

text \<open>
  Membership and heartbeats. A member's generation is set when it joins and only then, while
  the group's moves with every join and leave. So at any time at most one member, the last to
  join, can heartbeat, and after a leave none can, until somebody joins again.
\<close>

lemma at_most_one_heartbeat:
  assumes "group_trace group_new ops c" and "n < max_signed 32"
    and "heartbeat c gid a n = Inr (u, c1)" and "heartbeat c gid b n = Inr (v, c2)"
  shows "a = b"
proof -
  obtain g m where g: "lookup_group c gid = Some g" "gr_generation g = n" "bt_get (gr_members g) a = Some m" "gm_generation m = n"
    using assms(3) by (rule heartbeat_cases)
  obtain m' where "bt_get (gr_members g) b = Some m'" "gm_generation m' = n"
    using assms(4) g(1) by (auto elim: heartbeat_cases)
  then show ?thesis
    using group_wf_lookup [OF group_wf_trace [OF assms(1) group_wf_new] g(1)] g assms(2)
    by (auto simp: group_ok_def fresh_generations_def)
qed

lemma no_heartbeat_after_leave:
  assumes "group_trace group_new ops c" and "generation_of c gid = Some n" and "n < max_signed 32"
    and "leave_any c gid mid = Inr (u, c')"
  shows "\<exists>e. heartbeat c' gid a k = Inl e"
proof -
  obtain g where g: "lookup_group c gid = Some g" "gr_generation g = n"
    and c': "c' = put_group c gid (g\<lparr>gr_members := bt_remove mid (gr_members g), gr_generation := next_generation n\<rparr>)"
    using assms(2,4) by (auto simp: leave_cases generation_of_def)
  have ok: "group_ok gid g" using group_wf_lookup [OF group_wf_trace [OF assms(1) group_wf_new] g(1)] .
  then have "next_generation n = n + 1" and wf: "bt_wf (gr_members g)" and all: "bt_all (member_ok n) (gr_members g)"
    using next_generation_bounds(4) [of n] g(2) assms(3) by (auto simp: group_ok_def)
  then have "gm_generation m \<noteq> next_generation n" if "bt_get (gr_members g) a = Some m" for m
    using bt_all_get [OF all that] by (auto simp: member_ok_def)
  then show ?thesis
    by (auto simp: c' heartbeat_def bt_get_remove [OF wf] split: option.splits)
qed

end
