(* ===== verification/Wire_Codec.thy ===== *)
theory Wire_Codec
  imports Broker_Prelude
begin

text \<open>
  Protocol constants (\<^verbatim>\<open>crates/broker-wire/src/protocol.rs\<close>) and the primitive encoder and
  decoder (\<^verbatim>\<open>crates/broker-wire/src/codec.rs\<close>).

  A decoder is the source's pair of a byte slice and an offset; a reading operation maps it to an
  error or to a value and the advanced decoder. Since every caller gives up on the first
  error, the state of a decoder after an error is never observed and is not
  returned. \<open>reads f xs v\<close> is the law a reading operation is used by: wherever the
  bytes \<open>xs\<close> stand next in a slice, \<open>f\<close> returns \<open>v\<close> and moves just past them. The
  locale \<open>field_codec\<close> is the interface of a field with that law and lifts it to
  sequences of fields. \<open>advances n f\<close> is the safety contract of every reader: a successful
  read consumes at least \<open>n\<close> bytes and never passes the end of the slice.
\<close>

section \<open>Protocol constants\<close>

definition MAX_FRAME_LEN :: nat where "MAX_FRAME_LEN = 1024 * 1024"
definition MAX_STRING_LEN :: nat where "MAX_STRING_LEN = 8 * 1024"
definition MAX_ARRAY_LEN :: nat where "MAX_ARRAY_LEN = 16 * 1024"
definition MAX_RECORDS :: nat where "MAX_RECORDS = 1024"

datatype WireError =
    Incomplete | Invalid | TooLarge | UnsupportedApi | UnsupportedVersion | Correlation | Checksum

abbreviation (input) API_PRODUCE :: int where "API_PRODUCE \<equiv> 0"
abbreviation (input) API_FETCH :: int where "API_FETCH \<equiv> 1"
abbreviation (input) API_LIST_OFFSETS :: int where "API_LIST_OFFSETS \<equiv> 2"
abbreviation (input) API_METADATA :: int where "API_METADATA \<equiv> 3"
abbreviation (input) API_OFFSET_COMMIT :: int where "API_OFFSET_COMMIT \<equiv> 8"
abbreviation (input) API_OFFSET_FETCH :: int where "API_OFFSET_FETCH \<equiv> 9"
abbreviation (input) API_FIND_COORDINATOR :: int where "API_FIND_COORDINATOR \<equiv> 10"
abbreviation (input) API_JOIN_GROUP :: int where "API_JOIN_GROUP \<equiv> 11"
abbreviation (input) API_HEARTBEAT :: int where "API_HEARTBEAT \<equiv> 12"
abbreviation (input) API_LEAVE_GROUP :: int where "API_LEAVE_GROUP \<equiv> 13"
abbreviation (input) API_SYNC_GROUP :: int where "API_SYNC_GROUP \<equiv> 14"
abbreviation (input) API_API_VERSIONS :: int where "API_API_VERSIONS \<equiv> 18"
abbreviation (input) API_INIT_PRODUCER_ID :: int where "API_INIT_PRODUCER_ID \<equiv> 22"
abbreviation (input) API_ADD_PARTITIONS_TO_TXN :: int where "API_ADD_PARTITIONS_TO_TXN \<equiv> 24"
abbreviation (input) API_END_TXN :: int where "API_END_TXN \<equiv> 26"

definition SUPPORTED_VERSIONS :: "(int \<times> int \<times> int) list" where
  "SUPPORTED_VERSIONS =
     [(API_PRODUCE, 3, 3), (API_FETCH, 4, 4), (API_LIST_OFFSETS, 1, 1), (API_METADATA, 1, 1),
      (API_API_VERSIONS, 0, 0), (API_FIND_COORDINATOR, 1, 1), (API_INIT_PRODUCER_ID, 0, 0),
      (API_ADD_PARTITIONS_TO_TXN, 0, 0), (API_END_TXN, 0, 0), (API_JOIN_GROUP, 1, 1),
      (API_SYNC_GROUP, 0, 0), (API_HEARTBEAT, 0, 0), (API_LEAVE_GROUP, 0, 0),
      (API_OFFSET_COMMIT, 2, 2), (API_OFFSET_FETCH, 1, 1)]"

definition is_supported_api :: "int \<Rightarrow> bool" where
  "is_supported_api api_key \<longleftrightarrow>
     api_key \<in> set [API_PRODUCE, API_FETCH, API_LIST_OFFSETS, API_METADATA, API_API_VERSIONS,
       API_FIND_COORDINATOR, API_INIT_PRODUCER_ID, API_ADD_PARTITIONS_TO_TXN, API_END_TXN,
       API_OFFSET_COMMIT, API_OFFSET_FETCH, API_JOIN_GROUP, API_HEARTBEAT, API_LEAVE_GROUP, API_SYNC_GROUP]"

abbreviation (input) NO_ERROR :: int where "NO_ERROR \<equiv> 0"
abbreviation (input) OFFSET_OUT_OF_RANGE :: int where "OFFSET_OUT_OF_RANGE \<equiv> 1"
abbreviation (input) UNKNOWN_TOPIC_OR_PARTITION :: int where "UNKNOWN_TOPIC_OR_PARTITION \<equiv> 3"
abbreviation (input) UNSUPPORTED_VERSION :: int where "UNSUPPORTED_VERSION \<equiv> 35"
abbreviation (input) UNKNOWN_SERVER_ERROR :: int where "UNKNOWN_SERVER_ERROR \<equiv> - 1"
abbreviation (input) INVALID_REQUEST :: int where "INVALID_REQUEST \<equiv> 42"
abbreviation (input) INVALID_PRODUCER_EPOCH :: int where "INVALID_PRODUCER_EPOCH \<equiv> 47"
abbreviation (input) INVALID_TXN_STATE :: int where "INVALID_TXN_STATE \<equiv> 48"

section \<open>Big-endian integers\<close>

text \<open>
  \<open>be_bytes n x\<close> is \<^verbatim>\<open>to_be_bytes\<close> of an \<open>n\<close>-byte integer and \<open>be_int n\<close>
  \<^verbatim>\<open>from_be_bytes\<close> of a signed one.
\<close>

fun be_bytes :: "nat \<Rightarrow> int \<Rightarrow> bytes" where
  "be_bytes 0 x = []"
| "be_bytes (Suc n) x = be_bytes n (x div 256) @ [word_of_int x]"

definition be_uint :: "bytes \<Rightarrow> int" where
  "be_uint bs = foldl (\<lambda>a b. a * 256 + uint b) 0 bs"

definition be_int :: "nat \<Rightarrow> bytes \<Rightarrow> int" where
  "be_int n bs = wrap_signed (8 * n) (be_uint bs)"

lemma length_be_bytes [simp, wire_simps]: "length (be_bytes n x) = n"
  by (induction n x rule: be_bytes.induct) auto

lemma be_uint_snoc: "be_uint (bs @ [b]) = be_uint bs * 256 + uint b"
  by (simp add: be_uint_def)

lemma be_uint_bytes: "be_uint (be_bytes n x) = x mod 256 ^ n"
proof (induction n x rule: be_bytes.induct)
  case (1 x)
  then show ?case by (simp add: be_uint_def)
next
  case (2 n x)
  have "x mod (256 * 256 ^ n) = 256 * (x div 256 mod 256 ^ n) + x mod 256"
    by (rule zmod_zmult2_eq) simp
  then show ?case
    using 2 by (simp add: be_uint_snoc uint_word_of_int)
qed

lemma be_int_bytes:
  assumes "in_signed (8 * n) x" and "0 < n"
  shows "be_int n (be_bytes n x) = x"
proof -
  have "(256::int) ^ n = 2 ^ (8 * n)" by (simp add: power_mult)
  then show ?thesis
    using assms by (simp add: be_int_def be_uint_bytes wrap_signed_mod)
qed

lemma be_int_in_signed [simp, intro]: "0 < n \<Longrightarrow> in_signed (8 * n) (be_int n bs)"
  by (simp add: be_int_def)

lemma be_int_in_i8 [simp, intro]: "in_i8 (be_int 1 bs)"
  and be_int_in_i16 [simp, intro]: "in_i16 (be_int 2 bs)"
  and be_int_in_i32 [simp, intro]: "in_i32 (be_int 4 bs)"
  and be_int_in_i64 [simp, intro]: "in_i64 (be_int 8 bs)"
  using be_int_in_signed [of 1 bs] be_int_in_signed [of 2 bs] be_int_in_signed [of 4 bs]
    be_int_in_signed [of 8 bs] by simp_all

lemma be_uint_bounds: "0 \<le> be_uint bs \<and> be_uint bs < 256 ^ length bs"
proof (induction bs rule: rev_induct)
  case Nil
  then show ?case by (simp add: be_uint_def)
next
  case (snoc b bs)
  have "0 \<le> uint b" "uint b < 256" using uint_lt2p [of b] by simp_all
  then show ?case using snoc by (simp add: be_uint_snoc)
qed

text \<open>The bytes of an integer are determined by it: the other half of the round trip.\<close>

lemma be_bytes_uint: "be_bytes (length bs) (be_uint bs) = bs"
proof (induction bs rule: rev_induct)
  case (snoc b bs)
  have b: "0 \<le> uint b" "uint b < 256" using uint_lt2p [of b] by simp_all
  then have "(be_uint bs * 256 + uint b) div 256 = be_uint bs" by simp
  moreover have z: "(256::byte) = 0" by transfer simp
  have "word_of_int (be_uint bs * 256 + uint b) = word_of_int (be_uint bs) * (256::byte) + b" by simp
  then have "word_of_int (be_uint bs * 256 + uint b) = b" unfolding z by simp
  ultimately show ?case using snoc by (simp add: be_uint_snoc)
qed simp

section \<open>The encoder\<close>

record Encoder =
  en_bytes :: bytes

definition put :: "Encoder \<Rightarrow> bytes \<Rightarrow> Encoder" where
  "put e bs = e\<lparr>en_bytes := en_bytes e @ bs\<rparr>"

definition enc_response :: "int \<Rightarrow> Encoder" where
  "enc_response correlation_id = \<lparr>en_bytes = be_bytes 4 0 @ be_bytes 4 correlation_id\<rparr>"

definition enc_i8 :: "int \<Rightarrow> Encoder \<Rightarrow> Encoder" where
  "enc_i8 v e = put e (be_bytes 1 v)"

definition enc_i16 :: "int \<Rightarrow> Encoder \<Rightarrow> Encoder" where
  "enc_i16 v e = put e (be_bytes 2 v)"

definition enc_i32 :: "int \<Rightarrow> Encoder \<Rightarrow> Encoder" where
  "enc_i32 v e = put e (be_bytes 4 v)"

definition enc_i64 :: "int \<Rightarrow> Encoder \<Rightarrow> Encoder" where
  "enc_i64 v e = put e (be_bytes 8 v)"

definition enc_bool :: "bool \<Rightarrow> Encoder \<Rightarrow> Encoder" where
  "enc_bool v e = enc_i8 (if v then 1 else 0) e"

definition enc_string :: "bytes \<Rightarrow> Encoder \<Rightarrow> WireError + Encoder" where
  "enc_string v e =
     (if length v > MAX_STRING_LEN \<or> int (length v) > max_signed 16 then Inl TooLarge
      else Inr (put (enc_i16 (wrap_signed 16 (int (length v))) e) v))"

definition enc_nullable_string :: "bytes option \<Rightarrow> Encoder \<Rightarrow> WireError + Encoder" where
  "enc_nullable_string v e =
     (case v of Some v \<Rightarrow> enc_string v e | None \<Rightarrow> Inr (enc_i16 (- 1) e))"

definition enc_bytes :: "bytes \<Rightarrow> Encoder \<Rightarrow> WireError + Encoder" where
  "enc_bytes v e =
     (if length v > MAX_FRAME_LEN \<or> int (length v) > max_signed 32 then Inl TooLarge
      else Inr (put (enc_i32 (wrap_signed 32 (int (length v))) e) v))"

definition enc_array_len :: "nat \<Rightarrow> Encoder \<Rightarrow> WireError + Encoder" where
  "enc_array_len len e =
     (if len > MAX_ARRAY_LEN \<or> int len > max_signed 32 then Inl TooLarge
      else Inr (enc_i32 (wrap_signed 32 (int len)) e))"

definition enc_nullable_array_len :: "nat option \<Rightarrow> Encoder \<Rightarrow> WireError + Encoder" where
  "enc_nullable_array_len len e =
     (case len of Some len \<Rightarrow> enc_array_len len e | None \<Rightarrow> Inr (enc_i32 (- 1) e))"

text \<open>
  The length prefix is patched over the four placeholder bytes \<open>enc_response\<close> wrote. This is the release build: the
  source's \<^verbatim>\<open>debug_assert\<close> that the payload fits a frame is a hypothesis of the theorems that need it.
\<close>

definition enc_finish :: "Encoder \<Rightarrow> bytes" where
  "enc_finish e =
     be_bytes 4 (wrap_signed 32 (int (length (en_bytes e) - 4))) @ drop 4 (en_bytes e)"

text \<open>
  Sequencing of fallible steps (the source's \<^verbatim>\<open>?\<close>), of infallible ones, and a \<^verbatim>\<open>for\<close> loop over
  the elements of a list.
\<close>

definition ethen :: "('s \<Rightarrow> WireError + 's) \<Rightarrow> ('s \<Rightarrow> WireError + 's) \<Rightarrow> 's \<Rightarrow> WireError + 's" where
  "ethen f g e = (case f e of Inl er \<Rightarrow> Inl er | Inr e' \<Rightarrow> g e')"

definition eok :: "('s \<Rightarrow> 's) \<Rightarrow> 's \<Rightarrow> WireError + 's" where
  "eok f e = Inr (f e)"

fun enc_seq :: "('s \<Rightarrow> WireError + 's) list \<Rightarrow> 's \<Rightarrow> WireError + 's" where
  "enc_seq [] e = Inr e"
| "enc_seq (f # fs) e = ethen f (enc_seq fs) e"

definition enc_each :: "('a \<Rightarrow> 's \<Rightarrow> WireError + 's) \<Rightarrow> 'a list \<Rightarrow> 's \<Rightarrow> WireError + 's" where
  "enc_each f xs = enc_seq (map f xs)"

section \<open>The decoder\<close>

record Decoder =
  dc_bytes :: bytes
  dc_offset :: nat

type_synonym 'a reader = "Decoder \<Rightarrow> WireError + 'a \<times> Decoder"

definition dec_new :: "bytes \<Rightarrow> Decoder" where
  "dec_new bs = \<lparr>dc_bytes = bs, dc_offset = 0\<rparr>"

definition dec_take :: "nat \<Rightarrow> bytes reader" where
  "dec_take len d =
     (let last = dc_offset d + len in
      if last > usize_max then Inl Invalid
      else if last > length (dc_bytes d) then Inl Incomplete
      else Inr (take len (drop (dc_offset d) (dc_bytes d)), d\<lparr>dc_offset := last\<rparr>))"

definition dbind :: "'a reader \<Rightarrow> ('a \<Rightarrow> 'b reader) \<Rightarrow> 'b reader" where
  "dbind f g d = (case f d of Inl e \<Rightarrow> Inl e | Inr (v, d') \<Rightarrow> g v d')"

definition dreturn :: "'a \<Rightarrow> 'a reader" where
  "dreturn v d = Inr (v, d)"

definition dfail :: "WireError \<Rightarrow> 'a reader" where
  "dfail e d = Inl e"

definition dec_i8 :: "int reader" where
  "dec_i8 = dbind (dec_take 1) (\<lambda>bs. dreturn (be_int 1 bs))"

definition dec_i16 :: "int reader" where
  "dec_i16 = dbind (dec_take 2) (\<lambda>bs. dreturn (be_int 2 bs))"

definition dec_i32 :: "int reader" where
  "dec_i32 = dbind (dec_take 4) (\<lambda>bs. dreturn (be_int 4 bs))"

definition dec_i64 :: "int reader" where
  "dec_i64 = dbind (dec_take 8) (\<lambda>bs. dreturn (be_int 8 bs))"

definition string_bytes :: "bytes reader" where
  "string_bytes = dbind dec_i16 (\<lambda>len.
     if len < 0 then dfail Invalid
     else if nat len > MAX_STRING_LEN then dfail TooLarge
     else dec_take (nat len))"

definition nullable_string_bytes :: "bytes option reader" where
  "nullable_string_bytes = dbind dec_i16 (\<lambda>len.
     if len = - 1 then dreturn None
     else if len < 0 then dfail Invalid
     else if nat len > MAX_STRING_LEN then dfail TooLarge
     else dbind (dec_take (nat len)) (\<lambda>v. dreturn (Some v)))"

definition dec_bytes :: "bytes option reader" where
  "dec_bytes = dbind dec_i32 (\<lambda>len.
     if len = - 1 then dreturn None
     else if len < 0 then dfail Invalid
     else if nat len > MAX_FRAME_LEN then dfail TooLarge
     else dbind (dec_take (nat len)) (\<lambda>v. dreturn (Some v)))"

definition array_len :: "nat reader" where
  "array_len = dbind dec_i32 (\<lambda>len.
     if len < 0 then dfail Invalid
     else if nat len > MAX_ARRAY_LEN then dfail TooLarge
     else dreturn (nat len))"

definition nullable_array_len :: "nat option reader" where
  "nullable_array_len = dbind dec_i32 (\<lambda>len.
     if len = - 1 then dreturn None
     else if len < 0 then dfail Invalid
     else if nat len > MAX_ARRAY_LEN then dfail TooLarge
     else dreturn (Some (nat len)))"

definition dec_remaining :: "Decoder \<Rightarrow> nat" where
  "dec_remaining d = length (dc_bytes d) - dc_offset d"

definition dec_done :: "Decoder \<Rightarrow> bool" where
  "dec_done d \<longleftrightarrow> dc_offset d = length (dc_bytes d)"

text \<open>A counted \<^verbatim>\<open>for\<close> loop that reads one element per turn, and an array: its length, then the loop.\<close>

fun dec_times :: "nat \<Rightarrow> 'a reader \<Rightarrow> 'a list reader" where
  "dec_times 0 f = dreturn []"
| "dec_times (Suc n) f = dbind f (\<lambda>x. dbind (dec_times n f) (\<lambda>xs. dreturn (x # xs)))"

definition dec_array :: "'a reader \<Rightarrow> 'a list reader" where
  "dec_array f = dbind array_len (\<lambda>count. dec_times count f)"

section \<open>Variable length integers\<close>

function put_uvarint :: "64 word \<Rightarrow> bytes" where
  "put_uvarint value =
     (if value \<ge> 0x80 then (ucast value OR 0x80) # put_uvarint (drop_bit 7 value)
      else [ucast value])"
  by pat_completeness auto
termination
proof (relation "measure unat")
  fix v :: "64 word" assume "0x80 \<le> v"
  then have "0x80 \<le> unat v" by (simp add: word_le_nat_alt)
  then show "(drop_bit 7 v, v) \<in> measure unat"
    by (simp add: drop_bit_eq_div unat_div)
qed simp

declare put_uvarint.simps [simp del]

definition put_varint :: "int \<Rightarrow> bytes" where
  "put_varint value =
     (let v = word_of_int value :: 32 word
      in put_uvarint (ucast (push_bit 1 v XOR signed_drop_bit 31 v)))"

definition put_varlong :: "int \<Rightarrow> bytes" where
  "put_varlong value =
     (let v = word_of_int value :: 64 word
      in put_uvarint (push_bit 1 v XOR signed_drop_bit 63 v))"

text \<open>\<open>n\<close> is the number of turns the \<^verbatim>\<open>step_by\<close> loop has left.\<close>

fun uvarint_loop :: "nat \<Rightarrow> nat \<Rightarrow> 64 word \<Rightarrow> 64 word reader" where
  "uvarint_loop 0 shift value = dfail Invalid"
| "uvarint_loop (Suc n) shift value = dbind (dec_take 1) (\<lambda>bs.
     let byte = bs ! 0; value = value OR push_bit shift (ucast (byte AND 0x7f)) in
     if byte AND 0x80 = 0 then dreturn value else uvarint_loop n (shift + 7) value)"

definition read_uvarint :: "nat \<Rightarrow> 64 word reader" where
  "read_uvarint max_bytes = uvarint_loop max_bytes 0 0"

definition read_varint :: "int reader" where
  "read_varint = dbind (read_uvarint 5) (\<lambda>v.
     let raw = ucast v :: 32 word in dreturn (sint (drop_bit 1 raw XOR - (raw AND 1))))"

definition read_varlong :: "int reader" where
  "read_varlong = dbind (read_uvarint 10) (\<lambda>raw. dreturn (sint (drop_bit 1 raw XOR - (raw AND 1))))"

section \<open>The law of a reader\<close>

definition at :: "bytes \<Rightarrow> bytes \<Rightarrow> Decoder" where
  "at pre xs = \<lparr>dc_bytes = pre @ xs, dc_offset = length pre\<rparr>"

definition reads :: "'a reader \<Rightarrow> bytes \<Rightarrow> 'a \<Rightarrow> bool" where
  "reads f xs v \<longleftrightarrow> (\<forall>pre ys. length (pre @ xs @ ys) \<le> usize_max \<longrightarrow>
     f (at pre (xs @ ys)) = Inr (v, at (pre @ xs) ys))"

lemma dec_new_at: "dec_new bs = at [] bs"
  by (simp add: dec_new_def at_def)

lemma dec_done_at [simp]: "dec_done (at pre xs) \<longleftrightarrow> xs = []"
  by (simp add: dec_done_def at_def)

lemma dec_remaining_at [simp]: "dec_remaining (at pre xs) = length xs"
  by (simp add: dec_remaining_def at_def)

lemma readsD:
  "reads f xs v \<Longrightarrow> length (pre @ xs @ ys) \<le> usize_max \<Longrightarrow> f (at pre (xs @ ys)) = Inr (v, at (pre @ xs) ys)"
  by (simp add: reads_def)

lemma reads_all:
  assumes "reads f xs v" and "length xs \<le> usize_max"
  shows "f (dec_new xs) = Inr (v, at xs [])"
  using readsD [OF assms(1), of "[]" "[]"] assms(2) by (simp add: dec_new_at)

lemma reads_return [intro, wire_simps]: "reads (dreturn v) [] v"
  by (simp add: reads_def dreturn_def)

lemma reads_bind [intro]:
  assumes "reads f xs v" and "reads (g v) ys w"
  shows "reads (dbind f g) (xs @ ys) w"
  unfolding reads_def
proof (intro allI impI)
  fix pre zs
  assume len: "length (pre @ (xs @ ys) @ zs) \<le> usize_max"
  then show "dbind f g (at pre ((xs @ ys) @ zs)) = Inr (w, at (pre @ xs @ ys) zs)"
    using readsD [OF assms(1), of pre "ys @ zs"] readsD [OF assms(2), of "pre @ xs" zs]
    by (simp add: dbind_def)
qed

lemma reads_bind_return: "reads f xs v \<Longrightarrow> reads (dbind f (\<lambda>v. dreturn (h v))) xs (h v)"
  using reads_bind [of f xs v "\<lambda>v. dreturn (h v)" "[]" "h v"] by (simp add: reads_return)

lemma reads_bind_last: "reads f xs v \<Longrightarrow> reads (g v) [] w \<Longrightarrow> reads (dbind f g) xs w"
  using reads_bind [of f xs v g "[]" w] by simp

lemma reads_else: "\<not> c \<Longrightarrow> reads g xs v \<Longrightarrow> reads (if c then f else g) xs v"
  by simp

lemma reads_take [intro, wire_simps]: "reads (dec_take (length xs)) xs xs"
  by (auto simp: reads_def dec_take_def at_def Let_def)

lemma reads_byte: "reads (g [b]) ys w \<Longrightarrow> reads (dbind (dec_take 1) g) (b # ys) w"
  using reads_bind [OF reads_take [of "[b]"]] by simp

lemma reads_be:
  assumes "in_signed (8 * n) v" and "0 < n"
  shows "reads (dbind (dec_take n) (\<lambda>bs. dreturn (be_int n bs))) (be_bytes n v) v"
  using reads_bind_return [OF reads_take [of "be_bytes n v"], of "be_int n"] be_int_bytes [OF assms] by simp

lemma reads_i8: "in_i8 v \<Longrightarrow> reads dec_i8 (be_bytes 1 v) v"
  and reads_i16: "in_i16 v \<Longrightarrow> reads dec_i16 (be_bytes 2 v) v"
  and reads_i32: "in_i32 v \<Longrightarrow> reads dec_i32 (be_bytes 4 v) v"
  and reads_i64: "in_i64 v \<Longrightarrow> reads dec_i64 (be_bytes 8 v) v"
  using reads_be [of 1 v] reads_be [of 2 v] reads_be [of 4 v] reads_be [of 8 v]
  by (simp_all add: dec_i8_def dec_i16_def dec_i32_def dec_i64_def)

lemma reads_times:
  "(\<And>v. v \<in> set vs \<Longrightarrow> reads f (enc v) (h v)) \<Longrightarrow>
     reads (dec_times (length vs) f) (concat (map enc vs)) (map h vs)"
proof (induction vs)
  case (Cons v vs)
  then have "reads (dec_times (length vs) f) (concat (map enc vs)) (map h vs)" by simp
  then have "reads (dbind (dec_times (length vs) f) (\<lambda>xs. dreturn (h v # xs))) (concat (map enc vs)) (h v # map h vs)"
    by (rule reads_bind_return)
  then show ?case
    using reads_bind [of f "enc v" "h v"] Cons.prems by simp
qed (simp add: reads_return)

section \<open>The interface of a field\<close>

locale field_codec =
  fixes enc :: "'a \<Rightarrow> bytes" and dec :: "'a reader" and ok :: "'a \<Rightarrow> bool"
  assumes field_reads: "ok v \<Longrightarrow> reads dec (enc v) v"
begin

text \<open>A list of fields, read by a counted loop.\<close>

lemma times_reads: "list_all ok vs \<Longrightarrow> reads (dec_times (length vs) dec) (concat (map enc vs)) vs"
  using reads_times [of vs dec enc "\<lambda>v. v"] by (simp add: list_all_iff field_reads)

text \<open>The encoding of a valid value is injective, and no encoding is a proper prefix of another.\<close>

lemma enc_prefix_free:
  assumes "ok v" "ok w" and "enc v @ xs = enc w @ ys" and "length (enc v @ xs) \<le> usize_max"
  shows "v = w \<and> xs = ys"
proof -
  have "dec (at [] (enc v @ xs)) = Inr (v, at (enc v) xs)" "dec (at [] (enc w @ ys)) = Inr (w, at (enc w) ys)"
    using readsD [OF field_reads [OF assms(1)], of "[]" xs] readsD [OF field_reads [OF assms(2)], of "[]" ys] assms(3,4)
    by simp_all
  then show ?thesis using assms(3) by auto
qed

end

interpretation i8: field_codec "be_bytes 1" dec_i8 in_i8
  by unfold_locales (rule reads_i8)

interpretation i16: field_codec "be_bytes 2" dec_i16 in_i16
  by unfold_locales (rule reads_i16)

interpretation i32: field_codec "be_bytes 4" dec_i32 in_i32
  by unfold_locales (rule reads_i32)

interpretation i64: field_codec "be_bytes 8" dec_i64 in_i64
  by unfold_locales (rule reads_i64)

text \<open>What the encoder appends for each kind of field, as bytes.\<close>

definition string_field :: "bytes \<Rightarrow> bytes" where
  "string_field v = be_bytes 2 (int (length v)) @ v"

definition nullable_string_field :: "bytes option \<Rightarrow> bytes" where
  "nullable_string_field v = (case v of None \<Rightarrow> be_bytes 2 (- 1) | Some v \<Rightarrow> string_field v)"

definition bytes_field :: "bytes option \<Rightarrow> bytes" where
  "bytes_field v = (case v of None \<Rightarrow> be_bytes 4 (- 1) | Some v \<Rightarrow> be_bytes 4 (int (length v)) @ v)"

definition array_len_field :: "nat \<Rightarrow> bytes" where
  "array_len_field n = be_bytes 4 (int n)"

abbreviation string_ok :: "bytes \<Rightarrow> bool" where "string_ok v \<equiv> length v \<le> MAX_STRING_LEN"
abbreviation array_ok :: "nat \<Rightarrow> bool" where "array_ok n \<equiv> n \<le> MAX_ARRAY_LEN"

interpretation str: field_codec string_field string_bytes string_ok
proof unfold_locales
  fix v :: bytes assume v: "string_ok v"
  then have "in_i16 (int (length v))" by (simp add: in_signed_def MAX_STRING_LEN_def)
  from reads_bind [OF reads_i16 [OF this], where g = "\<lambda>len. if len < 0 then dfail Invalid
      else if nat len > MAX_STRING_LEN then dfail TooLarge else dec_take (nat len)" and ys = v and w = v]
  show "reads string_bytes (string_field v) v"
    using v reads_take [of v] by (simp add: string_bytes_def string_field_def)
qed

interpretation nstr: field_codec nullable_string_field nullable_string_bytes
  "\<lambda>v. case v of None \<Rightarrow> True | Some v \<Rightarrow> string_ok v"
proof unfold_locales
  fix v :: "bytes option" assume v: "case v of None \<Rightarrow> True | Some v \<Rightarrow> string_ok v"
  let ?g = "\<lambda>len. if len = - 1 then dreturn None else if len < 0 then dfail Invalid
      else if nat len > MAX_STRING_LEN then dfail TooLarge
      else dbind (dec_take (nat len)) (\<lambda>v. dreturn (Some v))"
  show "reads nullable_string_bytes (nullable_string_field v) v"
  proof (cases v)
    case None
    then show ?thesis
      using reads_bind [OF reads_i16 [of "- 1"], of ?g "[]" None]
      by (simp add: nullable_string_bytes_def nullable_string_field_def reads_return in_signed_def)
  next
    case (Some x)
    then have "in_i16 (int (length x))" using v by (simp add: in_signed_def MAX_STRING_LEN_def)
    from reads_bind [OF reads_i16 [OF this], of ?g x "Some x"] show ?thesis
      using v Some reads_bind_return [OF reads_take [of x], of Some]
      by (simp add: nullable_string_bytes_def nullable_string_field_def string_field_def)
  qed
qed

interpretation nbytes: field_codec bytes_field dec_bytes
  "\<lambda>v. case v of None \<Rightarrow> True | Some v \<Rightarrow> length v \<le> MAX_FRAME_LEN"
proof unfold_locales
  fix v :: "bytes option" assume v: "case v of None \<Rightarrow> True | Some v \<Rightarrow> length v \<le> MAX_FRAME_LEN"
  let ?g = "\<lambda>len. if len = - 1 then dreturn None else if len < 0 then dfail Invalid
      else if nat len > MAX_FRAME_LEN then dfail TooLarge
      else dbind (dec_take (nat len)) (\<lambda>v. dreturn (Some v))"
  show "reads dec_bytes (bytes_field v) v"
  proof (cases v)
    case None
    then show ?thesis
      using reads_bind [OF reads_i32 [of "- 1"], of ?g "[]" None]
      by (simp add: dec_bytes_def bytes_field_def reads_return in_signed_def)
  next
    case (Some x)
    then have "in_i32 (int (length x))" using v by (simp add: in_signed_def MAX_FRAME_LEN_def)
    from reads_bind [OF reads_i32 [OF this], of ?g x "Some x"] show ?thesis
      using v Some reads_bind_return [OF reads_take [of x], of Some]
      by (simp add: dec_bytes_def bytes_field_def)
  qed
qed

interpretation arrlen: field_codec array_len_field array_len array_ok
proof unfold_locales
  fix n assume n: "array_ok n"
  then have "in_i32 (int n)" by (simp add: in_signed_def MAX_ARRAY_LEN_def)
  from reads_bind [OF reads_i32 [OF this], where g = "\<lambda>len. if len < 0 then dfail Invalid
      else if nat len > MAX_ARRAY_LEN then dfail TooLarge else dreturn (nat len)" and ys = "[]" and w = n]
  show "reads array_len (array_len_field n) n"
    using n by (simp add: array_len_def array_len_field_def reads_return)
qed

lemma nullable_array_reads:
  "reads nullable_array_len (be_bytes 4 (- 1)) None"
  "array_ok n \<Longrightarrow> reads nullable_array_len (array_len_field n) (Some n)"
  unfolding nullable_array_len_def array_len_field_def
  by (rule reads_bind_last [OF i32.field_reads], simp_all add: in_signed_def MAX_ARRAY_LEN_def reads_return)+

definition array_field :: "('a \<Rightarrow> bytes) \<Rightarrow> 'a list \<Rightarrow> bytes" where
  "array_field enc vs = array_len_field (length vs) @ concat (map enc vs)"

definition small :: "('a \<Rightarrow> bool) \<Rightarrow> 'a list \<Rightarrow> bool" where
  "small P xs \<longleftrightarrow> array_ok (length xs) \<and> list_all P xs"

lemma reads_array:
  assumes "array_ok (length vs)" and "\<And>v. v \<in> set vs \<Longrightarrow> reads f (enc v) (h v)"
  shows "reads (dec_array f) (array_field enc vs) (map h vs)"
  unfolding dec_array_def array_field_def
  using assms by (intro reads_bind [OF arrlen.field_reads] reads_times) simp_all

lemma reads_array_id:
  assumes "array_ok (length vs)" and "\<And>v. v \<in> set vs \<Longrightarrow> reads f (enc v) v"
  shows "reads (dec_array f) (array_field enc vs) vs"
  using reads_array [of vs f enc "\<lambda>v. v"] assms by simp

text \<open>
  Stepping through a reader and the matching bytes field by field: in the middle of the
  bytes, at their end, and past a guard.
\<close>

lemmas reads_step =
  reads_bind [OF str.field_reads] reads_bind [OF nstr.field_reads] reads_bind [OF nbytes.field_reads]
  reads_bind [OF i8.field_reads] reads_bind [OF i16.field_reads] reads_bind [OF i32.field_reads]
  reads_bind [OF i64.field_reads] reads_bind [OF arrlen.field_reads] reads_bind [OF reads_array_id]
  reads_bind_last [OF str.field_reads] reads_bind_last [OF nstr.field_reads] reads_bind_last [OF nbytes.field_reads]
  reads_bind_last [OF i8.field_reads] reads_bind_last [OF i16.field_reads] reads_bind_last [OF i32.field_reads]
  reads_bind_last [OF i64.field_reads] reads_bind_last [OF arrlen.field_reads] reads_bind_last [OF reads_array_id]
  reads_else reads_return

section \<open>Variable length integers round trip\<close>

lemma bit_127 [simp]: "bit (127::int) n \<longleftrightarrow> n < 7"
  using bit_mask_iff [of 7 n, where 'a = int] by (simp add: mask_eq_exp_minus_1)

lemma bit_128 [simp]: "bit (128::int) n \<longleftrightarrow> n = 7"
  using bit_exp_iff [of 7 n, where 'a = int] by auto

lemma low_seven:
  fixes v :: "64 word"
  shows "ucast ((ucast v OR 0x80 :: byte) AND 0x7f) = v AND 0x7f"
  by (rule bit_word_eqI) (auto simp: bit_simps)

lemma high_set: "((x :: byte) OR 0x80) AND 0x80 \<noteq> 0"
proof
  assume "(x OR 0x80) AND 0x80 = 0"
  then have "\<not> bit ((x OR 0x80) AND 0x80) 7" by simp
  then show False by (simp add: bit_simps)
qed

lemma last_septet:
  fixes v :: "64 word"
  assumes "\<not> 0x80 \<le> v"
  shows "(ucast v :: byte) AND 0x80 = 0" "ucast ((ucast v :: byte) AND 0x7f) = v"
proof -
  have "v < 2 ^ 7" using assms by simp
  then have "unat v < 2 ^ 7" by (simp add: word_less_nat_alt)
  then have "take_bit 7 v = v"
    by (intro word_unat_eq_iff [THEN iffD2]) (simp add: unsigned_take_bit_eq take_bit_nat_eq_self)
  then have b: "bit v n \<Longrightarrow> n < 7" for n
    by (metis bit_take_bit_iff)
  show "(ucast v :: byte) AND 0x80 = 0"
    by (rule bit_word_eqI) (use b in \<open>auto simp: bit_simps\<close>)
  show "ucast ((ucast v :: byte) AND 0x7f) = v"
    by (rule bit_word_eqI) (use b in \<open>fastforce simp: bit_simps\<close>)
qed

lemma septet_split:
  fixes v :: "64 word"
  shows "push_bit s (v AND 0x7f) OR push_bit (s + 7) (drop_bit 7 v) = push_bit s v"
proof (rule bit_word_eqI)
  fix n assume "n < LENGTH(64)"
  consider "n < s" | "s \<le> n" "n - s < 7" | k where "n = s + 7 + k"
    using le_Suc_ex [of "s + 7" n] by fastforce
  then show "bit (push_bit s (v AND 0x7f) OR push_bit (s + 7) (drop_bit 7 v)) n \<longleftrightarrow> bit (push_bit s v) n"
    by cases (auto simp: bit_simps)
qed

lemma uvarint_loop_reads:
  "unat v < 2 ^ (7 * n) \<Longrightarrow> 0 < n \<Longrightarrow> reads (uvarint_loop n s acc) (put_uvarint v) (acc OR push_bit s v)"
proof (induction v arbitrary: n s acc rule: put_uvarint.induct)
  case (1 v)
  obtain k where n: "n = Suc k" using 1(3) by (cases n) auto
  show ?case
  proof (cases "0x80 \<le> v")
    case True
    let ?acc = "acc OR push_bit s (v AND 0x7f)"
    have ge: "128 \<le> unat v" using True by (simp add: word_le_nat_alt)
    then have k: "0 < k" using 1(2) n by (cases k) auto
    have "unat (drop_bit 7 v) < 2 ^ (7 * k)"
      using 1(2) n by (simp add: drop_bit_eq_div unat_div less_mult_imp_div_less power_add)
    note ih = 1(1) [OF True this k, of "s + 7" ?acc]
    have "?acc OR push_bit (s + 7) (drop_bit 7 v) = acc OR push_bit s v"
      using septet_split [of s v] by (simp add: or.assoc)
    with ih have "reads (uvarint_loop k (s + 7) ?acc) (put_uvarint (drop_bit 7 v)) (acc OR push_bit s v)"
      by simp
    then have "reads (uvarint_loop n s acc) ((ucast v OR 0x80) # put_uvarint (drop_bit 7 v)) (acc OR push_bit s v)"
      unfolding n uvarint_loop.simps
      by (intro reads_byte) (simp only: Let_def nth_Cons_0 low_seven high_set if_False)
    then show ?thesis using True by (simp add: put_uvarint.simps [of v])
  next
    case False
    have "reads (uvarint_loop n s acc) [ucast v] (acc OR push_bit s v)"
      unfolding n uvarint_loop.simps
      by (rule reads_byte) (simp add: last_septet [OF False] Let_def reads_return)
    then show ?thesis using False by (simp add: put_uvarint.simps [of v])
  qed
qed

lemma zigzag:
  fixes v :: "'a::len word"
  assumes "1 < LENGTH('a)"
  defines "z \<equiv> push_bit 1 v XOR signed_drop_bit (LENGTH('a) - 1) v"
  shows "drop_bit 1 z XOR - (z AND 1) = v"
proof -
  have "odd z \<longleftrightarrow> bit v (LENGTH('a) - 1)"
    using assms(1) unfolding bit_0 [symmetric] z_def by (simp add: bit_simps) (simp add: bit_0)
  then have neg: "- (z AND 1) = (if bit v (LENGTH('a) - 1) then - 1 else 0)"
    by (simp add: and_one_eq mod_2_eq_odd)
  have z: "bit z m \<longleftrightarrow> (1 \<le> m \<and> bit v (m - 1)) \<noteq> bit v (LENGTH('a) - 1)" if "m < LENGTH('a)" for m
    using that assms(1) unfolding z_def bit_xor_iff bit_push_bit_iff bit_signed_drop_bit_iff
    by (cases m) auto
  show ?thesis
    unfolding neg
  proof (rule bit_word_eqI)
    fix n assume n: "n < LENGTH('a)"
    show "bit (drop_bit 1 z XOR (if bit v (LENGTH('a) - 1) then - 1 else 0)) n \<longleftrightarrow> bit v n"
    proof (cases "Suc n < LENGTH('a)")
      case True
      then show ?thesis using z [of "Suc n"] n by (auto simp: bit_simps)
    next
      case False
      then have "n = LENGTH('a) - 1" "\<not> bit z (Suc n)"
        using n bit_imp_le_length by fastforce+
      then show ?thesis using n by (auto simp: bit_simps)
    qed
  qed
qed

lemma unat_bound: "unat w < 2 ^ LENGTH('a)" for w :: "'a::len word"
  by simp

lemma reads_uvarint_bind:
  assumes "unat v < 2 ^ (7 * n)" and "0 < n"
  shows "reads (dbind (read_uvarint n) (\<lambda>v. dreturn (h v))) (put_uvarint v) (h v)"
  using reads_bind_return [OF uvarint_loop_reads [OF assms, of 0 0], of h] by (simp add: read_uvarint_def)

lemma ucast_up: "ucast (ucast (z :: 32 word) :: 64 word) = z"
  by (rule bit_word_eqI) (simp add: bit_simps)

interpretation vint: field_codec put_varint read_varint in_i32
proof unfold_locales
  fix v :: int assume v: "in_i32 v"
  define w where "w = (word_of_int v :: 32 word)"
  define z where "z = push_bit 1 w XOR signed_drop_bit 31 w"
  have "unat z < 2 ^ 32" using unat_bound [of z] by (simp del: unsigned_less)
  then have "unat (ucast z :: 64 word) < 2 ^ (7 * 5)"
    by (simp add: unsigned_ucast_eq take_bit_nat_eq_self)
  from reads_uvarint_bind [OF this, of "\<lambda>v. sint (drop_bit 1 (ucast v :: 32 word) XOR - (ucast v AND 1))"]
  have "reads read_varint (put_uvarint (ucast z)) (sint (drop_bit 1 z XOR - (z AND 1)))"
    unfolding read_varint_def Let_def ucast_up by simp
  moreover have "sint w = v"
    using v by (simp add: w_def sint_sbintrunc' in_signed_def signed_take_bit_int_eq_self)
  moreover have "put_varint v = put_uvarint (ucast z)"
    by (simp only: put_varint_def z_def w_def Let_def)
  moreover have "drop_bit 1 z XOR - (z AND 1) = w"
    using zigzag [of w] unfolding z_def by simp
  ultimately show "reads read_varint (put_varint v) v" by metis
qed

interpretation vlong: field_codec put_varlong read_varlong in_i64
proof unfold_locales
  fix v :: int assume v: "in_i64 v"
  define w where "w = (word_of_int v :: 64 word)"
  define z where "z = push_bit 1 w XOR signed_drop_bit 63 w"
  have "unat z < 2 ^ 64" using unat_bound [of z] by (simp del: unsigned_less)
  then have "unat z < 2 ^ (7 * 10)" by simp
  from reads_uvarint_bind [OF this, of "\<lambda>raw. sint (drop_bit 1 raw XOR - (raw AND 1))"]
  have "reads read_varlong (put_uvarint z) (sint (drop_bit 1 z XOR - (z AND 1)))"
    unfolding read_varlong_def Let_def by simp
  moreover have "sint w = v"
    using v by (simp add: w_def sint_sbintrunc' in_signed_def signed_take_bit_int_eq_self)
  moreover have "put_varlong v = put_uvarint z"
    by (simp only: put_varlong_def z_def w_def Let_def)
  moreover have "drop_bit 1 z XOR - (z AND 1) = w"
    using zigzag [of w] unfolding z_def by simp
  ultimately show "reads read_varlong (put_varlong v) v" by metis
qed

text \<open>A variable length integer takes at most one byte per seven bits.\<close>

lemma length_put_uvarint:
  "unat v < 2 ^ (7 * n) \<Longrightarrow> 0 < n \<Longrightarrow> 0 < length (put_uvarint v) \<and> length (put_uvarint v) \<le> n"
proof (induction v arbitrary: n rule: put_uvarint.induct)
  case (1 v)
  show ?case
  proof (cases "0x80 \<le> v")
    case True
    then have ge: "128 \<le> unat v" by (simp add: word_le_nat_alt)
    obtain k where n: "n = Suc k" using 1(3) by (cases n) auto
    then have k: "0 < k" using 1(2) ge by (cases k) auto
    have "unat (drop_bit 7 v) < 2 ^ (7 * k)"
      using 1(2) n by (simp add: drop_bit_eq_div unat_div less_mult_imp_div_less power_add)
    then show ?thesis using 1(1) [OF True _ k] True n by (simp add: put_uvarint.simps [of v])
  qed (use 1(3) in \<open>simp add: put_uvarint.simps [of v]\<close>)
qed

lemma length_put_varint: "0 < length (put_varint v) \<and> length (put_varint v) \<le> 5"
proof -
  let ?z = "push_bit 1 (word_of_int v) XOR signed_drop_bit 31 (word_of_int v) :: 32 word"
  have "unat ?z < 2 ^ 32" using unat_bound [of ?z] by (simp del: unsigned_less)
  then have "unat (ucast ?z :: 64 word) < 2 ^ (7 * 5)"
    by (simp add: unsigned_ucast_eq take_bit_nat_eq_self)
  from length_put_uvarint [OF this] show ?thesis by (simp add: put_varint_def Let_def)
qed

lemma length_put_varlong: "0 < length (put_varlong v) \<and> length (put_varlong v) \<le> 10"
proof -
  let ?z = "push_bit 1 (word_of_int v) XOR signed_drop_bit 63 (word_of_int v) :: 64 word"
  have "unat ?z < 2 ^ 64" using unat_bound [of ?z] by (simp del: unsigned_less)
  then have "unat ?z < 2 ^ (7 * 10)" by simp
  from length_put_uvarint [OF this] show ?thesis by (simp add: put_varlong_def Let_def)
qed

section \<open>Safety of readers\<close>

definition advances :: "nat \<Rightarrow> 'a reader \<Rightarrow> bool" where
  "advances n f \<longleftrightarrow> (\<forall>d v d'. f d = Inr (v, d') \<longrightarrow>
     dc_bytes d' = dc_bytes d \<and> dc_offset d + n \<le> dc_offset d'
     \<and> (dc_offset d \<le> length (dc_bytes d) \<longrightarrow> dc_offset d' \<le> length (dc_bytes d)))"

lemma advancesD:
  assumes "advances n f" and "f d = Inr (v, d')"
  shows "dc_bytes d' = dc_bytes d" "dc_offset d + n \<le> dc_offset d'"
    "dc_offset d \<le> length (dc_bytes d) \<Longrightarrow> dc_offset d' \<le> length (dc_bytes d)"
  using assms by (auto simp: advances_def)

named_theorems reader_intros \<open>introduction rules of the safety contract\<close>

lemma advances_return [reader_intros]: "advances 0 (dreturn v)"
  by (simp add: advances_def dreturn_def)

lemma advances_fail [reader_intros]: "advances n (dfail e)"
  by (simp add: advances_def dfail_def)

lemma advances_take [reader_intros]: "advances n (dec_take n)"
  by (auto simp: advances_def dec_take_def Let_def)

lemma advances_less: "advances n f \<Longrightarrow> m \<le> n \<Longrightarrow> advances m f"
  by (fastforce simp: advances_def)

lemma advances_bind [reader_intros]:
  assumes "advances m f" and "\<And>v. advances n (g v)"
  shows "advances (m + n) (dbind f g)"
  unfolding advances_def dbind_def
proof (intro allI impI)
  fix d w d'
  assume "(case f d of Inl e \<Rightarrow> Inl e | Inr (v, d') \<Rightarrow> g v d') = Inr (w, d')"
  then obtain v d1 where f: "f d = Inr (v, d1)" and g: "g v d1 = Inr (w, d')"
    by (auto split: sum.splits prod.splits)
  show "dc_bytes d' = dc_bytes d \<and> dc_offset d + (m + n) \<le> dc_offset d'
      \<and> (dc_offset d \<le> length (dc_bytes d) \<longrightarrow> dc_offset d' \<le> length (dc_bytes d))"
    using advancesD [OF assms(1) f] advancesD [OF assms(2) g] by auto
qed

lemma advances_bind0: "advances m f \<Longrightarrow> (\<And>v. advances 0 (g v)) \<Longrightarrow> advances m (dbind f g)"
  using advances_bind [of m f 0 g] by simp

lemma advances_if: "advances n f \<Longrightarrow> advances n g \<Longrightarrow> advances n (if b then f else g)"
  by simp

lemma advances_take0 [reader_intros]: "advances 0 (dec_take n)"
  by (rule advances_less [OF advances_take]) simp

lemma advances_ints:
  "advances 1 dec_i8" "advances 2 dec_i16" "advances 4 dec_i32" "advances 8 dec_i64"
  unfolding dec_i8_def dec_i16_def dec_i32_def dec_i64_def
  by (intro advances_bind0 advances_take advances_return)+

lemma advances_fields:
  "advances 2 string_bytes" "advances 2 nullable_string_bytes" "advances 4 dec_bytes"
  "advances 4 array_len" "advances 4 nullable_array_len"
  unfolding string_bytes_def nullable_string_bytes_def dec_bytes_def array_len_def nullable_array_len_def
  by (intro advances_bind0 advances_ints advances_if advances_fail advances_return advances_take0)+

lemma advances_uvarint: "advances 1 (uvarint_loop n s acc)"
proof (induction n arbitrary: s acc)
  case (Suc n)
  show ?case
    unfolding uvarint_loop.simps Let_def
    by (intro advances_bind0 advances_take advances_if advances_return advances_less [OF Suc]) simp
qed (simp add: advances_fail)

lemma advances_varints: "advances 1 read_varint" "advances 1 read_varlong"
  unfolding read_varint_def read_varlong_def read_uvarint_def Let_def
  by (intro advances_bind0 advances_uvarint advances_return)+

lemma advances_times: "advances k f \<Longrightarrow> advances (n * k) (dec_times n f)"
proof (induction n)
  case (Suc n)
  then show ?case
    using advances_bind [of k f "n * k" "\<lambda>x. dbind (dec_times n f) (\<lambda>xs. dreturn (x # xs))"]
    by (simp add: advances_bind0 advances_return)
qed (simp add: advances_return)

lemma length_dec_times: "dec_times n f d = Inr (xs, d') \<Longrightarrow> length xs = n"
  by (induction n arbitrary: d xs d')
    (auto simp: dreturn_def dbind_def split: sum.splits prod.splits)

lemma reads_be_any:
  "0 < n \<Longrightarrow> reads (dbind (dec_take n) (\<lambda>bs. dreturn (be_int n bs))) (be_bytes n v) (wrap_signed (8 * n) v)"
proof -
  assume "0 < n"
  then have "be_int n (be_bytes n v) = wrap_signed (8 * n) v"
    using wrap_signed_mod [of "8 * n" v] by (simp add: be_int_def be_uint_bytes power_mult)
  then show ?thesis
    using reads_bind_return [OF reads_take [of "be_bytes n v"], of "be_int n"] by simp
qed

lemma word_of_int_mod: "word_of_int (k mod 2 ^ LENGTH('a)) = (word_of_int k :: 'a::len word)"
  by transfer (simp add: take_bit_eq_mod)

lemma word_of_wrap_signed: "word_of_int (wrap_signed LENGTH('a) k) = (word_of_int k :: 'a::len word)"
proof -
  have "(word_of_int (wrap_signed LENGTH('a) k) :: 'a word) =
      word_of_int ((k + 2 ^ (LENGTH('a) - 1)) mod 2 ^ LENGTH('a)) - word_of_int (2 ^ (LENGTH('a) - 1))"
    by (simp only: wrap_signed_def of_int_diff)
  then show ?thesis by (simp only: word_of_int_mod) simp
qed

text \<open>Reading a slice to its end.\<close>

definition reads_exact :: "'a reader \<Rightarrow> bytes \<Rightarrow> 'a \<Rightarrow> bool" where
  "reads_exact f xs v \<longleftrightarrow> (\<forall>pre. length (pre @ xs) \<le> usize_max \<longrightarrow> f (at pre xs) = Inr (v, at (pre @ xs) []))"

lemma reads_exact_bind:
  assumes "reads f xs v" and "reads_exact (g v) ys w"
  shows "reads_exact (dbind f g) (xs @ ys) w"
  unfolding reads_exact_def
proof (intro allI impI)
  fix pre
  assume "length (pre @ xs @ ys) \<le> usize_max"
  then show "dbind f g (at pre (xs @ ys)) = Inr (w, at (pre @ xs @ ys) [])"
    using readsD [OF assms(1), of pre ys] assms(2) by (simp add: dbind_def reads_exact_def)
qed

lemma reads_is_exact: "reads f xs v \<Longrightarrow> reads_exact f xs v"
  unfolding reads_exact_def using readsD [of f xs v _ "[]"] by simp

lemma reads_exact_new: "reads_exact f xs v \<Longrightarrow> length xs \<le> usize_max \<Longrightarrow> f (dec_new xs) = Inr (v, at xs [])"
  by (simp add: reads_exact_def dec_new_at)

section \<open>The interface of a byte sink\<close>

text \<open>
  Encoders write to a \<^verbatim>\<open>Vec<u8>\<close> or to an \<open>Encoder\<close>. Both only ever append, which is all
  that the laws of sequences and loops need. \<open>writes snk ok xs f\<close> says what a step does:
  it appends \<open>xs\<close> if \<open>ok\<close> and fails with \<open>TooLarge\<close> otherwise.
\<close>

definition writes :: "('s \<Rightarrow> bytes \<Rightarrow> 's) \<Rightarrow> bool \<Rightarrow> bytes \<Rightarrow> ('s \<Rightarrow> WireError + 's) \<Rightarrow> bool" where
  "writes snk ok xs f \<longleftrightarrow> (\<forall>s. f s = (if ok then Inr (snk s xs) else Inl TooLarge))"

locale byte_sink =
  fixes snk :: "'s \<Rightarrow> bytes \<Rightarrow> 's"
  assumes snk_nil: "snk s [] = s"
    and snk_append: "snk (snk s xs) ys = snk s (xs @ ys)"
begin

lemma writes_eok: "(\<And>s. h s = snk s xs) \<Longrightarrow> writes snk True xs (eok h)"
  by (simp add: writes_def eok_def)

lemma writes_Nil: "writes snk True [] (enc_seq [])"
  by (simp add: writes_def snk_nil)

lemma writes_Cons:
  assumes "writes snk a xs f" and "writes snk b ys (enc_seq fs)"
  shows "writes snk (a \<and> b) (xs @ ys) (enc_seq (f # fs))"
  using assms by (auto simp: writes_def ethen_def snk_append)

lemma writes_each:
  assumes "\<And>x. x \<in> set xs \<Longrightarrow> writes snk (ok x) (g x) (f x)"
  shows "writes snk (list_all ok xs) (concat (map g xs)) (enc_each f xs)"
  using assms
proof (induction xs)
  case Nil
  then show ?case by (simp add: enc_each_def writes_def snk_nil)
next
  case (Cons x xs)
  have "writes snk (list_all ok xs) (concat (map g xs)) (enc_seq (map f xs))"
    using Cons by (simp add: enc_each_def)
  then have "writes snk (ok x \<and> list_all ok xs) (g x @ concat (map g xs)) (enc_seq (f x # map f xs))"
    using Cons.prems by (intro writes_Cons) simp_all
  then show ?case by (simp add: enc_each_def writes_def)
qed

lemma writes_Inr: "writes snk ok xs f \<Longrightarrow> f s = Inr s' \<longleftrightarrow> ok \<and> s' = snk s xs"
  by (auto simp: writes_def)

end

interpretation vec: byte_sink "(@)"
  by unfold_locales auto

interpretation frame: byte_sink put
  by unfold_locales (auto simp: put_def)

section \<open>Encoder operations as appended fields\<close>

lemma put_put [simp, wire_simps]: "put (put e xs) ys = put e (xs @ ys)"
  by (simp add: put_def)

lemma en_bytes_put [simp, wire_simps]: "en_bytes (put e xs) = en_bytes e @ xs"
  by (simp add: put_def)

lemma enc_string_eq [wire_simps]:
  "enc_string v e = (if string_ok v then Inr (put e (string_field v)) else Inl TooLarge)"
  by (auto simp: enc_string_def string_field_def enc_i16_def MAX_STRING_LEN_def max_signed_def in_signed_def)

lemma enc_nullable_string_eq [wire_simps]:
  "enc_nullable_string v e =
     (if (case v of None \<Rightarrow> True | Some v \<Rightarrow> string_ok v) then Inr (put e (nullable_string_field v)) else Inl TooLarge)"
  by (auto simp: enc_nullable_string_def nullable_string_field_def enc_string_eq enc_i16_def split: option.splits)

lemma enc_bytes_eq [wire_simps]:
  "enc_bytes v e = (if length v \<le> MAX_FRAME_LEN then Inr (put e (bytes_field (Some v))) else Inl TooLarge)"
  by (auto simp: enc_bytes_def bytes_field_def enc_i32_def MAX_FRAME_LEN_def max_signed_def in_signed_def)

lemma enc_array_len_eq [wire_simps]:
  "enc_array_len n e = (if array_ok n then Inr (put e (array_len_field n)) else Inl TooLarge)"
  by (auto simp: enc_array_len_def array_len_field_def enc_i32_def MAX_ARRAY_LEN_def max_signed_def in_signed_def)

lemmas enc_ints [wire_simps] = enc_i8_def enc_i16_def enc_i32_def enc_i64_def enc_bool_def eok_def

section \<open>Properties\<close>

text \<open>
  Every encoder operation is inverted by the decoder operation of the same name. Appending
  a value fails with \<open>TooLarge\<close> exactly when it exceeds its bound; otherwise reading at
  the position where it was appended returns the value and stops right after it.
\<close>

lemma primitive_fields_round_trip:
  assumes "length (en_bytes e @ en_bytes e' @ rest) \<le> usize_max"
  shows "(in_i16 i \<longrightarrow> e' = enc_i16 i \<lparr>en_bytes = []\<rparr> \<longrightarrow>
            dec_i16 (at (en_bytes e) (en_bytes e' @ rest)) = Inr (i, at (en_bytes e @ en_bytes e') rest))
    \<and> (in_i32 i \<longrightarrow> e' = enc_i32 i \<lparr>en_bytes = []\<rparr> \<longrightarrow>
            dec_i32 (at (en_bytes e) (en_bytes e' @ rest)) = Inr (i, at (en_bytes e @ en_bytes e') rest))
    \<and> (in_i64 i \<longrightarrow> e' = enc_i64 i \<lparr>en_bytes = []\<rparr> \<longrightarrow>
            dec_i64 (at (en_bytes e) (en_bytes e' @ rest)) = Inr (i, at (en_bytes e @ en_bytes e') rest))
    \<and> (enc_string s \<lparr>en_bytes = []\<rparr> = Inl TooLarge \<longleftrightarrow> MAX_STRING_LEN < length s)
    \<and> (enc_string s \<lparr>en_bytes = []\<rparr> = Inr e' \<longrightarrow>
            string_bytes (at (en_bytes e) (en_bytes e' @ rest)) = Inr (s, at (en_bytes e @ en_bytes e') rest))
    \<and> (enc_nullable_string os \<lparr>en_bytes = []\<rparr> = Inr e' \<longrightarrow>
            nullable_string_bytes (at (en_bytes e) (en_bytes e' @ rest)) = Inr (os, at (en_bytes e @ en_bytes e') rest))
    \<and> (enc_bytes s \<lparr>en_bytes = []\<rparr> = Inr e' \<longrightarrow>
            dec_bytes (at (en_bytes e) (en_bytes e' @ rest)) = Inr (Some s, at (en_bytes e @ en_bytes e') rest))
    \<and> (enc_array_len n \<lparr>en_bytes = []\<rparr> = Inr e' \<longrightarrow>
            array_len (at (en_bytes e) (en_bytes e' @ rest)) = Inr (n, at (en_bytes e @ en_bytes e') rest))"
  using assms
  by (auto simp: enc_string_eq enc_nullable_string_eq enc_bytes_eq enc_array_len_eq enc_ints split: if_splits
      intro!: readsD str.field_reads nstr.field_reads nbytes.field_reads arrlen.field_reads
        i16.field_reads i32.field_reads i64.field_reads)

lemma string_field_example:
  "\<exists>e'. enc_string [107, 101, 121] \<lparr>en_bytes = []\<rparr> = Inr e' \<and> en_bytes e' = [0, 3, 107, 101, 121]
     \<and> string_bytes (at [] (en_bytes e' @ [9])) = Inr ([107, 101, 121], at (en_bytes e') [9])"
proof -
  let ?e = "\<lparr>en_bytes = [0, 3, 107, 101, 121]\<rparr> :: Encoder"
  have s: "enc_string [107, 101, 121] \<lparr>en_bytes = []\<rparr> = Inr ?e"
    by (simp add: enc_string_def MAX_STRING_LEN_def max_signed_def enc_i16_def put_def numeral_2_eq_2
        wrap_signed_def)
  show ?thesis
    using primitive_fields_round_trip [of "\<lparr>en_bytes = []\<rparr>" ?e "[9]", where s = "[107, 101, 121]"] s
    by (simp add: usize_max_def)
qed

text \<open>
  Zig-zag variable length integers round trip: every 32-bit value, written by \<open>put_varint\<close>
  in at most five bytes, and every 64-bit value, written by \<open>put_varlong\<close> in at most
  ten, is read back unchanged, wherever it stands in the input.
\<close>

lemma varints_round_trip:
  assumes "length (pre @ put_varlong v @ rest) \<le> usize_max" and "length (pre @ put_varint v @ rest) \<le> usize_max"
  shows "(in_i64 v \<longrightarrow> read_varlong (at pre (put_varlong v @ rest)) = Inr (v, at (pre @ put_varlong v) rest))
       \<and> (in_i32 v \<longrightarrow> read_varint (at pre (put_varint v @ rest)) = Inr (v, at (pre @ put_varint v) rest))
       \<and> length (put_varint v) \<in> {1..5} \<and> length (put_varlong v) \<in> {1..10}"
  using assms length_put_varint [of v] length_put_varlong [of v]
  by (auto simp: Suc_le_eq intro!: readsD vint.field_reads vlong.field_reads)

lemma varints_round_trip_example:
  "read_varlong (at [7] (put_varlong (- 300) @ [])) = Inr (- 300, at ([7] @ put_varlong (- 300)) [])"
  using varints_round_trip [of "[7]" "- 300" "[]"] length_put_varint [of "- 300"] length_put_varlong [of "- 300"]
  by (simp add: usize_max_def in_signed_def)

text \<open>
  C35: reading is memory safe. No reading operation of the decoder changes the slice, moves
  backwards or, from a position inside the slice, past its end, whatever bytes it is given;
  a fixed-size or length-prefixed field consumes at least its size or prefix.
\<close>

theorem readers_stay_in_bounds:
  "advances n (dec_take n) \<and> advances 1 dec_i8 \<and> advances 2 dec_i16 \<and> advances 4 dec_i32 \<and> advances 8 dec_i64
   \<and> advances 2 string_bytes \<and> advances 2 nullable_string_bytes \<and> advances 4 dec_bytes
   \<and> advances 4 array_len \<and> advances 4 nullable_array_len \<and> advances 1 read_varint \<and> advances 1 read_varlong"
  by (intro conjI advances_take advances_ints advances_fields advances_varints)

end
