(* ===== verification/Record_Batch.thy ===== *)
theory Record_Batch
  imports Wire_Codec Partition_Log
begin

text \<open>
  Kafka record batches, \<^verbatim>\<open>crates/broker-wire/src/record_batch.rs\<close>: the version 2 batch the
  broker writes into fetch responses and reads from produce requests, the legacy message sets it
  accepts, and their checksums.

  The decoding loops consume the input; \<open>v2_loop\<close> and \<open>legacy_loop\<close> are total functions
  with the remaining input as their measure.
\<close>

section \<open>Checksums\<close>

definition crc_bit :: "32 word \<Rightarrow> 32 word \<Rightarrow> 32 word" where
  "crc_bit poly crc = (if crc AND 1 \<noteq> 0 then drop_bit 1 crc XOR poly else drop_bit 1 crc)"

definition crc_byte :: "32 word \<Rightarrow> 32 word \<Rightarrow> byte \<Rightarrow> 32 word" where
  "crc_byte poly crc b = (crc_bit poly ^^ 8) (crc XOR ucast b)"

definition crc32c :: "bytes \<Rightarrow> 32 word" where
  "crc32c bs = NOT (foldl (crc_byte 0x82f63b78) (NOT 0) bs)"

definition crc32_ieee :: "bytes \<Rightarrow> 32 word" where
  "crc32_ieee bs = NOT (foldl (crc_byte 0xedb88320) (NOT 0) bs)"

section \<open>Encoding\<close>

record DecodedRecordBatch =
  db_records :: "RecordData list"
  db_producer :: "(int \<times> int) option"

definition write_optional_bytes :: "bytes option \<Rightarrow> bytes \<Rightarrow> WireError + bytes" where
  "write_optional_bytes v output =
     (case v of
        Some v \<Rightarrow>
          if int (length v) > max_signed 32 then Inl TooLarge
          else Inr (output @ put_varint (int (length v)) @ v)
      | None \<Rightarrow> Inr (output @ put_varint (- 1)))"

text \<open>One turn of the encoding loop: the record's body, then its length and the body appended.\<close>

definition encode_record :: "int \<Rightarrow> int \<Rightarrow> Record \<Rightarrow> bytes \<Rightarrow> WireError + bytes" where
  "encode_record first_timestamp base_offset r encoded_records =
     (case enc_seq
        [eok (\<lambda>body. body @ [0]),
         eok (\<lambda>body. body @ put_varlong (sat_sub 64 (rec_timestamp_ms r) first_timestamp)),
         eok (\<lambda>body. body @ put_varint (wrap_signed 32 (wrap_signed 64 (rec_offset r - base_offset)))),
         write_optional_bytes (rec_key r),
         write_optional_bytes (rec_value r),
         eok (\<lambda>body. body @ put_varint 0)] [] of
        Inl e \<Rightarrow> Inl e
      | Inr body \<Rightarrow>
          Inr (encoded_records @ put_varint (wrap_signed 32 (int (length body))) @ body))"

definition max_timestamp :: "Record list \<Rightarrow> int" where
  "max_timestamp rs = foldl max (rec_timestamp_ms (hd rs)) (map rec_timestamp_ms (tl rs))"

definition encode_record_batch :: "int \<Rightarrow> Record list \<Rightarrow> WireError + bytes" where
  "encode_record_batch base_offset records =
     (if records = [] \<or> length records > MAX_RECORDS then Inl Invalid
      else
        let first_timestamp = rec_timestamp_ms (hd records) in
        case enc_each (encode_record first_timestamp base_offset) records [] of
          Inl e \<Rightarrow> Inl e
        | Inr encoded_records \<Rightarrow>
            let body = be_bytes 4 (- 1) @ [2] @ be_bytes 4 0 @ be_bytes 2 0
                  @ be_bytes 4 (int (length records) - 1)
                  @ be_bytes 8 first_timestamp @ be_bytes 8 (max_timestamp records)
                  @ be_bytes 8 (- 1) @ be_bytes 2 (- 1) @ be_bytes 4 (- 1)
                  @ be_bytes 4 (int (length records)) @ encoded_records;
                crc = crc32c (drop 9 body);
                body = take 5 body @ be_bytes 4 (uint crc) @ drop 9 body;
                batch = be_bytes 8 base_offset @ be_bytes 4 (wrap_signed 32 (int (length body))) @ body
            in if length batch > MAX_FRAME_LEN then Inl TooLarge else Inr batch)"

section \<open>Decoding version 2 batches\<close>

definition read_optional_bytes :: "int \<Rightarrow> bytes option reader" where
  "read_optional_bytes len =
     (if len = - 1 then dreturn None
      else if len \<ge> 0 then dbind (dec_take (nat len)) (\<lambda>v. dreturn (Some v))
      else dfail Invalid)"

definition expect_done :: "unit reader" where
  "expect_done d = (if \<not> dec_done d then Inl Invalid else Inr ((), d))"

text \<open>Running a reader on a decoder of its own, as the source does for nested slices.\<close>

definition run_on :: "bytes \<Rightarrow> 'a reader \<Rightarrow> 'a reader" where
  "run_on bs f d = (case f (dec_new bs) of Inl e \<Rightarrow> Inl e | Inr (v, d') \<Rightarrow> Inr (v, d))"

definition skip_header :: "unit reader" where
  "skip_header = dbind read_varint (\<lambda>header_key_len.
     if header_key_len < 0 then dfail Invalid
     else dbind (dec_take (nat header_key_len)) (\<lambda>_.
       dbind read_varint (\<lambda>header_value_len.
         if header_value_len \<ge> 0 then dbind (dec_take (nat header_value_len)) (\<lambda>_. dreturn ())
         else if header_value_len \<noteq> - 1 then dfail Invalid
         else dreturn ())))"

definition record_fields :: "int \<Rightarrow> RecordData reader" where
  "record_fields first_timestamp =
     dbind dec_i8 (\<lambda>_.
     dbind read_varlong (\<lambda>timestamp_delta.
     dbind read_varint (\<lambda>_.
     dbind read_varint (\<lambda>key_len.
     dbind (read_optional_bytes key_len) (\<lambda>key.
     dbind read_varint (\<lambda>value_len.
     dbind (read_optional_bytes value_len) (\<lambda>val.
     dbind read_varint (\<lambda>headers.
       if headers < 0 \<or> nat headers > MAX_ARRAY_LEN then dfail Invalid
       else dbind (dec_times (nat headers) skip_header) (\<lambda>_.
            dbind expect_done (\<lambda>_.
              dreturn \<lparr>rd_timestamp_ms = sat_add 64 first_timestamp timestamp_delta,
                       rd_key = key, rd_value = val\<rparr>))))))))))"

definition read_record :: "int \<Rightarrow> RecordData reader" where
  "read_record first_timestamp = dbind read_varint (\<lambda>len.
     if len < 0 then dfail Invalid
     else dbind (dec_take (nat len)) (\<lambda>body. run_on body (record_fields first_timestamp)))"

definition batch_fields ::
  "bytes \<Rightarrow> (int \<times> int) option \<Rightarrow> (RecordData list \<times> (int \<times> int) option) reader" where
  "batch_fields batch identity =
     dbind dec_i32 (\<lambda>_.
     dbind dec_i8 (\<lambda>magic.
       if magic \<noteq> 2 then dfail UnsupportedVersion else
     dbind dec_i32 (\<lambda>expected_crc.
       if crc32c (drop 9 batch) \<noteq> word_of_int expected_crc then dfail Checksum else
     dbind dec_i16 (\<lambda>attributes.
       let attr = word_of_int attributes :: 16 word in
       if attr AND 0x07 \<noteq> 0 \<or> attr AND 0x20 \<noteq> 0 then dfail UnsupportedVersion else
     dbind dec_i32 (\<lambda>_.
     dbind dec_i64 (\<lambda>first_timestamp.
     dbind dec_i64 (\<lambda>_.
     dbind dec_i64 (\<lambda>producer_id.
     dbind dec_i16 (\<lambda>producer_epoch.
     dbind dec_i32 (\<lambda>_.
     dbind dec_i32 (\<lambda>count.
       if count < 0 \<or> nat count > MAX_RECORDS then dfail TooLarge
       else if attr AND 0x10 \<noteq> 0 \<and> identity \<noteq> None \<and> identity \<noteq> Some (producer_id, producer_epoch)
       then dfail Invalid
       else
         let identity = (if attr AND 0x10 \<noteq> 0 then Some (producer_id, producer_epoch) else identity) in
         dbind (dec_times (nat count) (read_record first_timestamp)) (\<lambda>records.
         dbind expect_done (\<lambda>_. dreturn (records, identity))))))))))))))"

definition decode_batch :: "(int \<times> int) option \<Rightarrow> (RecordData list \<times> (int \<times> int) option) reader" where
  "decode_batch identity d =
     (if dec_remaining d < 12 then Inl Incomplete
      else dbind dec_i64 (\<lambda>_. dbind dec_i32 (\<lambda>batch_len.
             if batch_len < 49 then dfail Invalid
             else dbind (dec_take (nat batch_len)) (\<lambda>batch. run_on batch (batch_fields batch identity)))) d)"

lemma advances_run_on: "advances 0 (run_on bs f)"
  by (auto simp: advances_def run_on_def split: sum.splits prod.splits)

lemma advances_decode_batch: "advances 12 (decode_batch identity)"
proof -
  have "advances (8 + (4 + 0)) (dbind dec_i64 (\<lambda>_. dbind dec_i32 (\<lambda>batch_len.
      if batch_len < 49 then dfail Invalid
      else dbind (dec_take (nat batch_len)) (\<lambda>batch. run_on batch (batch_fields batch identity)))))"
    by (intro advances_bind advances_ints advances_if advances_fail advances_run_on
        advances_bind0 advances_take0)
  then show ?thesis
    by (auto simp: advances_def decode_batch_def split: if_splits)
qed

function v2_loop :: "Decoder \<Rightarrow> RecordData list \<Rightarrow> (int \<times> int) option \<Rightarrow> WireError + DecodedRecordBatch" where
  "v2_loop d records identity =
     (if dec_done d then Inr \<lparr>db_records = records, db_producer = identity\<rparr>
      else case decode_batch identity d of
        Inl e \<Rightarrow> Inl e
      | Inr ((rs, identity'), d') \<Rightarrow> v2_loop d' (records @ rs) identity')"
  by pat_completeness auto
termination
proof (relation "measure (\<lambda>(d, _, _). length (dc_bytes d) - dc_offset d)")
  fix d records identity r p d' rs identity'
  assume "\<not> dec_done d" and "decode_batch identity d = Inr r" and "(p, d') = r" and "(rs, identity') = p"
  then have db: "decode_batch identity d = Inr ((rs, identity'), d')" by simp
  then have "12 \<le> length (dc_bytes d) - dc_offset d"
    by (auto simp: decode_batch_def dec_remaining_def split: if_splits)
  then show "((d', records @ rs, identity'), d, records, identity) \<in>
      measure (\<lambda>(d, _, _). length (dc_bytes d) - dc_offset d)"
    using advancesD [OF advances_decode_batch db] by auto
qed simp

declare v2_loop.simps [simp del]

definition decode_v2_record_set :: "bytes \<Rightarrow> WireError + DecodedRecordBatch" where
  "decode_v2_record_set bs = (if bs = [] then Inl Invalid else v2_loop (dec_new bs) [] None)"

section \<open>Decoding legacy message sets\<close>

definition slice_get :: "bytes \<Rightarrow> nat \<Rightarrow> nat \<Rightarrow> bytes option" where
  "slice_get bs start till =
     (if start \<le> till \<and> till \<le> length bs then Some (take (till - start) (drop start bs)) else None)"

definition legacy_optional_bytes :: "bytes \<Rightarrow> nat \<Rightarrow> WireError + bytes option \<times> nat" where
  "legacy_optional_bytes message cursor =
     (case slice_get message cursor (cursor + 4) of
        None \<Rightarrow> Inl Incomplete
      | Some bs \<Rightarrow>
          let len = be_int 4 bs; cursor = cursor + 4 in
          if len = - 1 then Inr (None, cursor)
          else if len < 0 then Inl Invalid
          else case slice_get message cursor (cursor + nat len) of
            None \<Rightarrow> Inl Incomplete
          | Some v \<Rightarrow> Inr (Some v, cursor + nat len))"

text \<open>One message, after its size has been checked to be at least fourteen.\<close>

definition legacy_message :: "bytes \<Rightarrow> WireError + RecordData" where
  "legacy_message message =
     (let expected_crc = word_of_int (be_uint (take 4 message)) :: 32 word in
      if crc32_ieee (drop 4 message) \<noteq> expected_crc then Inl Checksum
      else let magic = message ! 4; attributes = message ! 5 in
      if magic > 1 then Inl UnsupportedVersion
      else if attributes AND 0x07 \<noteq> 0 then Inl UnsupportedVersion
      else case (if magic = 1
                 then (case slice_get message 6 14 of
                         None \<Rightarrow> Inl Incomplete
                       | Some bs \<Rightarrow> Inr (be_int 8 bs, 14))
                 else Inr (0, 6)) of
        Inl e \<Rightarrow> Inl e
      | Inr (timestamp_ms, cursor) \<Rightarrow>
      (case legacy_optional_bytes message cursor of
        Inl e \<Rightarrow> Inl e
      | Inr (key, cursor) \<Rightarrow>
      (case legacy_optional_bytes message cursor of
        Inl e \<Rightarrow> Inl e
      | Inr (val, cursor) \<Rightarrow>
          if cursor \<noteq> length message then Inl Invalid
          else Inr \<lparr>rd_timestamp_ms = timestamp_ms, rd_key = key, rd_value = val\<rparr>)))"

definition decode_message :: "RecordData reader" where
  "decode_message =
     dbind dec_i64 (\<lambda>_.
     dbind dec_i32 (\<lambda>message_size.
       if message_size < 14 then dfail Invalid
       else dbind (dec_take (nat message_size)) (\<lambda>message d.
              case legacy_message message of Inl e \<Rightarrow> Inl e | Inr r \<Rightarrow> Inr (r, d))))"

lemma advances_decode_message: "advances 12 decode_message"
proof -
  have "advances 0 (\<lambda>d. case legacy_message message of Inl e \<Rightarrow> Inl e | Inr r \<Rightarrow> Inr (r, d))" for message
    by (auto simp: advances_def split: sum.splits)
  then have "advances (8 + (4 + 0)) decode_message"
    unfolding decode_message_def
    by (intro advances_bind advances_ints advances_if advances_fail advances_bind0 advances_take0)
  then show ?thesis by simp
qed

function legacy_loop :: "Decoder \<Rightarrow> RecordData list \<Rightarrow> WireError + RecordData list" where
  "legacy_loop d records =
     (if dec_done d then Inr records
      else case decode_message d of
        Inl e \<Rightarrow> Inl e
      | Inr (r, d') \<Rightarrow> legacy_loop d' (records @ [r]))"
  by pat_completeness auto
termination
proof (relation "measure (\<lambda>(d, _). length (dc_bytes d) - dc_offset d)")
  fix d records p r d'
  assume "decode_message d = Inr p" and "(r, d') = p"
  then have dm: "decode_message d = Inr (r, d')" by simp
  then have "dc_offset d < length (dc_bytes d)"
    by (auto simp: decode_message_def dec_i64_def dbind_def dec_take_def Let_def split: if_splits)
  then show "((d', records @ [r]), d, records) \<in> measure (\<lambda>(d, _). length (dc_bytes d) - dc_offset d)"
    using advancesD [OF advances_decode_message dm] by auto
qed simp

declare legacy_loop.simps [simp del]

definition decode_legacy_message_set :: "bytes \<Rightarrow> WireError + RecordData list" where
  "decode_legacy_message_set bs = legacy_loop (dec_new bs) []"

definition decode_record_batches_with_identity :: "bytes \<Rightarrow> WireError + DecodedRecordBatch" where
  "decode_record_batches_with_identity bs =
     (if bs = [] then Inl Invalid
      else if length bs > 16 \<and> bs ! 16 = 2 then decode_v2_record_set bs
      else if length bs > 16 \<and> (bs ! 16 = 0 \<or> bs ! 16 = 1) then
        (case decode_legacy_message_set bs of
           Inl e \<Rightarrow> Inl e
         | Inr records \<Rightarrow> Inr \<lparr>db_records = records, db_producer = None\<rparr>)
      else Inl UnsupportedVersion)"

definition decode_record_batches :: "bytes \<Rightarrow> WireError + RecordData list" where
  "decode_record_batches bs =
     (case decode_record_batches_with_identity bs of Inl e \<Rightarrow> Inl e | Inr b \<Rightarrow> Inr (db_records b))"

section \<open>Checksum lemmas\<close>

text \<open>
  With the top bit of the polynomial set, one step of the shift register is injective, so
  a register that differs once differs for ever.
\<close>

lemma xor_cancel: "a XOR c = b XOR c \<longleftrightarrow> a = b" for a b c :: "'a::len word"
proof
  assume "a XOR c = b XOR c"
  then have "(a XOR c) XOR c = (b XOR c) XOR c" by (rule arg_cong)
  then show "a = b" by (simp only: xor.assoc xor_self_eq xor.right_neutral)
qed simp

lemma crc_bit_inj:
  assumes "bit poly 31"
  shows "inj (crc_bit poly)"
proof (rule injI)
  fix a b :: "32 word"
  assume eq: "crc_bit poly a = crc_bit poly b"
  have no: "\<not> bit c 32" for c :: "32 word"
    using bit_imp_le_length [of c 32] by auto
  have top: "bit (crc_bit poly c) 31 \<longleftrightarrow> odd c" for c
    using assms no [of c] by (auto simp: crc_bit_def bit_simps and_one_eq mod_2_eq_odd)
  then have low: "odd a \<longleftrightarrow> odd b" using eq by metis
  then have d: "drop_bit 1 a = drop_bit 1 b"
    using eq unfolding crc_bit_def and_one_eq mod_2_eq_odd by (auto simp: xor_cancel)
  show "a = b"
  proof (rule bit_word_eqI)
    fix n
    show "bit a n = bit b n"
    proof (cases n)
      case (Suc m)
      have "bit (drop_bit 1 a) m = bit (drop_bit 1 b) m" using d by simp
      then show ?thesis using Suc by (simp add: bit_drop_bit_eq)
    qed (use low in \<open>simp add: bit_0\<close>)
  qed
qed

lemma crc_bits_inj: "bit poly 31 \<Longrightarrow> (crc_bit poly ^^ n) a = (crc_bit poly ^^ n) b \<Longrightarrow> a = b"
  using injD [OF inj_fn [OF crc_bit_inj]] by blast

lemma crc_byte_inj: "bit poly 31 \<Longrightarrow> crc_byte poly a x = crc_byte poly b x \<Longrightarrow> a = b"
  unfolding crc_byte_def by (drule (1) crc_bits_inj) (simp only: xor_cancel)

lemma crc_byte_diff: "bit poly 31 \<Longrightarrow> crc_byte poly a x = crc_byte poly a y \<Longrightarrow> x = y"
proof -
  assume "bit poly 31" and "crc_byte poly a x = crc_byte poly a y"
  then have "a XOR ucast x = a XOR ucast y"
    unfolding crc_byte_def by (rule crc_bits_inj)
  then have u: "ucast x = (ucast y :: 32 word)"
    unfolding xor.commute [of a] by (simp only: xor_cancel)
  show "x = y"
  proof (rule bit_word_eqI)
    fix n :: nat assume "n < LENGTH(8)"
    then show "bit x n = bit y n"
      using arg_cong [OF u, of "\<lambda>w. bit w n"] by (simp add: bit_simps)
  qed
qed

lemma crc_fold_inj: "bit poly 31 \<Longrightarrow> foldl (crc_byte poly) a xs = foldl (crc_byte poly) b xs \<Longrightarrow> a = b"
proof (induction xs rule: rev_induct)
  case (snoc x xs)
  then show ?case using crc_byte_inj by simp
qed simp

lemma crc_detects_change:
  assumes "bit poly 31" and "i < length xs" and "x \<noteq> xs ! i"
  shows "foldl (crc_byte poly) c (xs[i := x]) \<noteq> foldl (crc_byte poly) c xs"
proof
  let ?a = "foldl (crc_byte poly) c (take i xs)"
  assume "foldl (crc_byte poly) c (xs[i := x]) = foldl (crc_byte poly) c xs"
  moreover have "xs[i := x] = take i xs @ x # drop (Suc i) xs" "xs = take i xs @ xs ! i # drop (Suc i) xs"
    using assms(2) by (simp_all add: upd_conv_take_nth_drop id_take_nth_drop)
  ultimately have "foldl (crc_byte poly) (crc_byte poly ?a x) (drop (Suc i) xs)
      = foldl (crc_byte poly) (crc_byte poly ?a (xs ! i)) (drop (Suc i) xs)"
    by (metis foldl_Cons foldl_append)
  then show False
    using crc_fold_inj [OF assms(1)] crc_byte_diff [OF assms(1)] assms(3) by blast
qed

lemma crc32c_detects_change:
  assumes "i < length xs" and "x \<noteq> xs ! i"
  shows "crc32c (xs[i := x]) \<noteq> crc32c xs"
proof -
  have "bit (0x82f63b78 :: 32 word) 31" by simp
  from crc_detects_change [OF this assms] show ?thesis
    unfolding crc32c_def by simp
qed

end
