(* ===== verification/Record_Batch_Laws.thy ===== *)
theory Record_Batch_Laws
  imports Record_Batch Log_Fetch
begin

text \<open>
  What record batches promise: batches written by the broker are read back, also several in a
  row; a damaged byte is detected; the log's size accounting bounds the encoding; and decoding
  never produces more records than bytes. \<open>batch_bytes\<close> is the layout the encoder produces.
\<close>

section \<open>The layout of a batch\<close>

definition opt_len :: "bytes option \<Rightarrow> int" where
  "opt_len v = (case v of None \<Rightarrow> - 1 | Some v \<Rightarrow> int (length v))"

definition opt_payload :: "bytes option \<Rightarrow> bytes" where
  "opt_payload v = (case v of None \<Rightarrow> [] | Some v \<Rightarrow> v)"

definition record_body :: "int \<Rightarrow> int \<Rightarrow> Record \<Rightarrow> bytes" where
  "record_body first base r =
     [0] @ put_varlong (sat_sub 64 (rec_timestamp_ms r) first)
     @ put_varint (wrap_signed 32 (wrap_signed 64 (rec_offset r - base)))
     @ put_varint (opt_len (rec_key r)) @ opt_payload (rec_key r)
     @ put_varint (opt_len (rec_value r)) @ opt_payload (rec_value r) @ put_varint 0"

definition record_bytes :: "int \<Rightarrow> int \<Rightarrow> Record \<Rightarrow> bytes" where
  "record_bytes first base r =
     put_varint (wrap_signed 32 (int (length (record_body first base r)))) @ record_body first base r"

definition payloads_ok :: "Record \<Rightarrow> bool" where
  "payloads_ok r \<longleftrightarrow> opt_len (rec_key r) \<le> max_signed 32 \<and> opt_len (rec_value r) \<le> max_signed 32"

definition covered_bytes :: "int \<Rightarrow> Record list \<Rightarrow> bytes" where
  "covered_bytes base rs =
     be_bytes 2 0 @ be_bytes 4 (int (length rs) - 1) @ be_bytes 8 (rec_timestamp_ms (hd rs))
     @ be_bytes 8 (max_timestamp rs) @ be_bytes 8 (- 1) @ be_bytes 2 (- 1) @ be_bytes 4 (- 1)
     @ be_bytes 4 (int (length rs)) @ concat (map (record_bytes (rec_timestamp_ms (hd rs)) base) rs)"

definition body_bytes :: "int \<Rightarrow> Record list \<Rightarrow> bytes" where
  "body_bytes base rs =
     be_bytes 4 (- 1) @ [2] @ be_bytes 4 (uint (crc32c (covered_bytes base rs))) @ covered_bytes base rs"

definition batch_bytes :: "int \<Rightarrow> Record list \<Rightarrow> bytes" where
  "batch_bytes base rs =
     be_bytes 8 base @ be_bytes 4 (wrap_signed 32 (int (length (body_bytes base rs)))) @ body_bytes base rs"

lemma write_optional_eq:
  "write_optional_bytes v output =
     (if opt_len v \<le> max_signed 32 then Inr (output @ put_varint (opt_len v) @ opt_payload v) else Inl TooLarge)"
  by (auto simp: write_optional_bytes_def opt_len_def opt_payload_def max_signed_def split: option.splits)

lemma writes_record:
  "writes (@) (payloads_ok r) (record_bytes first base r) (encode_record first base r)"
  by (simp add: writes_def encode_record_def record_bytes_def record_body_def payloads_ok_def
      ethen_def eok_def write_optional_eq)

lemma encode_record_batch_eq:
  "encode_record_batch base rs =
     (if rs = [] \<or> length rs > MAX_RECORDS then Inl Invalid
      else if \<not> list_all payloads_ok rs \<or> length (batch_bytes base rs) > MAX_FRAME_LEN then Inl TooLarge
      else Inr (batch_bytes base rs))"
proof -
  have "enc_each (encode_record (rec_timestamp_ms (hd rs)) base) rs [] =
      (if list_all payloads_ok rs
       then Inr (concat (map (record_bytes (rec_timestamp_ms (hd rs)) base) rs)) else Inl TooLarge)"
    using vec.writes_each [OF writes_record, where xs = rs] by (simp add: writes_def)
  then show ?thesis
    by (simp add: encode_record_batch_def batch_bytes_def body_bytes_def covered_bytes_def Let_def)
qed

section \<open>Reading a batch back\<close>

lemma reads_optional: "opt_len v \<le> max_signed 32 \<Longrightarrow> reads (read_optional_bytes (opt_len v)) (opt_payload v) v"
  using reads_bind_return [OF reads_take, of _ Some]
  by (auto simp: read_optional_bytes_def opt_len_def opt_payload_def reads_return split: option.splits)

lemma reads_exact_done: "reads (k ()) [] v \<Longrightarrow> reads_exact (dbind expect_done k) [] v"
  by (simp add: reads_exact_def dbind_def expect_done_def) (simp add: reads_def)

lemma reads_run_on: "reads_exact f bs v \<Longrightarrow> length bs \<le> usize_max \<Longrightarrow> reads (run_on bs f) [] v"
  by (simp add: reads_def run_on_def reads_exact_new)

lemma opt_len_ok: "opt_len v \<le> max_signed 32 \<Longrightarrow> in_i32 (opt_len v)"
  by (auto simp: opt_len_def in_signed_def max_signed_def split: option.splits)

definition delta_ok :: "int \<Rightarrow> Record \<Rightarrow> bool" where
  "delta_ok first r \<longleftrightarrow> in_i64 (rec_timestamp_ms r) \<and> in_i64 (rec_timestamp_ms r - first)"

lemma record_fields_exact:
  assumes "payloads_ok r" and "delta_ok first r"
  shows "reads_exact (record_fields first) (record_body first base r) (data_from_record r)"
proof -
  have z: "reads dec_i8 [0] 0" using reads_i8 [of 0] by (simp add: in_signed_def)
  have d: "sat_add 64 first (sat_sub 64 (rec_timestamp_ms r) first) = rec_timestamp_ms r"
    using assms(2) by (simp add: delta_ok_def)
  have h: "reads read_varint (put_varint 0) 0" by (rule vint.field_reads) (simp add: in_signed_def)
  have fin: "reads_exact (dbind (dec_times (nat 0) skip_header) (\<lambda>_. dbind expect_done (\<lambda>_.
      dreturn \<lparr>rd_timestamp_ms = sat_add 64 first (sat_sub 64 (rec_timestamp_ms r) first),
               rd_key = rec_key r, rd_value = rec_value r\<rparr>))) [] (data_from_record r)"
    unfolding d by (rule reads_exact_bind [where xs = "[]" and v = "[]" and ys = "[]", simplified])
      (auto simp: data_from_record_def reads_return intro!: reads_exact_done)
  have "reads_exact (dbind read_varint (\<lambda>headers. if headers < 0 \<or> nat headers > MAX_ARRAY_LEN then dfail Invalid
      else dbind (dec_times (nat headers) skip_header) (\<lambda>_. dbind expect_done (\<lambda>_.
        dreturn \<lparr>rd_timestamp_ms = sat_add 64 first (sat_sub 64 (rec_timestamp_ms r) first),
               rd_key = rec_key r, rd_value = rec_value r\<rparr>)))) (put_varint 0) (data_from_record r)"
    by (rule reads_exact_bind [OF h, where ys = "[]", simplified]) (use fin in simp)
  then show ?thesis
    unfolding record_fields_def record_body_def
    using assms(1) unfolding payloads_ok_def
    by (intro reads_exact_bind [OF z] reads_exact_bind [OF vlong.field_reads] reads_exact_bind [OF vint.field_reads]
        reads_exact_bind [OF reads_optional])
      (auto intro: opt_len_ok)
qed

lemma reads_record:
  assumes "payloads_ok r" and "delta_ok first r" and "int (length (record_body first base r)) \<le> max_signed 32"
  shows "reads (read_record first) (record_bytes first base r) (data_from_record r)"
proof -
  let ?b = "record_body first base r"
  have len: "in_i32 (int (length ?b))" "length ?b \<le> usize_max"
    using assms(3) by (auto simp: in_signed_def max_signed_def usize_max_def)
  have "reads (dbind (dec_take (length ?b)) (\<lambda>body. run_on body (record_fields first))) (?b @ []) (data_from_record r)"
    by (rule reads_bind [OF reads_take]) (rule reads_run_on [OF record_fields_exact [OF assms(1,2)] len(2)])
  then show ?thesis
    unfolding read_record_def record_bytes_def
    using len by (intro reads_bind [OF vint.field_reads]) simp_all
qed

lemma reads_records:
  assumes "list_all (\<lambda>r. payloads_ok r \<and> delta_ok first r \<and> int (length (record_body first base r)) \<le> max_signed 32) rs"
  shows "reads (dec_times (length rs) (read_record first)) (concat (map (record_bytes first base) rs))
           (map data_from_record rs)"
  using assms by (intro reads_times) (auto simp: list_all_iff intro: reads_record)

definition batch_ok_to_send :: "Record list \<Rightarrow> bool" where
  "batch_ok_to_send rs \<longleftrightarrow> list_all (\<lambda>r. delta_ok (rec_timestamp_ms (hd rs)) r) rs"

lemma body_bytes_length: "length (body_bytes base rs) =
    49 + length (concat (map (record_bytes (rec_timestamp_ms (hd rs)) base) rs))"
  by (simp add: body_bytes_def covered_bytes_def)

lemma record_body_small:
  assumes "int (length (body_bytes base rs)) \<le> max_signed 32" and "r \<in> set rs"
  shows "int (length (record_body (rec_timestamp_ms (hd rs)) base r)) \<le> max_signed 32"
proof -
  let ?t = "rec_timestamp_ms (hd rs)"
  have "length (record_body ?t base r) \<le> length (record_bytes ?t base r)" by (simp add: record_bytes_def)
  also have "\<dots> \<le> length (concat (map (record_bytes ?t base) rs))"
    using assms(2) by (auto simp: length_concat intro: member_le_sum_list)
  finally show ?thesis using assms(1) by (simp add: body_bytes_length)
qed

lemma batch_fields_exact:
  assumes "rs \<noteq> []" and "length rs \<le> MAX_RECORDS" and "list_all payloads_ok rs" and "batch_ok_to_send rs"
    and small: "int (length (body_bytes base rs)) \<le> max_signed 32"
  shows "reads_exact (batch_fields (body_bytes base rs) identity) (body_bytes base rs)
           (map data_from_record rs, identity)"
proof -
  let ?t = "rec_timestamp_ms (hd rs)"
  have ts: "in_i64 ?t" using assms(1,4) by (cases rs) (auto simp: batch_ok_to_send_def delta_ok_def)
  have n: "in_i32 (int (length rs))" using assms(2) by (simp add: in_signed_def MAX_RECORDS_def)
  have "int (length (record_body ?t base r)) \<le> max_signed 32" if "r \<in> set rs" for r
    by (rule record_body_small [OF small that])
  then have recs: "reads (dec_times (length rs) (read_record ?t)) (concat (map (record_bytes ?t base) rs)) (map data_from_record rs)"
    using assms(3,4) by (intro reads_records) (auto simp: batch_ok_to_send_def list_all_iff)
  have magic: "reads dec_i8 [2] 2" using reads_i8 [of 2] by (simp add: in_signed_def)
  have crc: "reads dec_i32 (be_bytes 4 (uint c)) (wrap_signed 32 (uint c))" for c :: "32 word"
    using reads_be_any [of 4] by (simp add: dec_i32_def)
  have crc_eq: "word_of_int (wrap_signed 32 (uint c)) = c" for c :: "32 word"
    using word_of_wrap_signed [of "uint c", where 'a = 32] by simp
  have any64: "reads dec_i64 (be_bytes 8 x) (wrap_signed 64 x)" for x
    using reads_be_any [of 8] by (simp add: dec_i64_def)
  have any32: "reads dec_i32 (be_bytes 4 x) (wrap_signed 32 x)" for x
    using reads_be_any [of 4] by (simp add: dec_i32_def)
  have cov: "drop 9 (body_bytes base rs) = covered_bytes base rs" by (simp add: body_bytes_def)
  have fin: "reads_exact (dbind (dec_times (length rs) (read_record ?t)) (\<lambda>records. dbind expect_done (\<lambda>_. dreturn (records, identity))))
      (concat (map (record_bytes ?t base) rs) @ []) (map data_from_record rs, identity)"
    by (intro reads_exact_bind [OF recs] reads_exact_done reads_return)
  show ?thesis
    unfolding batch_fields_def cov
    unfolding body_bytes_def covered_bytes_def
    apply (rule reads_exact_bind [OF any32])
    apply (rule reads_exact_bind [OF magic], simp only: simp_thms if_False)
    apply (rule reads_exact_bind [OF crc], simp only: crc_eq simp_thms if_False)
    apply (rule reads_exact_bind [OF reads_i16 [of 0]], simp add: in_signed_def)
    apply (simp add: Let_def)
    apply (rule reads_exact_bind [OF any32])
    apply (rule reads_exact_bind [OF reads_i64 [OF ts]])
    apply (rule reads_exact_bind [OF any64])
    apply (rule reads_exact_bind [OF any64])
    apply (rule reads_exact_bind [OF reads_i16 [of "- 1"]], simp add: in_signed_def)
    apply (rule reads_exact_bind [OF any32])
    apply (rule reads_exact_bind [OF reads_i32 [OF n]])
    using fin assms(2) by simp
qed

definition sendable :: "int \<Rightarrow> Record list \<Rightarrow> bool" where
  "sendable base rs \<longleftrightarrow> rs \<noteq> [] \<and> length rs \<le> MAX_RECORDS \<and> list_all payloads_ok rs
     \<and> length (batch_bytes base rs) \<le> MAX_FRAME_LEN"

lemma encode_Inr: "encode_record_batch base rs = Inr bs \<longleftrightarrow> sendable base rs \<and> bs = batch_bytes base rs"
  by (auto simp: encode_record_batch_eq sendable_def)

lemma body_small:
  assumes "sendable base rs"
  shows "int (length (body_bytes base rs)) \<le> max_signed 32" "in_i32 (int (length (body_bytes base rs)))"
    "length (body_bytes base rs) \<le> usize_max" "49 \<le> length (body_bytes base rs)"
  using assms
  by (auto simp: sendable_def batch_bytes_def MAX_FRAME_LEN_def max_signed_def in_signed_def usize_max_def body_bytes_length)

text \<open>The frame around a batch body, whatever the body holds.\<close>

lemma reads_framed:
  assumes "int (length body) \<le> max_signed 32" and "49 \<le> length body"
    and "reads_exact (batch_fields body identity) body v"
  shows "reads (dbind dec_i64 (\<lambda>_. dbind dec_i32 (\<lambda>batch_len.
      if batch_len < 49 then dfail Invalid
      else dbind (dec_take (nat batch_len)) (\<lambda>batch. run_on batch (batch_fields batch identity)))))
    (be_bytes 8 base @ be_bytes 4 (wrap_signed 32 (int (length body))) @ body) v"
proof -
  have l: "in_i32 (int (length body))" "length body \<le> usize_max"
    using assms(1) by (auto simp: in_signed_def max_signed_def usize_max_def)
  have i64: "reads dec_i64 (be_bytes 8 base) (wrap_signed 64 base)"
    using reads_be_any [of 8] by (simp add: dec_i64_def)
  have "reads (dbind (dec_take (length body)) (\<lambda>batch. run_on batch (batch_fields batch identity))) (body @ []) v"
    by (rule reads_bind [OF reads_take]) (rule reads_run_on [OF assms(3) l(2)])
  then show ?thesis
    using l assms(2) by (intro reads_bind [OF i64] reads_bind [OF reads_i32]) simp_all
qed

lemma decode_batch_at:
  assumes "sendable base rs" and "batch_ok_to_send rs" and "length (pre @ batch_bytes base rs @ rest) \<le> usize_max"
  shows "decode_batch identity (at pre (batch_bytes base rs @ rest)) =
           Inr ((map data_from_record rs, identity), at (pre @ batch_bytes base rs) rest)"
proof -
  have "reads_exact (batch_fields (body_bytes base rs) identity) (body_bytes base rs) (map data_from_record rs, identity)"
    using assms(1,2) body_small(1) [OF assms(1)] by (intro batch_fields_exact) (auto simp: sendable_def)
  from readsD [OF reads_framed [OF body_small(1,4) [OF assms(1)] this], of pre base rest] show ?thesis
    using assms(3) by (simp add: decode_batch_def batch_bytes_def)
qed

lemma v2_loop_batches:
  assumes "list_all (\<lambda>(base, rs). sendable base rs \<and> batch_ok_to_send rs) bts"
    and "length (pre @ concat (map (\<lambda>(base, rs). batch_bytes base rs) bts)) \<le> usize_max"
  shows "v2_loop (at pre (concat (map (\<lambda>(base, rs). batch_bytes base rs) bts))) records identity =
           Inr \<lparr>db_records = records @ concat (map (\<lambda>(base, rs). map data_from_record rs) bts), db_producer = identity\<rparr>"
  using assms
proof (induction bts arbitrary: pre records)
  case Nil
  then show ?case by (simp add: v2_loop.simps)
next
  case (Cons b bts)
  obtain base rs where b: "b = (base, rs)" by fastforce
  let ?rest = "concat (map (\<lambda>(base, rs). batch_bytes base rs) bts)"
  have "decode_batch identity (at pre (batch_bytes base rs @ ?rest)) =
      Inr ((map data_from_record rs, identity), at (pre @ batch_bytes base rs) ?rest)"
    using Cons.prems by (intro decode_batch_at) (auto simp: b)
  moreover have "batch_bytes base rs \<noteq> []" by (simp add: batch_bytes_def body_bytes_def)
  ultimately show ?case
    using Cons.IH [of "pre @ batch_bytes base rs" "records @ map data_from_record rs"] Cons.prems
    by (simp add: b v2_loop.simps [of "at pre _"])
qed

lemma batch_magic: "16 < length (batch_bytes base rs)" "batch_bytes base rs ! 16 = 2"
  by (simp_all add: batch_bytes_def body_bytes_def nth_append)

section \<open>Damage\<close>

definition fails :: "'a reader \<Rightarrow> bytes \<Rightarrow> WireError \<Rightarrow> bool" where
  "fails f xs e \<longleftrightarrow> (\<forall>pre. length (pre @ xs) \<le> usize_max \<longrightarrow> f (at pre xs) = Inl e)"

lemma fails_bind:
  assumes "reads f xs v" and "fails (g v) ys e"
  shows "fails (dbind f g) (xs @ ys) e"
  unfolding fails_def
proof (intro allI impI)
  fix pre
  assume len: "length (pre @ xs @ ys) \<le> usize_max"
  have "f (at pre (xs @ ys)) = Inr (v, at (pre @ xs) ys)" by (rule readsD [OF assms(1) len])
  then show "dbind f g (at pre (xs @ ys)) = Inl e"
    using assms(2) len by (simp add: dbind_def fails_def)
qed

lemma fails_fail: "fails (dfail e) xs e"
  by (simp add: fails_def dfail_def)

lemma word_of_be_inj:
  assumes "length a = 4" "length b = 4" and "(word_of_int (be_uint a) :: 32 word) = word_of_int (be_uint b)"
  shows "a = b"
proof -
  have "uint (word_of_int (be_uint a) :: 32 word) = be_uint a" "uint (word_of_int (be_uint b) :: 32 word) = be_uint b"
    using be_uint_bounds [of a] be_uint_bounds [of b] assms(1,2)
    by (simp_all add: uint_word_of_int)
  then show ?thesis
    using assms be_bytes_uint [of a] be_bytes_uint [of b] by metis
qed

lemma batch_fields_checksum:
  assumes "length a = 4" "length c = 4" and "crc32c cov \<noteq> word_of_int (be_uint c)"
  shows "fails (batch_fields (a @ [2] @ c @ cov) identity) (a @ [2] @ c @ cov) Checksum"
proof -
  have i32: "reads dec_i32 x (be_int 4 x)" if "length x = 4" for x
    using reads_bind_return [OF reads_take [of x], of "be_int 4"] that by (simp add: dec_i32_def)
  have magic: "reads dec_i8 [2] 2" using reads_i8 [of 2] by (simp add: in_signed_def)
  have "crc32c (drop 9 (a @ [2] @ c @ cov)) \<noteq> word_of_int (be_int 4 c)"
    using assms word_of_wrap_signed [of "be_uint c", where 'a = 32] by (simp add: be_int_def)
  note ne = this
  show ?thesis
    unfolding batch_fields_def
    apply (rule fails_bind [OF i32 [OF assms(1)]])
    apply (rule fails_bind [OF magic], simp only: simp_thms if_False)
    apply (rule fails_bind [OF i32 [OF assms(2)]])
    by (simp only: ne simp_thms if_True fails_fail)
qed

text \<open>A changed byte lies in the stored checksum or in the bytes it covers.\<close>

lemma damaged_body:
  assumes "5 \<le> i" and "i < length (body_bytes base rs)" and "x \<noteq> body_bytes base rs ! i"
  shows "\<exists>c cov. length c = 4 \<and> (body_bytes base rs)[i := x] = be_bytes 4 (- 1) @ [2] @ c @ cov
           \<and> crc32c cov \<noteq> word_of_int (be_uint c)"
proof -
  let ?cov = "covered_bytes base rs" let ?c = "be_bytes 4 (uint (crc32c ?cov))"
  have good: "(word_of_int (be_uint ?c) :: 32 word) = crc32c ?cov"
    using word_of_int_mod [of "uint (crc32c ?cov)", where 'a = 32] by (simp add: be_uint_bytes)
  obtain p c where p: "p = be_bytes 4 (- 1) @ [2]" "length p = 5" and c: "c = ?c" "length c = 4"
    and body: "body_bytes base rs = p @ c @ ?cov"
    by (simp add: body_bytes_def)
  show ?thesis
  proof (cases "i < 9")
    case True
    then have i: "i - 5 < 4" using assms(1) by linarith
    have "x \<noteq> c ! (i - 5)" using assms(1,3) i by (simp add: body p(2) c(2) nth_append)
    then have "c[i - 5 := x] \<noteq> c" using i c(2) by (metis nth_list_update_eq)
    then have "word_of_int (be_uint (c[i - 5 := x])) \<noteq> crc32c ?cov"
      using word_of_be_inj [of "c[i - 5 := x]" c] good c by auto
    then show ?thesis
      using assms(1) i c(2)
      by (intro exI [of _ "c[i - 5 := x]"] exI [of _ ?cov]) (simp add: body p list_update_append flip: p(1))
  next
    case False
    then obtain k where k: "i = 9 + k" using le_Suc_ex [of 9 i] by auto
    have "crc32c (?cov[k := x]) \<noteq> crc32c ?cov"
      using assms p(2) c(2) by (intro crc32c_detects_change) (auto simp: k body nth_append)
    then show ?thesis
      using good c p(2)
      by (intro exI [of _ c] exI [of _ "?cov[k := x]"]) (simp add: k body p list_update_append flip: p(1))
  qed
qed

lemma damaged_fields_fail:
  assumes "sendable base rs" and "5 \<le> i" and "i < length (body_bytes base rs)" and "x \<noteq> body_bytes base rs ! i"
  shows "fails (batch_fields ((body_bytes base rs)[i := x]) identity) ((body_bytes base rs)[i := x]) Checksum"
proof -
  obtain c cov where "length c = 4" "(body_bytes base rs)[i := x] = be_bytes 4 (- 1) @ [2] @ c @ cov"
    "crc32c cov \<noteq> word_of_int (be_uint c)"
    using damaged_body [OF assms(2-4)] by blast
  then show ?thesis using batch_fields_checksum [of "be_bytes 4 (- 1)" c cov] by simp
qed

lemma fails_run_on: "fails f bs e \<Longrightarrow> length bs \<le> usize_max \<Longrightarrow> run_on bs f d = Inl e"
  by (simp add: fails_def run_on_def dec_new_at)

lemma decode_batch_damaged:
  assumes "int (length body) \<le> max_signed 32" and "49 \<le> length body"
    and "fails (batch_fields body identity) body e"
  shows "decode_batch identity (dec_new (be_bytes 8 base @ be_bytes 4 (wrap_signed 32 (int (length body))) @ body)) = Inl e"
proof -
  have l: "in_i32 (int (length body))" "length body + 12 \<le> usize_max"
    using assms(1) by (auto simp: in_signed_def max_signed_def usize_max_def)
  have i64: "reads dec_i64 (be_bytes 8 base) (wrap_signed 64 base)"
    using reads_be_any [of 8] by (simp add: dec_i64_def)
  have "fails (dbind (dec_take (length body)) (\<lambda>batch. run_on batch (batch_fields batch identity))) (body @ []) e"
    by (rule fails_bind [OF reads_take]) (use fails_run_on [OF assms(3)] l(2) in \<open>simp add: fails_def\<close>)
  then have "fails (dbind dec_i64 (\<lambda>_. dbind dec_i32 (\<lambda>batch_len. if batch_len < 49 then dfail Invalid
      else dbind (dec_take (nat batch_len)) (\<lambda>batch. run_on batch (batch_fields batch identity)))))
    (be_bytes 8 base @ be_bytes 4 (wrap_signed 32 (int (length body))) @ body) e"
    using l assms(2) by (intro fails_bind [OF i64] fails_bind [OF reads_i32]) simp_all
  then show ?thesis
    using l(2) by (simp add: fails_def decode_batch_def dec_new_at)
qed

section \<open>Sizes\<close>

lemma length_opt_payload: "length (opt_payload v) = (case v of None \<Rightarrow> 0 | Some v \<Rightarrow> length v)"
  by (simp add: opt_payload_def split: option.splits)

lemma put_varint_zero: "length (put_varint 0) = 1"
  by (simp add: put_varint_def put_uvarint.simps)

lemma record_bytes_bounds:
  "0 < length (record_bytes first base r)" "length (record_bytes first base r) \<le> record_size r"
proof -
  let ?b = "record_body first base r"
  have "length ?b \<le> 27 + length (opt_payload (rec_key r)) + length (opt_payload (rec_value r))"
    using length_put_varlong [of "sat_sub 64 (rec_timestamp_ms r) first"]
      length_put_varint [of "wrap_signed 32 (wrap_signed 64 (rec_offset r - base))"]
      length_put_varint [of "opt_len (rec_key r)"] length_put_varint [of "opt_len (rec_value r)"] put_varint_zero
    unfolding record_body_def length_append by simp
  then show "length (record_bytes first base r) \<le> record_size r"
    using length_put_varint [of "wrap_signed 32 (int (length ?b))"]
    unfolding record_bytes_def length_append record_size_def RECORD_OVERHEAD_BYTES_def length_opt_payload by linarith
  show "0 < length (record_bytes first base r)"
    using length_put_varint [of "wrap_signed 32 (int (length ?b))"] unfolding record_bytes_def length_append by linarith
qed

lemma length_records: "length (concat (map (record_bytes first base) rs)) \<le> bytes_of rs"
proof (induction rs)
  case (Cons r rs)
  then show ?case using record_bytes_bounds(2) [of first base r] by (simp add: bytes_of_def)
qed (simp add: bytes_of_def)

lemma length_batch_bytes: "length (batch_bytes base rs) \<le> 61 + bytes_of rs"
  using length_records [of "rec_timestamp_ms (hd rs)" base rs] by (simp add: batch_bytes_def body_bytes_length)

lemma payloads_ok_small:
  assumes "r \<in> set rs" and "int (bytes_of rs) \<le> max_signed 32"
  shows "payloads_ok r"
proof -
  have "record_size r \<le> bytes_of rs"
    using assms(1) unfolding bytes_of_def by (intro member_le_sum_list) auto
  then show ?thesis
    using assms(2) by (auto simp: payloads_ok_def opt_len_def record_size_def max_signed_def split: option.splits)
qed

lemma sendable_small:
  assumes "rs \<noteq> []" and "length rs \<le> MAX_RECORDS" and "61 + bytes_of rs \<le> MAX_FRAME_LEN"
  shows "sendable base rs"
proof -
  have "int (bytes_of rs) \<le> max_signed 32" using assms(3) by (simp add: MAX_FRAME_LEN_def max_signed_def)
  then show ?thesis
    using assms length_batch_bytes [of base rs] payloads_ok_small [of _ rs]
    by (auto simp: sendable_def list_all_iff)
qed

text \<open>How many records a reader can yield is bounded by the bytes it consumes.\<close>

definition yields :: "('a \<Rightarrow> nat) \<Rightarrow> 'a reader \<Rightarrow> bool" where
  "yields w f \<longleftrightarrow> (\<forall>d v d'. f d = Inr (v, d') \<longrightarrow> w v + dc_offset d \<le> dc_offset d')"

lemma yields_bind: "advances 0 f \<Longrightarrow> (\<And>v. yields w (g v)) \<Longrightarrow> yields w (dbind f g)"
  unfolding yields_def dbind_def
  by (fastforce split: sum.splits prod.splits dest: advancesD(2))

lemma yields_fail: "yields w (dfail e)"
  by (simp add: yields_def dfail_def)

lemma yields_if: "yields w f \<Longrightarrow> yields w g \<Longrightarrow> yields w (if b then f else g)"
  by simp

lemma advances_read_record: "advances 1 (read_record t)"
  unfolding read_record_def
  by (intro advances_bind0 advances_varints advances_if advances_fail advances_take0 advances_run_on)

lemma yields_records: "yields (\<lambda>(rs, i). length rs)
    (dbind (dec_times n (read_record t)) (\<lambda>records. dbind expect_done (\<lambda>_. dreturn (records, identity))))"
  unfolding yields_def
proof (intro allI impI)
  fix d :: Decoder and v d'
  assume eq: "dbind (dec_times n (read_record t)) (\<lambda>records. dbind expect_done (\<lambda>_. dreturn (records, identity))) d = Inr (v, d')"
  then obtain rs where rs: "dec_times n (read_record t) d = Inr (rs, d')" "v = (rs, identity)"
    by (auto simp: dbind_def expect_done_def dreturn_def split: sum.splits prod.splits if_splits)
  show "(case v of (rs, i) \<Rightarrow> length rs) + dc_offset d \<le> dc_offset d'"
    using advancesD(2) [OF advances_times [OF advances_read_record, of n t] rs(1)] length_dec_times [OF rs(1)] rs(2)
    by simp
qed

lemma yields_batch_fields: "yields (\<lambda>(rs, i). length rs) (batch_fields batch identity)"
  unfolding batch_fields_def Let_def
  by (intro yields_bind yields_if yields_fail yields_records advances_less [OF advances_ints(1)]
      advances_less [OF advances_ints(2)] advances_less [OF advances_ints(3)] advances_less [OF advances_ints(4)]) simp_all

lemma advances_expect_done: "advances 0 expect_done"
  by (auto simp: advances_def expect_done_def)

lemma advances_batch_fields: "advances 0 (batch_fields batch identity)"
proof -
  have "advances 0 (dec_times n (read_record t))" for n t
    by (rule advances_less [OF advances_times [OF advances_read_record]]) simp
  then show ?thesis
    unfolding batch_fields_def Let_def
    by (intro advances_bind0 advances_if advances_fail advances_return advances_expect_done advances_less [OF advances_ints(1)]
      advances_less [OF advances_ints(2)] advances_less [OF advances_ints(3)] advances_less [OF advances_ints(4)]) simp_all
qed

lemma run_on_yields:
  assumes "run_on bs (batch_fields batch identity) d = Inr ((rs, i), d')"
  shows "length rs \<le> length bs" "d' = d"
proof -
  obtain e where e: "batch_fields batch identity (dec_new bs) = Inr ((rs, i), e)" and "d' = d"
    using assms by (auto simp: run_on_def split: sum.splits prod.splits)
  then show "length rs \<le> length bs" "d' = d"
    using yields_batch_fields [of batch identity] advancesD(3) [OF advances_batch_fields e]
    by (force simp: yields_def dec_new_def)+
qed

lemma yields_taken:
  "yields (\<lambda>(rs, i). length rs) (dbind (dec_take n) (\<lambda>batch. run_on batch (batch_fields batch identity)))"
  unfolding yields_def
proof (intro allI impI)
  fix d :: Decoder and v d'
  assume "dbind (dec_take n) (\<lambda>batch. run_on batch (batch_fields batch identity)) d = Inr (v, d')"
  then obtain bs d1 where t: "dec_take n d = Inr (bs, d1)"
    and r: "run_on bs (batch_fields bs identity) d1 = Inr ((fst v, snd v), d')"
    by (auto simp: dbind_def split: sum.splits prod.splits)
  have "length bs \<le> n" using t by (auto simp: dec_take_def Let_def split: if_splits)
  then show "(case v of (rs, i) \<Rightarrow> length rs) + dc_offset d \<le> dc_offset d'"
    using run_on_yields [OF r] advancesD(2) [OF advances_take t] by (simp add: case_prod_beta)
qed

lemma decode_batch_yields:
  assumes "decode_batch identity d = Inr ((rs, i), d')"
  shows "length rs + dc_offset d \<le> dc_offset d'"
proof -
  have "yields (\<lambda>(rs, i). length rs) (dbind dec_i64 (\<lambda>_. dbind dec_i32 (\<lambda>batch_len.
      if batch_len < 49 then dfail Invalid
      else dbind (dec_take (nat batch_len)) (\<lambda>batch. run_on batch (batch_fields batch identity)))))"
    by (intro yields_bind yields_if yields_fail yields_taken advances_less [OF advances_ints(3)]
        advances_less [OF advances_ints(4)]) simp_all
  then show ?thesis
    using assms by (fastforce simp: yields_def decode_batch_def split: if_splits)
qed

lemma v2_loop_bounded:
  "v2_loop d records identity = Inr b \<Longrightarrow> dc_offset d \<le> length (dc_bytes d) \<Longrightarrow>
     length (db_records b) + dc_offset d \<le> length records + length (dc_bytes d)"
proof (induction d records identity arbitrary: b rule: v2_loop.induct)
  case (1 d records identity)
  show ?case
  proof (cases "dec_done d")
    case True
    then show ?thesis using 1 by (auto simp: v2_loop.simps [of d] dec_done_def)
  next
    case False
    then obtain rs i d' where db: "decode_batch identity d = Inr ((rs, i), d')"
      and l: "v2_loop d' (records @ rs) i = Inr b"
      using 1(2) by (auto simp: v2_loop.simps [of d] split: sum.splits prod.splits)
    note a = advancesD [OF advances_decode_batch db]
    show ?thesis
      using 1(1) [OF False db refl refl l] a(3) [OF 1(3)] a(1) decode_batch_yields [OF db] by simp
  qed
qed

lemma legacy_loop_bounded:
  "legacy_loop d records = Inr b \<Longrightarrow> dc_offset d \<le> length (dc_bytes d) \<Longrightarrow>
     length b + dc_offset d \<le> length records + length (dc_bytes d)"
proof (induction d records arbitrary: b rule: legacy_loop.induct)
  case (1 d records)
  show ?case
  proof (cases "dec_done d")
    case True
    then show ?thesis using 1 by (auto simp: legacy_loop.simps [of d] dec_done_def)
  next
    case False
    then obtain r d' where dm: "decode_message d = Inr (r, d')" and l: "legacy_loop d' (records @ [r]) = Inr b"
      using 1(2) by (auto simp: legacy_loop.simps [of d] split: sum.splits prod.splits)
    note a = advancesD [OF advances_decode_message dm]
    show ?thesis
      using 1(1) [OF False dm refl l] a(3) [OF 1(3)] a(1,2) by simp
  qed
qed

lemma decode_encoded_batches:
  assumes "bts \<noteq> []"
    and "list_all (\<lambda>(base, rs, bs). encode_record_batch base rs = Inr bs \<and> batch_ok_to_send rs) bts"
    and "length (concat (map (\<lambda>(base, rs, bs). bs) bts)) \<le> usize_max"
  shows "decode_record_batches_with_identity (concat (map (\<lambda>(base, rs, bs). bs) bts)) =
           Inr \<lparr>db_records = concat (map (\<lambda>(base, rs, bs). map data_from_record rs) bts), db_producer = None\<rparr>"
proof -
  define cs where "cs = map (\<lambda>(base, rs, bs). (base, rs)) bts"
  have all: "list_all (\<lambda>(base, rs). sendable base rs \<and> batch_ok_to_send rs) cs"
    using assms(2) by (auto simp: cs_def list_all_iff encode_Inr split: prod.splits)
  have bytes: "concat (map (\<lambda>(base, rs, bs). bs) bts) = concat (map (\<lambda>(base, rs). batch_bytes base rs) cs)"
    using assms(2) unfolding cs_def
    by (intro arg_cong [of _ _ concat]) (auto simp: list_all_iff encode_Inr split: prod.splits)
  have data: "concat (map (\<lambda>(base, rs, bs). map data_from_record rs) bts) =
      concat (map (\<lambda>(base, rs). map data_from_record rs) cs)"
    unfolding cs_def by (intro arg_cong [of _ _ concat]) (auto split: prod.splits)
  obtain base rs cs' where cs: "cs = (base, rs) # cs'"
    using assms(1) by (cases cs) (auto simp: cs_def)
  have "decode_v2_record_set (concat (map (\<lambda>(base, rs). batch_bytes base rs) cs)) =
      Inr \<lparr>db_records = concat (map (\<lambda>(base, rs). map data_from_record rs) cs), db_producer = None\<rparr>"
    using v2_loop_batches [OF all, of "[]" "[]" None] assms(3) batch_magic [of base rs] unfolding bytes
    by (auto simp: decode_v2_record_set_def dec_new_at cs)
  then show ?thesis
    unfolding bytes data
    using batch_magic [of base rs]
    by (auto simp: decode_record_batches_with_identity_def cs nth_append)
qed

section \<open>Properties\<close>

text \<open>
  C14: record batches round trip. A record set made of any number of batches, each written by
  the broker's encoder at any base offset, decodes to the data (timestamp, key, value) of all
  their records in order, with no producer identity. The hypothesis on timestamps says that they
  are 64-bit values whose distance to the batch's first one is too, so that the saturating deltas are exact.
\<close>

theorem record_batches_round_trip:
  assumes "bts \<noteq> []"
    and "list_all (\<lambda>(base, rs, bs). encode_record_batch base rs = Inr bs \<and> batch_ok_to_send rs) bts"
    and "length (concat (map (\<lambda>(base, rs, bs). bs) bts)) \<le> usize_max"
  shows "decode_record_batches_with_identity (concat (map (\<lambda>(base, rs, bs). bs) bts)) =
           Inr \<lparr>db_records = concat (map (\<lambda>(base, rs, bs). map data_from_record rs) bts), db_producer = None\<rparr>"
  using assms by (rule decode_encoded_batches)

definition sample :: "int \<Rightarrow> int \<Rightarrow> byte \<Rightarrow> Record" where
  "sample off t x = \<lparr>rec_offset = off, rec_timestamp_ms = t, rec_key = None, rec_value = Some [x]\<rparr>"

lemma sample_timestamp [simp]: "rec_timestamp_ms (sample off t x) = t"
  by (simp add: sample_def)

lemma sample_encodes: "encode_record_batch off [sample off t x] = Inr (batch_bytes off [sample off t x])"
  unfolding encode_Inr
  by (auto intro!: sendable_small simp: sample_def bytes_of_def record_size_def RECORD_OVERHEAD_BYTES_def
      MAX_RECORDS_def MAX_FRAME_LEN_def)

lemma sample_length: "length (batch_bytes off [sample off t x]) \<le> 94"
  using length_batch_bytes [of off "[sample off t x]"]
  by (simp add: sample_def bytes_of_def record_size_def RECORD_OVERHEAD_BYTES_def)

theorem record_batches_round_trip_witness:
  "\<exists>b1 b2. encode_record_batch 5 [sample 5 1000 97] = Inr b1 \<and> encode_record_batch 6 [sample 6 900 98] = Inr b2
     \<and> decode_record_batches_with_identity (b1 @ b2) =
         Inr \<lparr>db_records = [data_from_record (sample 5 1000 97), data_from_record (sample 6 900 98)], db_producer = None\<rparr>"
proof -
  let ?b = "\<lambda>off t x. batch_bytes off [sample off t x]"
  have "decode_record_batches_with_identity (?b 5 1000 97 @ ?b 6 900 98) =
      Inr \<lparr>db_records = [data_from_record (sample 5 1000 97), data_from_record (sample 6 900 98)], db_producer = None\<rparr>"
    using record_batches_round_trip [of "[(5, [sample 5 1000 97], ?b 5 1000 97), (6, [sample 6 900 98], ?b 6 900 98)]"]
      sample_length [of 5 1000 97] sample_length [of 6 900 98]
    by (simp add: sample_encodes batch_ok_to_send_def delta_ok_def in_signed_def usize_max_def)
  then show ?thesis using sample_encodes by blast
qed

text \<open>
  C15: damage is detected. Changing any one byte of an encoded batch from its checksum field on
  makes the whole record set fail with \<open>Checksum\<close>; no record of it is accepted.
\<close>

theorem damaged_batch_rejected:
  assumes "encode_record_batch base rs = Inr bs" and "17 \<le> i" and "i < length bs" and "x \<noteq> bs ! i"
  shows "decode_record_batches_with_identity (bs[i := x]) = Inl Checksum"
proof -
  have snd: "sendable base rs" and bs: "bs = batch_bytes base rs" using assms(1) by (auto simp: encode_Inr)
  let ?body = "body_bytes base rs"
  define h where "h = be_bytes 8 base @ be_bytes 4 (wrap_signed 32 (int (length ?body)))"
  have h: "length h = 12" "bs = h @ ?body" by (simp_all add: h_def bs batch_bytes_def)
  obtain j where j: "i = 12 + j" "5 \<le> j"
    using assms(2) by (intro that [of "i - 12"]) auto
  have upd: "bs[i := x] = h @ ?body[j := x]" by (simp add: h j list_update_append)
  have "decode_batch None (dec_new (h @ ?body[j := x])) = Inl Checksum"
    using decode_batch_damaged [of "?body[j := x]" None Checksum base]
      damaged_fields_fail [OF snd j(2), of x None] body_small [OF snd] assms(3,4)
    by (simp add: h_def [symmetric] h j nth_append) (simp add: h_def)
  moreover have "\<not> dec_done (dec_new (h @ ?body[j := x]))" using h(1) by (auto simp: dec_new_at)
  ultimately have "decode_v2_record_set (h @ ?body[j := x]) = Inl Checksum"
    using h(1) by (auto simp: decode_v2_record_set_def v2_loop.simps [of "dec_new _"])
  moreover have "(bs[i := x]) ! 16 = 2" "16 < length (bs[i := x])"
    using assms(2) batch_magic [of base rs] by (simp_all add: bs)
  ultimately show ?thesis
    unfolding decode_record_batches_with_identity_def upd using h(1) by auto
qed

theorem damaged_batch_rejected_witness:
  "\<exists>bs. encode_record_batch 5 [sample 5 1000 97] = Inr bs
     \<and> decode_record_batches_with_identity (bs[20 := bs ! 20 + 1]) = Inl Checksum"
proof -
  let ?bs = "batch_bytes 5 [sample 5 1000 97]"
  have "20 < length ?bs" by (simp add: batch_bytes_def body_bytes_length)
  then have "decode_record_batches_with_identity (?bs[20 := ?bs ! 20 + 1]) = Inl Checksum"
    using damaged_batch_rejected [OF sample_encodes [of 5 1000 97], of 20 "?bs ! 20 + 1"] by simp
  then show ?thesis using sample_encodes by blast
qed

text \<open>
  The log's size accounting bounds the wire. Encoding fails with \<open>Invalid\<close> exactly for an
  empty or over-long record list; any other list whose accounted size (\<open>record_size\<close>, as
  used for retention and fetch limits) leaves room for the 61-byte batch header in a frame is
  encoded, in at most that many bytes.
\<close>

lemma accounted_size_bounds_encoding:
  shows "(encode_record_batch base rs = Inl Invalid \<longleftrightarrow> rs = [] \<or> MAX_RECORDS < length rs)
    \<and> (rs \<noteq> [] \<and> length rs \<le> MAX_RECORDS \<and> 61 + bytes_of rs \<le> MAX_FRAME_LEN \<longrightarrow>
         (\<exists>bs. encode_record_batch base rs = Inr bs \<and> length bs \<le> 61 + bytes_of rs))"
  using sendable_small [of rs base] length_batch_bytes [of base rs] encode_Inr [of base rs "batch_bytes base rs"]
  by (auto simp: encode_record_batch_eq)

lemma accounted_size_bounds_encoding_example:
  "\<exists>bs. encode_record_batch 5 [sample 5 1000 97] = Inr bs \<and> length bs \<le> 61 + 33"
  using accounted_size_bounds_encoding [of 5 "[sample 5 1000 97]"]
  by (simp add: sample_def bytes_of_def record_size_def RECORD_OVERHEAD_BYTES_def MAX_RECORDS_def MAX_FRAME_LEN_def)

text \<open>
  C33: decoding is bounded by the input. Whatever bytes a client sends as a record set, version 2
  or legacy, a successful decoding yields at most one record per input byte, so a frame
  of bounded length cannot expand into an unbounded number of records.
\<close>

theorem decoded_records_bounded:
  assumes "decode_record_batches_with_identity bs = Inr b"
  shows "length (db_records b) \<le> length bs"
  using assms v2_loop_bounded [of "dec_new bs" "[]" None b] legacy_loop_bounded [of "dec_new bs" "[]"]
  by (auto simp: decode_record_batches_with_identity_def decode_v2_record_set_def decode_legacy_message_set_def
      dec_new_def split: if_splits sum.splits)

theorem decoded_records_bounded_witness:
  "\<exists>b. decode_record_batches_with_identity (batch_bytes 5 [sample 5 1000 97]) = Inr b
     \<and> length (db_records b) \<le> length (batch_bytes 5 [sample 5 1000 97])"
proof -
  have "list_all (\<lambda>(base, rs). sendable base rs \<and> batch_ok_to_send rs) [(5, [sample 5 1000 97])]"
    using sample_encodes [of 5 1000 97]
    by (simp add: encode_Inr batch_ok_to_send_def delta_ok_def in_signed_def)
  from v2_loop_batches [OF this, of "[]" "[]" None]
  have d: "decode_record_batches_with_identity (batch_bytes 5 [sample 5 1000 97])
      = Inr \<lparr>db_records = [data_from_record (sample 5 1000 97)], db_producer = None\<rparr>"
    using sample_length [of 5 1000 97] batch_magic [of 5 "[sample 5 1000 97]"]
    by (auto simp: decode_record_batches_with_identity_def decode_v2_record_set_def dec_new_at usize_max_def)
  show ?thesis using decoded_records_bounded [OF d] d by blast
qed

end
