(* ===== verification/Wire_Request.thy ===== *)
theory Wire_Request
  imports Wire_Codec Record_Batch
begin

text \<open>
  Request decoding, \<^verbatim>\<open>crates/broker-wire/src/request.rs\<close>: the header, one reader per
  request, and the dispatch on API key and version.
\<close>

section \<open>Requests\<close>

record Header =
  hd_api_key :: int
  hd_api_version :: int
  hd_correlation_id :: int
  hd_client_id :: "bytes option"

record ProducePartition =
  pp_partition :: int
  pp_records :: "RecordData list"
  pp_producer :: "(int \<times> int) option"

record ProduceTopic =
  pt_name :: bytes
  pt_partitions :: "ProducePartition list"

record FetchPartition =
  fp_partition :: int
  fp_fetch_offset :: int
  fp_partition_max_bytes :: int

record FetchTopic =
  ft_name :: bytes
  ft_partitions :: "FetchPartition list"

record ListOffsetsPartition =
  lp_partition :: int
  lp_timestamp :: int

record ListOffsetsTopic =
  lt_name :: bytes
  lt_partitions :: "ListOffsetsPartition list"

datatype RequestBody =
    ApiVersions
  | FindCoordinator bytes int
  | InitProducerId "bytes option" int
  | AddPartitionsToTxn bytes int int "(bytes \<times> int list) list"
  | EndTxn bytes int int bool
  | JoinGroup bytes bytes "bytes list"
  | SyncGroup bytes int bytes bytes
  | Heartbeat bytes int bytes
  | LeaveGroup bytes bytes
  | OffsetCommit bytes int bytes bytes int int
  | OffsetFetch bytes bytes int
  | Metadata "bytes list option"
  | Produce "bytes option" int int "ProduceTopic list"
  | Fetch int int int int bool "FetchTopic list"
  | ListOffsets int "ListOffsetsTopic list"

record Request =
  rq_header :: Header
  rq_body :: RequestBody

section \<open>Bodies\<close>

definition non_empty_string :: "bytes reader" where
  "non_empty_string = dbind string_bytes (\<lambda>s. if s = [] then dfail Invalid else dreturn s)"

definition required_bytes :: "bytes reader" where
  "required_bytes = dbind dec_bytes (\<lambda>b. case b of None \<Rightarrow> dfail Invalid | Some v \<Rightarrow> dreturn v)"

definition decode_find_coordinator :: "RequestBody reader" where
  "decode_find_coordinator =
     dbind non_empty_string (\<lambda>key.
     dbind dec_i8 (\<lambda>key_type.
       if key_type \<noteq> 0 \<and> key_type \<noteq> 1 then dfail Invalid
       else dreturn (FindCoordinator key key_type)))"

definition decode_init_producer_id :: "RequestBody reader" where
  "decode_init_producer_id =
     dbind nullable_string_bytes (\<lambda>transactional_id.
     dbind dec_i32 (\<lambda>timeout_ms. dreturn (InitProducerId transactional_id timeout_ms)))"

definition txn_partition :: "int reader" where
  "txn_partition = dbind dec_i32 (\<lambda>prt. if prt < 0 then dfail Invalid else dreturn prt)"

definition txn_topic :: "(bytes \<times> int list) reader" where
  "txn_topic =
     dbind string_bytes (\<lambda>topic.
     dbind (dec_array txn_partition) (\<lambda>partitions. dreturn (topic, partitions)))"

definition decode_add_partitions_to_txn :: "RequestBody reader" where
  "decode_add_partitions_to_txn =
     dbind string_bytes (\<lambda>transactional_id.
     dbind dec_i64 (\<lambda>producer_id.
     dbind dec_i16 (\<lambda>producer_epoch.
     dbind (dec_array txn_topic) (\<lambda>topics.
       dreturn (AddPartitionsToTxn transactional_id producer_id producer_epoch topics)))))"

definition decode_end_txn :: "RequestBody reader" where
  "decode_end_txn =
     dbind string_bytes (\<lambda>transactional_id.
     dbind dec_i64 (\<lambda>producer_id.
     dbind dec_i16 (\<lambda>producer_epoch.
     dbind dec_i8 (\<lambda>commit.
       if commit \<noteq> 0 \<and> commit \<noteq> 1 then dfail Invalid
       else dreturn (EndTxn transactional_id producer_id producer_epoch (commit \<noteq> 0))))))"

definition subscription_metadata :: "bytes list reader" where
  "subscription_metadata =
     dbind dec_i16 (\<lambda>_.
     dbind (dec_array string_bytes) (\<lambda>subscriptions.
     dbind dec_bytes (\<lambda>_. dreturn subscriptions)))"

definition skip_protocol :: "unit reader" where
  "skip_protocol = dbind string_bytes (\<lambda>_. dbind required_bytes (\<lambda>_. dreturn ()))"

definition decode_join_group :: "RequestBody reader" where
  "decode_join_group =
     dbind string_bytes (\<lambda>group_id.
     dbind dec_i32 (\<lambda>session_timeout.
     dbind dec_i32 (\<lambda>rebalance_timeout.
       if session_timeout < 0 \<or> rebalance_timeout < 0 then dfail Invalid else
     dbind string_bytes (\<lambda>member_id.
     dbind string_bytes (\<lambda>_.
     dbind array_len (\<lambda>protocols.
       if protocols = 0 then dfail Invalid else
     dbind string_bytes (\<lambda>_.
     dbind required_bytes (\<lambda>metadata.
     dbind (run_on metadata subscription_metadata) (\<lambda>subscriptions.
     dbind (dec_times (protocols - 1) skip_protocol) (\<lambda>_.
       dreturn (JoinGroup group_id member_id subscriptions)))))))))))"

definition sync_assignment :: "bytes reader" where
  "sync_assignment = dbind string_bytes (\<lambda>_. required_bytes)"

definition decode_sync_group :: "RequestBody reader" where
  "decode_sync_group =
     dbind string_bytes (\<lambda>group_id.
     dbind dec_i32 (\<lambda>generation.
     dbind string_bytes (\<lambda>member_id.
     dbind (dec_array sync_assignment) (\<lambda>assignments.
       dreturn (SyncGroup group_id generation member_id
         (foldl (\<lambda>assignment bs. if assignment = [] then bs else assignment) [] assignments))))))"

definition decode_heartbeat :: "RequestBody reader" where
  "decode_heartbeat =
     dbind string_bytes (\<lambda>group_id.
     dbind dec_i32 (\<lambda>generation.
     dbind string_bytes (\<lambda>member_id. dreturn (Heartbeat group_id generation member_id))))"

definition decode_leave_group :: "RequestBody reader" where
  "decode_leave_group =
     dbind string_bytes (\<lambda>group_id.
     dbind string_bytes (\<lambda>member_id. dreturn (LeaveGroup group_id member_id)))"

definition decode_offset_commit :: "RequestBody reader" where
  "decode_offset_commit =
     dbind string_bytes (\<lambda>group_id.
     dbind dec_i32 (\<lambda>generation.
     dbind string_bytes (\<lambda>member_id.
     dbind dec_i64 (\<lambda>_.
     dbind array_len (\<lambda>topics.
       if topics \<noteq> 1 then dfail Invalid else
     dbind string_bytes (\<lambda>topic.
     dbind array_len (\<lambda>partitions.
       if partitions \<noteq> 1 then dfail Invalid else
     dbind dec_i32 (\<lambda>prt.
     dbind dec_i64 (\<lambda>off.
     dbind nullable_string_bytes (\<lambda>_.
       dreturn (OffsetCommit group_id generation member_id topic prt off)))))))))))"

definition decode_offset_fetch :: "RequestBody reader" where
  "decode_offset_fetch =
     dbind string_bytes (\<lambda>group_id.
     dbind array_len (\<lambda>topics.
       if topics \<noteq> 1 then dfail Invalid else
     dbind string_bytes (\<lambda>topic.
     dbind array_len (\<lambda>partitions.
       if partitions \<noteq> 1 then dfail Invalid else
     dbind dec_i32 (\<lambda>prt. dreturn (OffsetFetch group_id topic prt))))))"

definition decode_metadata :: "RequestBody reader" where
  "decode_metadata =
     dbind nullable_array_len (\<lambda>len. case len of
       None \<Rightarrow> dreturn (Metadata None)
     | Some count \<Rightarrow>
         dbind (dec_times count non_empty_string) (\<lambda>topics. dreturn (Metadata (Some topics))))"

definition lift_result :: "WireError + 'a \<Rightarrow> 'a reader" where
  "lift_result r d = (case r of Inl e \<Rightarrow> Inl e | Inr v \<Rightarrow> Inr (v, d))"

definition produce_partition :: "ProducePartition reader" where
  "produce_partition =
     dbind dec_i32 (\<lambda>prt.
     dbind required_bytes (\<lambda>record_set.
     dbind (lift_result (decode_record_batches_with_identity record_set)) (\<lambda>decoded.
       if db_records decoded = [] then dfail Invalid
       else dreturn \<lparr>pp_partition = prt, pp_records = db_records decoded, pp_producer = db_producer decoded\<rparr>)))"

definition produce_topic :: "ProduceTopic reader" where
  "produce_topic =
     dbind non_empty_string (\<lambda>name.
     dbind (dec_array produce_partition) (\<lambda>partitions.
       dreturn \<lparr>pt_name = name, pt_partitions = partitions\<rparr>))"

definition decode_produce :: "RequestBody reader" where
  "decode_produce =
     dbind nullable_string_bytes (\<lambda>transactional_id.
     dbind dec_i16 (\<lambda>acks.
     dbind dec_i32 (\<lambda>timeout_ms.
     dbind (dec_array produce_topic) (\<lambda>topics.
       dreturn (Produce transactional_id acks timeout_ms topics)))))"

definition fetch_partition :: "FetchPartition reader" where
  "fetch_partition =
     dbind dec_i32 (\<lambda>prt.
     dbind dec_i64 (\<lambda>fetch_offset.
     dbind dec_i32 (\<lambda>partition_max_bytes.
       if partition_max_bytes < 0 then dfail Invalid
       else dreturn \<lparr>fp_partition = prt, fp_fetch_offset = fetch_offset, fp_partition_max_bytes = partition_max_bytes\<rparr>)))"

definition fetch_topic :: "FetchTopic reader" where
  "fetch_topic =
     dbind non_empty_string (\<lambda>name.
     dbind (dec_array fetch_partition) (\<lambda>partitions.
       dreturn \<lparr>ft_name = name, ft_partitions = partitions\<rparr>))"

definition decode_fetch :: "RequestBody reader" where
  "decode_fetch =
     dbind dec_i32 (\<lambda>replica_id.
     dbind dec_i32 (\<lambda>max_wait_ms.
     dbind dec_i32 (\<lambda>min_bytes.
     dbind dec_i32 (\<lambda>max_bytes.
       if max_wait_ms < 0 \<or> min_bytes < 0 \<or> max_bytes < 0 then dfail Invalid else
     dbind dec_i8 (\<lambda>isolation.
       if isolation \<noteq> 0 \<and> isolation \<noteq> 1 then dfail Invalid else
     dbind (dec_array fetch_topic) (\<lambda>topics.
       dreturn (Fetch replica_id max_wait_ms min_bytes max_bytes (isolation = 1) topics)))))))"

definition list_offsets_partition :: "ListOffsetsPartition reader" where
  "list_offsets_partition =
     dbind dec_i32 (\<lambda>prt.
     dbind dec_i64 (\<lambda>timestamp. dreturn \<lparr>lp_partition = prt, lp_timestamp = timestamp\<rparr>))"

definition list_offsets_topic :: "ListOffsetsTopic reader" where
  "list_offsets_topic =
     dbind non_empty_string (\<lambda>name.
     dbind (dec_array list_offsets_partition) (\<lambda>partitions.
       dreturn \<lparr>lt_name = name, lt_partitions = partitions\<rparr>))"

definition decode_list_offsets :: "RequestBody reader" where
  "decode_list_offsets =
     dbind dec_i32 (\<lambda>replica_id.
     dbind (dec_array list_offsets_topic) (\<lambda>topics. dreturn (ListOffsets replica_id topics)))"

section \<open>Frames\<close>

definition peek_header :: "bytes \<Rightarrow> WireError + Header" where
  "peek_header frame =
     (if length frame < 12 then Inl Incomplete
      else Inr \<lparr>hd_api_key = be_int 2 (take 2 (drop 4 frame)),
                hd_api_version = be_int 2 (take 2 (drop 6 frame)),
                hd_correlation_id = be_int 4 (take 4 (drop 8 frame)),
                hd_client_id = None\<rparr>)"

definition decode_body :: "int \<Rightarrow> int \<Rightarrow> RequestBody reader" where
  "decode_body api_key api_version =
     (if (api_key, api_version) = (API_API_VERSIONS, 0) then dreturn ApiVersions
      else if (api_key, api_version) = (API_FIND_COORDINATOR, 1) then decode_find_coordinator
      else if (api_key, api_version) = (API_INIT_PRODUCER_ID, 0) then decode_init_producer_id
      else if (api_key, api_version) = (API_ADD_PARTITIONS_TO_TXN, 0) then decode_add_partitions_to_txn
      else if (api_key, api_version) = (API_END_TXN, 0) then decode_end_txn
      else if (api_key, api_version) = (API_JOIN_GROUP, 1) then decode_join_group
      else if (api_key, api_version) = (API_SYNC_GROUP, 0) then decode_sync_group
      else if (api_key, api_version) = (API_HEARTBEAT, 0) then decode_heartbeat
      else if (api_key, api_version) = (API_LEAVE_GROUP, 0) then decode_leave_group
      else if (api_key, api_version) = (API_OFFSET_COMMIT, 2) then decode_offset_commit
      else if (api_key, api_version) = (API_OFFSET_FETCH, 1) then decode_offset_fetch
      else if (api_key, api_version) = (API_METADATA, 1) then decode_metadata
      else if (api_key, api_version) = (API_PRODUCE, 3) then decode_produce
      else if (api_key, api_version) = (API_FETCH, 4) then decode_fetch
      else if (api_key, api_version) = (API_LIST_OFFSETS, 1) then decode_list_offsets
      else dfail UnsupportedVersion)"

definition request_fields :: "Request reader" where
  "request_fields =
     dbind dec_i16 (\<lambda>api_key.
     dbind dec_i16 (\<lambda>api_version.
     dbind dec_i32 (\<lambda>correlation_id.
     dbind nullable_string_bytes (\<lambda>client_id.
       if \<not> is_supported_api api_key then dfail UnsupportedApi else
     dbind (decode_body api_key api_version) (\<lambda>body.
     dbind expect_done (\<lambda>_.
       dreturn \<lparr>rq_header = \<lparr>hd_api_key = api_key, hd_api_version = api_version,
                             hd_correlation_id = correlation_id, hd_client_id = client_id\<rparr>,
                rq_body = body\<rparr>))))))"

definition decode_request :: "bytes \<Rightarrow> WireError + Request" where
  "decode_request frame =
     (if length frame < 4 then Inl Incomplete
      else
        let declared = be_int 4 (take 4 frame) in
        if declared < 0 then Inl Invalid
        else if nat declared > MAX_FRAME_LEN then Inl TooLarge
        else if nat declared + 4 \<noteq> length frame then Inl Incomplete
        else case request_fields (dec_new (drop 4 frame)) of Inl e \<Rightarrow> Inl e | Inr (r, _) \<Rightarrow> Inr r)"

end
