(* ===== verification/Wire_Request_Laws.thy ===== *)
theory Wire_Request_Laws
  imports Wire_Request Record_Batch_Laws
begin

text \<open>
  What request decoding promises to a client. \<open>client_body\<close> is the Kafka layout of each
  supported request body, as a client writes it; fields the broker reads and drops (timeouts,
  protocol names, user data) are given the values common clients send. A client's record
  sets are a parameter \<open>pack\<close>.
\<close>

section \<open>The client's side\<close>

definition txn_topic_field :: "bytes \<times> int list \<Rightarrow> bytes" where
  "txn_topic_field = (\<lambda>(topic, prts). string_field topic @ array_field (be_bytes 4) prts)"

definition subscription_field :: "bytes list \<Rightarrow> bytes" where
  "subscription_field subs = be_bytes 2 0 @ array_field string_field subs @ bytes_field None"

definition produce_partition_field :: "(RecordData list \<Rightarrow> (int \<times> int) option \<Rightarrow> bytes) \<Rightarrow> ProducePartition \<Rightarrow> bytes" where
  "produce_partition_field pack p =
     be_bytes 4 (pp_partition p) @ bytes_field (Some (pack (pp_records p) (pp_producer p)))"

definition produce_topic_field :: "(RecordData list \<Rightarrow> (int \<times> int) option \<Rightarrow> bytes) \<Rightarrow> ProduceTopic \<Rightarrow> bytes" where
  "produce_topic_field pack t =
     string_field (pt_name t) @ array_field (produce_partition_field pack) (pt_partitions t)"

definition fetch_partition_field :: "FetchPartition \<Rightarrow> bytes" where
  "fetch_partition_field p =
     be_bytes 4 (fp_partition p) @ be_bytes 8 (fp_fetch_offset p) @ be_bytes 4 (fp_partition_max_bytes p)"

definition fetch_topic_field :: "FetchTopic \<Rightarrow> bytes" where
  "fetch_topic_field t = string_field (ft_name t) @ array_field fetch_partition_field (ft_partitions t)"

definition list_partition_field :: "ListOffsetsPartition \<Rightarrow> bytes" where
  "list_partition_field p = be_bytes 4 (lp_partition p) @ be_bytes 8 (lp_timestamp p)"

definition list_topic_field :: "ListOffsetsTopic \<Rightarrow> bytes" where
  "list_topic_field t = string_field (lt_name t) @ array_field list_partition_field (lt_partitions t)"

fun client_body :: "(RecordData list \<Rightarrow> (int \<times> int) option \<Rightarrow> bytes) \<Rightarrow> RequestBody \<Rightarrow> bytes" where
  "client_body pack ApiVersions = []"
| "client_body pack (FindCoordinator key t) = string_field key @ be_bytes 1 t"
| "client_body pack (InitProducerId tid t) = nullable_string_field tid @ be_bytes 4 t"
| "client_body pack (AddPartitionsToTxn tid p e topics) =
     string_field tid @ be_bytes 8 p @ be_bytes 2 e @ array_field txn_topic_field topics"
| "client_body pack (EndTxn tid p e c) =
     string_field tid @ be_bytes 8 p @ be_bytes 2 e @ be_bytes 1 (if c then 1 else 0)"
| "client_body pack (JoinGroup g m subs) =
     string_field g @ be_bytes 4 30000 @ be_bytes 4 60000 @ string_field m
     @ string_field [99, 111, 110, 115, 117, 109, 101, 114] @ array_len_field 1
     @ string_field [114, 97, 110, 103, 101] @ bytes_field (Some (subscription_field subs))"
| "client_body pack (SyncGroup g n m a) =
     string_field g @ be_bytes 4 n @ string_field m
     @ array_field (\<lambda>a. string_field m @ bytes_field (Some a)) [a]"
| "client_body pack (Heartbeat g n m) = string_field g @ be_bytes 4 n @ string_field m"
| "client_body pack (LeaveGroup g m) = string_field g @ string_field m"
| "client_body pack (OffsetCommit g n m t p off) =
     string_field g @ be_bytes 4 n @ string_field m @ be_bytes 8 (- 1) @ array_len_field 1
     @ string_field t @ array_len_field 1 @ be_bytes 4 p @ be_bytes 8 off @ nullable_string_field None"
| "client_body pack (OffsetFetch g t p) =
     string_field g @ array_len_field 1 @ string_field t @ array_len_field 1 @ be_bytes 4 p"
| "client_body pack (Metadata None) = be_bytes 4 (- 1)"
| "client_body pack (Metadata (Some topics)) = array_field string_field topics"
| "client_body pack (Produce tid acks t topics) =
     nullable_string_field tid @ be_bytes 2 acks @ be_bytes 4 t @ array_field (produce_topic_field pack) topics"
| "client_body pack (Fetch r w mn mx rc topics) =
     be_bytes 4 r @ be_bytes 4 w @ be_bytes 4 mn @ be_bytes 4 mx @ be_bytes 1 (if rc then 1 else 0)
     @ array_field fetch_topic_field topics"
| "client_body pack (ListOffsets r topics) = be_bytes 4 r @ array_field list_topic_field topics"

definition name_ok :: "bytes \<Rightarrow> bool" where
  "name_ok s \<longleftrightarrow> s \<noteq> [] \<and> string_ok s"

definition opt_ok :: "bytes option \<Rightarrow> bool" where
  "opt_ok v \<longleftrightarrow> (case v of None \<Rightarrow> True | Some v \<Rightarrow> string_ok v)"

definition produce_partition_ok :: "(RecordData list \<Rightarrow> (int \<times> int) option \<Rightarrow> bytes) \<Rightarrow> ProducePartition \<Rightarrow> bool" where
  "produce_partition_ok pack p \<longleftrightarrow> in_i32 (pp_partition p) \<and> pp_records p \<noteq> []
     \<and> length (pack (pp_records p) (pp_producer p)) \<le> MAX_FRAME_LEN
     \<and> decode_record_batches_with_identity (pack (pp_records p) (pp_producer p)) =
         Inr \<lparr>db_records = pp_records p, db_producer = pp_producer p\<rparr>"

fun body_ok :: "(RecordData list \<Rightarrow> (int \<times> int) option \<Rightarrow> bytes) \<Rightarrow> RequestBody \<Rightarrow> bool" where
  "body_ok pack ApiVersions = True"
| "body_ok pack (FindCoordinator key t) = (name_ok key \<and> (t = 0 \<or> t = 1))"
| "body_ok pack (InitProducerId tid t) = (opt_ok tid \<and> in_i32 t)"
| "body_ok pack (AddPartitionsToTxn tid p e topics) =
     (string_ok tid \<and> in_i64 p \<and> in_i16 e
      \<and> small (\<lambda>(t, ps). string_ok t \<and> small (\<lambda>p. 0 \<le> p \<and> in_i32 p) ps) topics)"
| "body_ok pack (EndTxn tid p e c) = (string_ok tid \<and> in_i64 p \<and> in_i16 e)"
| "body_ok pack (JoinGroup g m subs) =
     (string_ok g \<and> string_ok m \<and> small string_ok subs \<and> length (subscription_field subs) \<le> MAX_FRAME_LEN)"
| "body_ok pack (SyncGroup g n m a) = (string_ok g \<and> in_i32 n \<and> string_ok m \<and> length a \<le> MAX_FRAME_LEN)"
| "body_ok pack (Heartbeat g n m) = (string_ok g \<and> in_i32 n \<and> string_ok m)"
| "body_ok pack (LeaveGroup g m) = (string_ok g \<and> string_ok m)"
| "body_ok pack (OffsetCommit g n m t p off) =
     (string_ok g \<and> in_i32 n \<and> string_ok m \<and> string_ok t \<and> in_i32 p \<and> in_i64 off)"
| "body_ok pack (OffsetFetch g t p) = (string_ok g \<and> string_ok t \<and> in_i32 p)"
| "body_ok pack (Metadata None) = True"
| "body_ok pack (Metadata (Some topics)) = small name_ok topics"
| "body_ok pack (Produce tid acks t topics) =
     (opt_ok tid \<and> in_i16 acks \<and> in_i32 t
      \<and> small (\<lambda>t. name_ok (pt_name t) \<and> small (produce_partition_ok pack) (pt_partitions t)) topics)"
| "body_ok pack (Fetch r w mn mx rc topics) =
     (in_i32 r \<and> in_i32 w \<and> in_i32 mn \<and> in_i32 mx \<and> 0 \<le> w \<and> 0 \<le> mn \<and> 0 \<le> mx
      \<and> small (\<lambda>t. name_ok (ft_name t) \<and> small (\<lambda>p. in_i32 (fp_partition p) \<and> in_i64 (fp_fetch_offset p)
            \<and> in_i32 (fp_partition_max_bytes p) \<and> 0 \<le> fp_partition_max_bytes p) (ft_partitions t)) topics)"
| "body_ok pack (ListOffsets r topics) =
     (in_i32 r \<and> small (\<lambda>t. name_ok (lt_name t)
        \<and> small (\<lambda>p. in_i32 (lp_partition p) \<and> in_i64 (lp_timestamp p)) (lt_partitions t)) topics)"

section \<open>Reading each body\<close>

lemma reads_name: "name_ok s \<Longrightarrow> reads non_empty_string (string_field s) s"
  unfolding non_empty_string_def name_ok_def by (intro reads_step) auto

lemma reads_required: "length v \<le> MAX_FRAME_LEN \<Longrightarrow> reads required_bytes (bytes_field (Some v)) v"
  unfolding required_bytes_def
  by (rule reads_bind_last [OF nbytes.field_reads]) (simp_all add: reads_return)

lemma request_records_eta [simp]:
  "\<lparr>pp_partition = pp_partition p, pp_records = pp_records p, pp_producer = pp_producer p\<rparr> = p"
  "\<lparr>pt_name = pt_name pt, pt_partitions = pt_partitions pt\<rparr> = pt"
  "\<lparr>fp_partition = fp_partition f, fp_fetch_offset = fp_fetch_offset f, fp_partition_max_bytes = fp_partition_max_bytes f\<rparr> = f"
  "\<lparr>ft_name = ft_name ft, ft_partitions = ft_partitions ft\<rparr> = ft"
  "\<lparr>lp_partition = lp_partition l, lp_timestamp = lp_timestamp l\<rparr> = l"
  "\<lparr>lt_name = lt_name lt, lt_partitions = lt_partitions lt\<rparr> = lt"
  by (cases p, simp, cases pt, simp, cases f, simp, cases ft, simp, cases l, simp, cases lt, simp)

lemmas reads_more = reads_step reads_bind [OF reads_name] reads_bind_last [OF reads_name]
  reads_bind [OF reads_required] reads_bind_last [OF reads_required]

lemma reads_find_coordinator:
  "body_ok pack (FindCoordinator key t) \<Longrightarrow>
     reads decode_find_coordinator (client_body pack (FindCoordinator key t)) (FindCoordinator key t)"
  unfolding decode_find_coordinator_def client_body.simps body_ok.simps
  by (intro reads_more) (auto simp: in_signed_def)

lemma reads_init_producer_id:
  "body_ok pack (InitProducerId tid t) \<Longrightarrow>
     reads decode_init_producer_id (client_body pack (InitProducerId tid t)) (InitProducerId tid t)"
  unfolding decode_init_producer_id_def client_body.simps body_ok.simps opt_ok_def
  by (intro reads_more) auto

lemma reads_txn_partition: "0 \<le> p \<Longrightarrow> in_i32 p \<Longrightarrow> reads txn_partition (be_bytes 4 p) p"
  unfolding txn_partition_def by (intro reads_more) auto

lemma reads_txn_topic:
  "string_ok (fst t) \<Longrightarrow> small (\<lambda>p. 0 \<le> p \<and> in_i32 p) (snd t) \<Longrightarrow> reads txn_topic (txn_topic_field t) t"
  unfolding txn_topic_def txn_topic_field_def case_prod_beta small_def
  by (rule reads_bind [OF str.field_reads], simp)
    (rule reads_bind_last [OF reads_array_id], auto simp: list_all_iff intro: reads_txn_partition reads_return)

lemma reads_add_partitions:
  "body_ok pack (AddPartitionsToTxn tid p e topics) \<Longrightarrow>
     reads decode_add_partitions_to_txn (client_body pack (AddPartitionsToTxn tid p e topics)) (AddPartitionsToTxn tid p e topics)"
  unfolding decode_add_partitions_to_txn_def client_body.simps body_ok.simps small_def [of _ topics]
  by (intro reads_more) (auto simp: list_all_iff case_prod_beta intro!: reads_txn_topic)

lemma reads_end_txn:
  "body_ok pack (EndTxn tid p e c) \<Longrightarrow> reads decode_end_txn (client_body pack (EndTxn tid p e c)) (EndTxn tid p e c)"
  unfolding decode_end_txn_def client_body.simps body_ok.simps
  by (rule reads_bind [OF str.field_reads], simp, rule reads_bind [OF i64.field_reads], simp,
      rule reads_bind [OF i16.field_reads], simp, rule reads_bind_last [OF i8.field_reads])
    (auto simp: in_signed_def reads_return)

lemma reads_subscription: "small string_ok subs \<Longrightarrow> reads subscription_metadata (subscription_field subs) subs"
  unfolding subscription_metadata_def subscription_field_def small_def
  by (intro reads_more) (auto simp: in_signed_def list_all_iff intro: str.field_reads)

lemma reads_join_group:
  assumes "body_ok pack (JoinGroup g m subs)"
  shows "reads decode_join_group (client_body pack (JoinGroup g m subs)) (JoinGroup g m subs)"
proof -
  have ok: "string_ok g" "string_ok m" "small string_ok subs" "length (subscription_field subs) \<le> MAX_FRAME_LEN"
    using assms by simp_all
  then have "length (subscription_field subs) \<le> usize_max" by (simp add: MAX_FRAME_LEN_def usize_max_def)
  then have nested: "reads (run_on (subscription_field subs) subscription_metadata) [] subs"
    using reads_run_on [OF reads_is_exact [OF reads_subscription [OF ok(3)]]] by simp
  have rest: "reads (dbind (run_on (subscription_field subs) subscription_metadata) (\<lambda>subscriptions.
      dbind (dec_times (1 - 1) skip_protocol) (\<lambda>_. dreturn (JoinGroup g m subscriptions)))) [] (JoinGroup g m subs)"
    by (rule reads_bind_last [OF nested]) (simp, rule reads_bind_last [OF reads_return reads_return])
  show ?thesis
    unfolding decode_join_group_def client_body.simps
    by (intro reads_more) (use ok rest in \<open>simp_all add: in_signed_def MAX_STRING_LEN_def MAX_ARRAY_LEN_def\<close>)
qed

lemma reads_sync_group:
  assumes "body_ok pack (SyncGroup g n m a)"
  shows "reads decode_sync_group (client_body pack (SyncGroup g n m a)) (SyncGroup g n m a)"
proof -
  have ok: "string_ok g" "in_i32 n" "string_ok m" "length a \<le> MAX_FRAME_LEN" using assms by simp_all
  have el: "reads sync_assignment (string_field m @ bytes_field (Some a)) a"
    unfolding sync_assignment_def by (rule reads_bind [OF str.field_reads [OF ok(3)] reads_required [OF ok(4)]])
  show ?thesis
    unfolding decode_sync_group_def client_body.simps
    by (intro reads_bind [OF str.field_reads] reads_bind [OF i32.field_reads] reads_bind_last [OF reads_array_id])
      (use ok el in \<open>auto simp: MAX_ARRAY_LEN_def reads_return\<close>)
qed

lemma reads_group_requests:
  "body_ok pack (Heartbeat g n m) \<Longrightarrow> reads decode_heartbeat (client_body pack (Heartbeat g n m)) (Heartbeat g n m)"
  "body_ok pack (LeaveGroup g m) \<Longrightarrow> reads decode_leave_group (client_body pack (LeaveGroup g m)) (LeaveGroup g m)"
  unfolding decode_heartbeat_def decode_leave_group_def client_body.simps body_ok.simps
  by (intro reads_more; simp)+

lemma reads_offset_requests:
  "body_ok pack (OffsetCommit g n m t p off) \<Longrightarrow>
     reads decode_offset_commit (client_body pack (OffsetCommit g n m t p off)) (OffsetCommit g n m t p off)"
  "body_ok pack (OffsetFetch g t p) \<Longrightarrow>
     reads decode_offset_fetch (client_body pack (OffsetFetch g t p)) (OffsetFetch g t p)"
  unfolding decode_offset_commit_def decode_offset_fetch_def client_body.simps body_ok.simps
  by (intro reads_more; simp add: in_signed_def MAX_ARRAY_LEN_def)+

lemma reads_metadata:
  assumes "body_ok pack (Metadata topics)"
  shows "reads decode_metadata (client_body pack (Metadata topics)) (Metadata topics)"
proof -
  let ?k = "\<lambda>len. case len of None \<Rightarrow> dreturn (Metadata None)
    | Some count \<Rightarrow> dbind (dec_times count non_empty_string) (\<lambda>topics. dreturn (Metadata (Some topics)))"
  show ?thesis
  proof (cases topics)
    case None
    show ?thesis
      unfolding None client_body.simps decode_metadata_def
      by (rule reads_bind_last [OF nullable_array_reads(1)]) (simp add: reads_return)
  next
    case (Some ts)
    then have ok: "array_ok (length ts)" "\<And>t. t \<in> set ts \<Longrightarrow> name_ok t"
      using assms by (auto simp: small_def list_all_iff)
    have "reads nullable_array_len (array_len_field (length ts)) (Some (length ts))"
      by (rule nullable_array_reads(2) [OF ok(1)])
    moreover have "reads (dec_times (length ts) non_empty_string) (concat (map string_field ts)) ts"
      using reads_times [of ts non_empty_string string_field "\<lambda>t. t"] ok(2) by (simp add: reads_name)
    ultimately show ?thesis
      unfolding Some client_body.simps decode_metadata_def array_field_def
      by (intro reads_bind) (auto intro: reads_bind_return)
  qed
qed

lemma reads_produce_partition:
  assumes "produce_partition_ok pack p"
  shows "reads produce_partition (produce_partition_field pack p) p"
proof -
  have ok: "in_i32 (pp_partition p)" "pp_records p \<noteq> []" "length (pack (pp_records p) (pp_producer p)) \<le> MAX_FRAME_LEN"
    and dec: "decode_record_batches_with_identity (pack (pp_records p) (pp_producer p)) =
      Inr \<lparr>db_records = pp_records p, db_producer = pp_producer p\<rparr>"
    using assms by (auto simp: produce_partition_ok_def)
  have lift: "reads (lift_result (Inr v)) [] v" for v :: DecodedRecordBatch
    by (simp add: reads_def lift_result_def)
  show ?thesis
    unfolding produce_partition_def produce_partition_field_def
    by (rule reads_bind [OF i32.field_reads [OF ok(1)]], rule reads_bind_last [OF reads_required [OF ok(3)]])
      (use ok(2) in \<open>auto simp: dec reads_return intro!: reads_bind_last [OF lift]\<close>)
qed

lemma reads_produce_topic:
  "name_ok (pt_name t) \<Longrightarrow> small (produce_partition_ok pack) (pt_partitions t) \<Longrightarrow>
     reads produce_topic (produce_topic_field pack t) t"
  unfolding produce_topic_def produce_topic_field_def small_def
  by (rule reads_bind [OF reads_name], simp, rule reads_bind_last [OF reads_array_id])
    (auto simp: list_all_iff reads_return intro: reads_produce_partition)

lemma reads_produce:
  "body_ok pack (Produce tid acks t topics) \<Longrightarrow>
     reads decode_produce (client_body pack (Produce tid acks t topics)) (Produce tid acks t topics)"
  unfolding decode_produce_def client_body.simps body_ok.simps small_def [of _ topics] opt_ok_def
  by (intro reads_more) (auto simp: list_all_iff intro!: reads_produce_topic)

lemma reads_fetch_partition:
  "in_i32 (fp_partition p) \<Longrightarrow> in_i64 (fp_fetch_offset p) \<Longrightarrow> in_i32 (fp_partition_max_bytes p) \<Longrightarrow>
     0 \<le> fp_partition_max_bytes p \<Longrightarrow> reads fetch_partition (fetch_partition_field p) p"
  unfolding fetch_partition_def fetch_partition_field_def
  by (rule reads_bind [OF i32.field_reads], simp, rule reads_bind [OF i64.field_reads], simp,
      rule reads_bind_last [OF i32.field_reads]) (simp_all add: reads_return)

lemma reads_fetch_topic:
  "name_ok (ft_name t) \<Longrightarrow> small (\<lambda>p. in_i32 (fp_partition p) \<and> in_i64 (fp_fetch_offset p)
     \<and> in_i32 (fp_partition_max_bytes p) \<and> 0 \<le> fp_partition_max_bytes p) (ft_partitions t) \<Longrightarrow>
     reads fetch_topic (fetch_topic_field t) t"
  unfolding fetch_topic_def fetch_topic_field_def small_def
  by (rule reads_bind [OF reads_name], simp, rule reads_bind_last [OF reads_array_id])
    (auto simp: list_all_iff reads_return intro: reads_fetch_partition)

lemma reads_fetch:
  assumes "body_ok pack (Fetch r w mn mx rc topics)"
  shows "reads decode_fetch (client_body pack (Fetch r w mn mx rc topics)) (Fetch r w mn mx rc topics)"
proof -
  have iso: "reads (dbind dec_i8 (\<lambda>isolation. if isolation \<noteq> 0 \<and> isolation \<noteq> 1 then dfail Invalid else
      dbind (dec_array fetch_topic) (\<lambda>topics. dreturn (Fetch r w mn mx (isolation = 1) topics))))
      (be_bytes 1 (if rc then 1 else 0) @ array_field fetch_topic_field topics) (Fetch r w mn mx rc topics)"
    using assms unfolding body_ok.simps small_def [of _ topics]
    by (intro reads_bind [OF i8.field_reads] reads_else reads_bind_last [OF reads_array_id])
      (auto simp: in_signed_def list_all_iff reads_return intro!: reads_fetch_topic)
  show ?thesis
    unfolding decode_fetch_def client_body.simps
    by (intro reads_bind [OF i32.field_reads] reads_else) (use assms iso in auto)
qed

lemma reads_list_topic:
  "name_ok (lt_name t) \<Longrightarrow> small (\<lambda>p. in_i32 (lp_partition p) \<and> in_i64 (lp_timestamp p)) (lt_partitions t) \<Longrightarrow>
     reads list_offsets_topic (list_topic_field t) t"
proof -
  have el: "reads list_offsets_partition (list_partition_field p) p"
    if "in_i32 (lp_partition p)" "in_i64 (lp_timestamp p)" for p
    unfolding list_offsets_partition_def list_partition_field_def
    using that by (intro reads_bind [OF i32.field_reads] reads_bind_last [OF i64.field_reads]) (simp_all add: reads_return)
  show "name_ok (lt_name t) \<Longrightarrow> small (\<lambda>p. in_i32 (lp_partition p) \<and> in_i64 (lp_timestamp p)) (lt_partitions t) \<Longrightarrow>
     reads list_offsets_topic (list_topic_field t) t"
    unfolding list_offsets_topic_def list_topic_field_def small_def
    by (rule reads_bind [OF reads_name], simp, rule reads_bind_last [OF reads_array_id])
      (auto simp: list_all_iff reads_return intro: el)
qed

lemma reads_list_offsets:
  "body_ok pack (ListOffsets r topics) \<Longrightarrow>
     reads decode_list_offsets (client_body pack (ListOffsets r topics)) (ListOffsets r topics)"
  unfolding decode_list_offsets_def client_body.simps body_ok.simps small_def [of _ topics]
  by (intro reads_more) (auto simp: list_all_iff intro!: reads_list_topic)

section \<open>Frames\<close>

fun api_of :: "RequestBody \<Rightarrow> int \<times> int" where
  "api_of ApiVersions = (18, 0)"
| "api_of (FindCoordinator k t) = (10, 1)"
| "api_of (InitProducerId tid t) = (22, 0)"
| "api_of (AddPartitionsToTxn tid p e topics) = (24, 0)"
| "api_of (EndTxn tid p e c) = (26, 0)"
| "api_of (JoinGroup g m subs) = (11, 1)"
| "api_of (SyncGroup g n m a) = (14, 0)"
| "api_of (Heartbeat g n m) = (12, 0)"
| "api_of (LeaveGroup g m) = (13, 0)"
| "api_of (OffsetCommit g n m t p off) = (8, 2)"
| "api_of (OffsetFetch g t p) = (9, 1)"
| "api_of (Metadata topics) = (3, 1)"
| "api_of (Produce tid acks t topics) = (0, 3)"
| "api_of (Fetch r w mn mx rc topics) = (1, 4)"
| "api_of (ListOffsets r topics) = (2, 1)"

definition client_payload ::
  "(RecordData list \<Rightarrow> (int \<times> int) option \<Rightarrow> bytes) \<Rightarrow> int \<Rightarrow> bytes option \<Rightarrow> RequestBody \<Rightarrow> bytes" where
  "client_payload pack cid client body =
     be_bytes 2 (fst (api_of body)) @ be_bytes 2 (snd (api_of body)) @ be_bytes 4 cid
     @ nullable_string_field client @ client_body pack body"

definition client_frame ::
  "(RecordData list \<Rightarrow> (int \<times> int) option \<Rightarrow> bytes) \<Rightarrow> int \<Rightarrow> bytes option \<Rightarrow> RequestBody \<Rightarrow> bytes" where
  "client_frame pack cid client body =
     be_bytes 4 (int (length (client_payload pack cid client body))) @ client_payload pack cid client body"

lemma api_of_range: "in_i16 (fst (api_of body))" "in_i16 (snd (api_of body))" "is_supported_api (fst (api_of body))"
  by (cases body; simp add: in_signed_def is_supported_api_def)+

lemma reads_body:
  assumes "body_ok pack body"
  shows "reads (decode_body (fst (api_of body)) (snd (api_of body))) (client_body pack body) body"
  using assms
  by (cases body)
    (simp_all only: api_of.simps fst_conv snd_conv decode_body_def prod.inject zero_neq_one one_neq_zero
      simp_thms if_True if_False numeral_eq_iff num.distinct num.inject zero_neq_numeral numeral_neq_zero
      one_eq_numeral_iff numeral_eq_one_iff reads_find_coordinator reads_init_producer_id reads_add_partitions
      reads_end_txn reads_join_group reads_sync_group reads_group_requests reads_offset_requests reads_metadata
      reads_produce reads_fetch reads_list_offsets client_body.simps(1) reads_return)

text \<open>What every successful run of a reader guarantees of its result.\<close>

definition returns :: "('a \<Rightarrow> bool) \<Rightarrow> 'a reader \<Rightarrow> bool" where
  "returns P f \<longleftrightarrow> (\<forall>d v d'. f d = Inr (v, d') \<longrightarrow> P v)"

lemma returns_bind: "returns Q f \<Longrightarrow> (\<And>v. Q v \<Longrightarrow> returns P (g v)) \<Longrightarrow> returns P (dbind f g)"
  unfolding returns_def dbind_def by (fastforce split: sum.splits prod.splits)

lemma returns_bind_any: "(\<And>v. returns P (g v)) \<Longrightarrow> returns P (dbind f g)"
  by (rule returns_bind [of "\<lambda>_. True"]) (simp_all add: returns_def)

lemma returns_return: "P v \<Longrightarrow> returns P (dreturn v)"
  by (simp add: returns_def dreturn_def)

lemma returns_fail: "returns P (dfail e)"
  by (simp add: returns_def dfail_def)

lemma returns_if: "(c \<Longrightarrow> returns P f) \<Longrightarrow> (\<not> c \<Longrightarrow> returns P g) \<Longrightarrow> returns P (if c then f else g)"
  by simp

lemma returns_times: "returns P f \<Longrightarrow> returns (list_all P) (dec_times n f)"
proof (induction n)
  case (Suc n)
  then have "returns (list_all P) (dec_times n f)" by simp
  then show ?case
    unfolding dec_times.simps
    by (intro returns_bind [OF Suc.prems] returns_bind [of "list_all P"] returns_return) auto
qed (simp add: returns_return)

lemma returns_array: "returns P f \<Longrightarrow> returns (list_all P) (dec_array f)"
  unfolding dec_array_def by (intro returns_bind_any returns_times)

fun body_valid :: "RequestBody \<Rightarrow> bool" where
  "body_valid (FindCoordinator k t) = (k \<noteq> [] \<and> (t = 0 \<or> t = 1))"
| "body_valid (AddPartitionsToTxn tid p e topics) = list_all (\<lambda>(t, ps). list_all (\<lambda>p. 0 \<le> p) ps) topics"
| "body_valid (Metadata (Some topics)) = list_all (\<lambda>t. t \<noteq> []) topics"
| "body_valid (Produce tid acks t topics) =
     list_all (\<lambda>t. pt_name t \<noteq> [] \<and> list_all (\<lambda>p. pp_records p \<noteq> []) (pt_partitions t)) topics"
| "body_valid (Fetch r w mn mx rc topics) =
     (0 \<le> w \<and> 0 \<le> mn \<and> 0 \<le> mx
      \<and> list_all (\<lambda>t. ft_name t \<noteq> [] \<and> list_all (\<lambda>p. 0 \<le> fp_partition_max_bytes p) (ft_partitions t)) topics)"
| "body_valid (ListOffsets r topics) = list_all (\<lambda>t. lt_name t \<noteq> []) topics"
| "body_valid body = True"

definition decoded_as :: "int \<times> int \<Rightarrow> RequestBody \<Rightarrow> bool" where
  "decoded_as kv body \<longleftrightarrow> api_of body = kv \<and> body_valid body"

lemma returns_name: "returns (\<lambda>s. s \<noteq> []) non_empty_string"
  unfolding non_empty_string_def by (intro returns_bind_any returns_if returns_fail returns_return)

lemma returns_txn_topic: "returns (\<lambda>(t, ps). list_all (\<lambda>p. 0 \<le> p) ps) txn_topic"
proof -
  have "returns (\<lambda>p. 0 \<le> p) txn_partition"
    unfolding txn_partition_def by (intro returns_bind_any returns_if returns_fail returns_return) simp
  then show ?thesis
    unfolding txn_topic_def
    by (intro returns_bind_any returns_bind [OF returns_array] returns_return) auto
qed

lemma returns_produce_topic:
  "returns (\<lambda>t. pt_name t \<noteq> [] \<and> list_all (\<lambda>p. pp_records p \<noteq> []) (pt_partitions t)) produce_topic"
proof -
  have "returns (\<lambda>p. pp_records p \<noteq> []) produce_partition"
    unfolding produce_partition_def by (intro returns_bind_any returns_if returns_fail returns_return) simp
  then show ?thesis
    unfolding produce_topic_def
    by (intro returns_bind [OF returns_name] returns_bind [OF returns_array] returns_return) auto
qed

lemma returns_fetch_topic:
  "returns (\<lambda>t. ft_name t \<noteq> [] \<and> list_all (\<lambda>p. 0 \<le> fp_partition_max_bytes p) (ft_partitions t)) fetch_topic"
proof -
  have "returns (\<lambda>p. 0 \<le> fp_partition_max_bytes p) fetch_partition"
    unfolding fetch_partition_def by (intro returns_bind_any returns_if returns_fail returns_return) simp
  then show ?thesis
    unfolding fetch_topic_def
    by (intro returns_bind [OF returns_name] returns_bind [OF returns_array] returns_return) auto
qed

lemma returns_list_topic: "returns (\<lambda>t. lt_name t \<noteq> []) list_offsets_topic"
  unfolding list_offsets_topic_def
  by (intro returns_bind [OF returns_name] returns_bind_any returns_return) simp

lemma returns_bodies:
  "returns (decoded_as (10, 1)) decode_find_coordinator"
  "returns (decoded_as (22, 0)) decode_init_producer_id"
  "returns (decoded_as (24, 0)) decode_add_partitions_to_txn"
  "returns (decoded_as (26, 0)) decode_end_txn"
  "returns (decoded_as (11, 1)) decode_join_group"
  "returns (decoded_as (14, 0)) decode_sync_group"
  "returns (decoded_as (12, 0)) decode_heartbeat"
  "returns (decoded_as (13, 0)) decode_leave_group"
  "returns (decoded_as (8, 2)) decode_offset_commit"
  "returns (decoded_as (9, 1)) decode_offset_fetch"
  unfolding decode_find_coordinator_def decode_init_producer_id_def decode_add_partitions_to_txn_def
    decode_end_txn_def decode_join_group_def decode_sync_group_def decode_heartbeat_def decode_leave_group_def
    decode_offset_commit_def decode_offset_fetch_def
  by (intro returns_bind [OF returns_name] returns_bind [OF returns_array [OF returns_txn_topic]]
      returns_bind_any returns_if returns_fail returns_return; simp add: decoded_as_def)+

lemma returns_data_bodies:
  "returns (decoded_as (0, 3)) decode_produce"
  "returns (decoded_as (1, 4)) decode_fetch"
  "returns (decoded_as (2, 1)) decode_list_offsets"
  "returns (decoded_as (3, 1)) decode_metadata"
proof -
  show "returns (decoded_as (0, 3)) decode_produce"
    unfolding decode_produce_def
    by (rule returns_bind_any, rule returns_bind_any, rule returns_bind_any,
        rule returns_bind [OF returns_array [OF returns_produce_topic]], rule returns_return) (simp add: decoded_as_def)
  show "returns (decoded_as (1, 4)) decode_fetch"
    unfolding decode_fetch_def
    by (rule returns_bind_any, rule returns_bind_any, rule returns_bind_any, rule returns_bind_any,
        rule returns_if, rule returns_fail, rule returns_bind_any, rule returns_if, rule returns_fail,
        rule returns_bind [OF returns_array [OF returns_fetch_topic]], rule returns_return) (simp add: decoded_as_def)
  show "returns (decoded_as (2, 1)) decode_list_offsets"
    unfolding decode_list_offsets_def
    by (rule returns_bind_any, rule returns_bind [OF returns_array [OF returns_list_topic]], rule returns_return)
      (simp add: decoded_as_def)
  show "returns (decoded_as (3, 1)) decode_metadata"
    unfolding decode_metadata_def
    by (rule returns_bind_any)
      (auto split: option.splits intro!: returns_return returns_bind [OF returns_times [OF returns_name]] simp: decoded_as_def)
qed

lemma returns_body:
  "returns (\<lambda>body. decoded_as (k, v) body \<and> (k, v, v) \<in> set SUPPORTED_VERSIONS) (decode_body k v)"
  unfolding decode_body_def
  using returns_bodies returns_data_bodies
  by (auto simp: returns_def dreturn_def dfail_def decoded_as_def SUPPORTED_VERSIONS_def split: if_splits)

lemma decode_client_frame:
  assumes "body_ok pack body" and "in_i32 cid" and "opt_ok client"
    and "length (client_payload pack cid client body) \<le> MAX_FRAME_LEN"
  shows "decode_request (client_frame pack cid client body) =
           Inr \<lparr>rq_header = \<lparr>hd_api_key = fst (api_of body), hd_api_version = snd (api_of body),
                               hd_correlation_id = cid, hd_client_id = client\<rparr>,
                rq_body = body\<rparr>"
proof -
  let ?p = "client_payload pack cid client body"
  let ?r = "\<lparr>rq_header = \<lparr>hd_api_key = fst (api_of body), hd_api_version = snd (api_of body),
                           hd_correlation_id = cid, hd_client_id = client\<rparr>, rq_body = body\<rparr>"
  have n: "in_i32 (int (length ?p))" "length ?p \<le> usize_max"
    using assms(4) by (simp_all add: MAX_FRAME_LEN_def in_signed_def usize_max_def)
  have rest: "reads_exact (dbind (decode_body (fst (api_of body)) (snd (api_of body))) (\<lambda>b. dbind expect_done (\<lambda>_. dreturn
      \<lparr>rq_header = \<lparr>hd_api_key = fst (api_of body), hd_api_version = snd (api_of body),
         hd_correlation_id = cid, hd_client_id = client\<rparr>, rq_body = b\<rparr>))) (client_body pack body @ []) ?r"
    by (rule reads_exact_bind [OF reads_body [OF assms(1)]]) (rule reads_exact_done [OF reads_return])
  have "reads_exact request_fields ?p ?r"
    unfolding request_fields_def client_payload_def
    by (intro reads_exact_bind [OF i16.field_reads] reads_exact_bind [OF i32.field_reads] reads_exact_bind [OF nstr.field_reads])
      (use rest api_of_range [of body] assms(2,3) in \<open>simp_all add: opt_ok_def\<close>)
  then have "request_fields (dec_new ?p) = Inr (?r, at ?p [])"
    using n(2) by (rule reads_exact_new)
  then show ?thesis
    using n(1) assms(4) by (simp add: decode_request_def client_frame_def Let_def be_int_bytes)
qed

section \<open>Properties\<close>

text \<open>
  C11: requests round trip. For every supported API, the frame a client builds for a valid request
  (length prefix, header, body in the Kafka layout) decodes to exactly that request, with its
  correlation id and client id. The client's record sets are any bytes that decode to its records.
\<close>

theorem request_round_trip:
  assumes "body_ok pack body" and "in_i32 cid" and "opt_ok client"
    and "length (client_payload pack cid client body) \<le> MAX_FRAME_LEN"
  shows "decode_request (client_frame pack cid client body) =
           Inr \<lparr>rq_header = \<lparr>hd_api_key = fst (api_of body), hd_api_version = snd (api_of body),
                               hd_correlation_id = cid, hd_client_id = client\<rparr>,
                rq_body = body\<rparr>"
  using assms by (rule decode_client_frame)

theorem request_round_trip_witness:
  "decode_request (client_frame (\<lambda>_ _. []) 7 (Some [99]) (Fetch (- 1) 100 1 4096 True
       [\<lparr>ft_name = [116], ft_partitions = [\<lparr>fp_partition = 0, fp_fetch_offset = 5, fp_partition_max_bytes = 1024\<rparr>]\<rparr>])) =
     Inr \<lparr>rq_header = \<lparr>hd_api_key = 1, hd_api_version = 4, hd_correlation_id = 7, hd_client_id = Some [99]\<rparr>,
          rq_body = Fetch (- 1) 100 1 4096 True
            [\<lparr>ft_name = [116], ft_partitions = [\<lparr>fp_partition = 0, fp_fetch_offset = 5, fp_partition_max_bytes = 1024\<rparr>]\<rparr>]\<rparr>"
  using request_round_trip [of "\<lambda>_ _. []" "Fetch (- 1) 100 1 4096 True
       [\<lparr>ft_name = [116], ft_partitions = [\<lparr>fp_partition = 0, fp_fetch_offset = 5, fp_partition_max_bytes = 1024\<rparr>]\<rparr>]"
      7 "Some [99]"]
  by (simp add: small_def name_ok_def opt_ok_def MAX_STRING_LEN_def MAX_ARRAY_LEN_def MAX_FRAME_LEN_def in_signed_def
      client_payload_def nullable_string_field_def string_field_def array_field_def array_len_field_def
      fetch_topic_field_def fetch_partition_field_def)

lemma decoded_request_facts:
  assumes "decode_request frame = Inr r"
  shows "be_int 4 (take 4 frame) = int (length frame) - 4 \<and> length frame \<le> MAX_FRAME_LEN + 4
    \<and> (hd_api_key (rq_header r), hd_api_version (rq_header r), hd_api_version (rq_header r)) \<in> set SUPPORTED_VERSIONS
    \<and> api_of (rq_body r) = (hd_api_key (rq_header r), hd_api_version (rq_header r)) \<and> body_valid (rq_body r)
    \<and> peek_header frame = Inr ((rq_header r)\<lparr>hd_client_id := None\<rparr>)"
proof -
  obtain d where len: "4 \<le> length frame" "0 \<le> be_int 4 (take 4 frame)" "nat (be_int 4 (take 4 frame)) \<le> MAX_FRAME_LEN"
    "nat (be_int 4 (take 4 frame)) + 4 = length frame"
    and f: "request_fields (dec_new (drop 4 frame)) = Inr (r, d)"
    using assms by (auto simp: decode_request_def Let_def split: if_splits sum.splits prod.splits)
  obtain k d1 v d2 c d3 e e' where k: "dec_i16 (dec_new (drop 4 frame)) = Inr (k, d1)" and v: "dec_i16 d1 = Inr (v, d2)"
    and c: "dec_i32 d2 = Inr (c, d3)" and hd: "hd_api_key (rq_header r) = k" "hd_api_version (rq_header r) = v"
    "hd_correlation_id (rq_header r) = c" and b: "decode_body k v e = Inr (rq_body r, e')"
    using f by (auto simp: request_fields_def dbind_def dreturn_def dfail_def split: sum.splits prod.splits if_splits)
  have "decoded_as (k, v) (rq_body r) \<and> (k, v, v) \<in> set SUPPORTED_VERSIONS"
    using b returns_body [of k v] unfolding returns_def by blast
  moreover have "peek_header frame = Inr ((rq_header r)\<lparr>hd_client_id := None\<rparr>)"
    using k v c hd len(1)
    by (cases "rq_header r")
      (auto simp: peek_header_def dec_i16_def dec_i32_def dbind_def dreturn_def dec_take_def dec_new_def Let_def
        drop_drop split: if_splits)
  ultimately show ?thesis
    using len hd by (auto simp: decoded_as_def)
qed

text \<open>
  C34: only advertised requests are accepted, and only validated ones. A frame that decodes has a
  length prefix that matches it and is within the frame limit; its API key and version are
  advertised in the ApiVersions response; its body is the one of that API and meets the rules of
  the protocol (non-empty names, non-negative limits and partitions, non-empty record
  sets); and the header peeked for error responses agrees with the decoded one.
\<close>

theorem accepted_request_advertised:
  assumes "decode_request frame = Inr r"
  shows "be_int 4 (take 4 frame) = int (length frame) - 4 \<and> length frame \<le> MAX_FRAME_LEN + 4
    \<and> (hd_api_key (rq_header r), hd_api_version (rq_header r), hd_api_version (rq_header r)) \<in> set SUPPORTED_VERSIONS
    \<and> api_of (rq_body r) = (hd_api_key (rq_header r), hd_api_version (rq_header r)) \<and> body_valid (rq_body r)
    \<and> peek_header frame = Inr ((rq_header r)\<lparr>hd_client_id := None\<rparr>)"
  by (rule decoded_request_facts [OF assms])

theorem accepted_request_advertised_witness:
  "\<exists>r. decode_request (client_frame (\<lambda>_ _. []) 7 None ApiVersions) = Inr r \<and> rq_body r = ApiVersions
     \<and> (18, 0, 0) \<in> set SUPPORTED_VERSIONS"
proof -
  let ?r = "\<lparr>rq_header = \<lparr>hd_api_key = 18, hd_api_version = 0, hd_correlation_id = 7, hd_client_id = None\<rparr>,
    rq_body = ApiVersions\<rparr>"
  have d: "decode_request (client_frame (\<lambda>_ _. []) 7 None ApiVersions) = Inr ?r"
    using decode_client_frame [of "\<lambda>_ _. []" ApiVersions 7 None]
    by (simp add: opt_ok_def in_signed_def client_payload_def nullable_string_field_def MAX_FRAME_LEN_def)
  show ?thesis using accepted_request_advertised [OF d] d by auto
qed

end
