(* ===== verification/Wire_Response.thy ===== *)
theory Wire_Response
  imports Record_Batch
begin

text \<open>
  Response encoding, \<^verbatim>\<open>crates/broker-wire/src/response.rs\<close>: the response types and one encoder per
  supported API. An encoder starts a response, appends its fields in order, giving up on
  the first field that exceeds its bound, and patches the length prefix at the end.
\<close>

section \<open>Response types\<close>

record BrokerMetadata =
  bm_node_id :: int
  bm_host :: bytes
  bm_port :: int

record PartitionMetadata =
  pm_error :: int
  pm_partition :: int
  pm_leader :: int
  pm_replicas :: "int list"
  pm_isr :: "int list"

text \<open>The wire crate's \<^verbatim>\<open>TopicMetadata\<close>; the core crate has a type of the same name.\<close>

record WireTopicMetadata =
  wtm_error :: int
  wtm_name :: bytes
  wtm_is_internal :: bool
  wtm_partitions :: "PartitionMetadata list"

record MetadataResponse =
  mr_brokers :: "BrokerMetadata list"
  mr_controller_id :: int
  mr_topics :: "WireTopicMetadata list"

record FindCoordinatorResponse =
  fc_error :: int
  fc_node_id :: int
  fc_host :: bytes
  fc_port :: int

record InitProducerIdResponse =
  ip_error :: int
  ip_producer_id :: int
  ip_producer_epoch :: int

record TransactionPartitionResult =
  tpr_topic :: bytes
  tpr_partitions :: "(int \<times> int) list"

record JoinGroupResponse =
  jg_error :: int
  jg_generation :: int
  jg_protocol :: bytes
  jg_leader :: bytes
  jg_member_id :: bytes
  jg_members :: "(bytes \<times> bytes) list"

record ProducePartitionResult =
  ppr_partition :: int
  ppr_error :: int
  ppr_base_offset :: int
  ppr_log_append_time_ms :: int

record ProduceTopicResult =
  ptr_name :: bytes
  ptr_partitions :: "ProducePartitionResult list"

record ProduceResponse =
  pr_topics :: "ProduceTopicResult list"
  pr_throttle_time_ms :: int

record FetchPartitionResult =
  fpr_partition :: int
  fpr_error :: int
  fpr_high_watermark :: int
  fpr_last_stable_offset :: int
  fpr_aborted_transactions :: "(int \<times> int) list option"
  fpr_records :: "Record list"

record FetchTopicResult =
  ftr_name :: bytes
  ftr_partitions :: "FetchPartitionResult list"

record FetchResponse =
  fr_throttle_time_ms :: int
  fr_topics :: "FetchTopicResult list"

record ListOffsetsPartitionResult =
  lpr_partition :: int
  lpr_error :: int
  lpr_timestamp_ms :: int
  lpr_offset :: int

record ListOffsetsTopicResult =
  ltr_name :: bytes
  ltr_partitions :: "ListOffsetsPartitionResult list"

record ListOffsetsResponse =
  lr_topics :: "ListOffsetsTopicResult list"

section \<open>Encoders\<close>

text \<open>Run the field steps on a fresh response and finish it.\<close>

definition respond_with :: "int \<Rightarrow> (Encoder \<Rightarrow> WireError + Encoder) list \<Rightarrow> WireError + bytes" where
  "respond_with correlation_id steps =
     (case enc_seq steps (enc_response correlation_id) of Inl e \<Rightarrow> Inl e | Inr e \<Rightarrow> Inr (enc_finish e))"

text \<open>The bodies of the encoders' loops, one definition per element type.\<close>

definition put_version :: "int \<times> int \<times> int \<Rightarrow> Encoder \<Rightarrow> WireError + Encoder" where
  "put_version = (\<lambda>(api_key, min, max). enc_seq
     [eok (enc_i16 api_key), eok (enc_i16 min), eok (enc_i16 max)])"

definition encode_api_versions_error :: "int \<Rightarrow> int \<Rightarrow> (int \<times> int \<times> int) list \<Rightarrow> WireError + bytes" where
  "encode_api_versions_error correlation_id error versions = respond_with correlation_id
     [eok (enc_i16 error),
      enc_array_len (length versions),
      enc_each put_version versions]"

definition encode_api_versions :: "int \<Rightarrow> (int \<times> int \<times> int) list \<Rightarrow> WireError + bytes" where
  "encode_api_versions correlation_id versions = encode_api_versions_error correlation_id NO_ERROR versions"

definition put_broker :: "BrokerMetadata \<Rightarrow> Encoder \<Rightarrow> WireError + Encoder" where
  "put_broker broker = enc_seq
     [eok (enc_i32 (bm_node_id broker)),
      enc_string (bm_host broker),
      eok (enc_i32 (bm_port broker)),
      enc_nullable_string None]"

definition put_replica :: "int \<Rightarrow> Encoder \<Rightarrow> WireError + Encoder" where
  "put_replica replica = eok (enc_i32 replica)"

definition put_partition_metadata :: "PartitionMetadata \<Rightarrow> Encoder \<Rightarrow> WireError + Encoder" where
  "put_partition_metadata prt = enc_seq
     [eok (enc_i16 (pm_error prt)),
      eok (enc_i32 (pm_partition prt)),
      eok (enc_i32 (pm_leader prt)),
      enc_array_len (length (pm_replicas prt)),
      enc_each put_replica (pm_replicas prt),
      enc_array_len (length (pm_isr prt)),
      enc_each put_replica (pm_isr prt)]"

definition put_topic_metadata :: "WireTopicMetadata \<Rightarrow> Encoder \<Rightarrow> WireError + Encoder" where
  "put_topic_metadata topic = enc_seq
     [eok (enc_i16 (wtm_error topic)),
      enc_string (wtm_name topic),
      eok (enc_bool (wtm_is_internal topic)),
      enc_array_len (length (wtm_partitions topic)),
      enc_each put_partition_metadata (wtm_partitions topic)]"

definition encode_metadata :: "int \<Rightarrow> MetadataResponse \<Rightarrow> WireError + bytes" where
  "encode_metadata correlation_id response = respond_with correlation_id
     [enc_array_len (length (mr_brokers response)),
      enc_each put_broker (mr_brokers response),
      eok (enc_i32 (mr_controller_id response)),
      enc_array_len (length (mr_topics response)),
      enc_each put_topic_metadata (mr_topics response)]"

definition encode_find_coordinator :: "int \<Rightarrow> FindCoordinatorResponse \<Rightarrow> WireError + bytes" where
  "encode_find_coordinator correlation_id response = respond_with correlation_id
     [eok (enc_i32 0),
      eok (enc_i16 (fc_error response)),
      enc_nullable_string None,
      eok (enc_i32 (fc_node_id response)),
      enc_string (fc_host response),
      eok (enc_i32 (fc_port response))]"

definition encode_init_producer_id :: "int \<Rightarrow> InitProducerIdResponse \<Rightarrow> WireError + bytes" where
  "encode_init_producer_id correlation_id response = respond_with correlation_id
     [eok (enc_i32 0),
      eok (enc_i16 (ip_error response)),
      eok (enc_i64 (ip_producer_id response)),
      eok (enc_i16 (ip_producer_epoch response))]"

definition put_txn_partition :: "int \<times> int \<Rightarrow> Encoder \<Rightarrow> WireError + Encoder" where
  "put_txn_partition = (\<lambda>(prt, error). enc_seq [eok (enc_i32 prt), eok (enc_i16 error)])"

definition put_txn_topic :: "TransactionPartitionResult \<Rightarrow> Encoder \<Rightarrow> WireError + Encoder" where
  "put_txn_topic topic = enc_seq
     [enc_string (tpr_topic topic),
      enc_array_len (length (tpr_partitions topic)),
      enc_each put_txn_partition (tpr_partitions topic)]"

definition encode_add_partitions_to_txn :: "int \<Rightarrow> TransactionPartitionResult list \<Rightarrow> WireError + bytes" where
  "encode_add_partitions_to_txn correlation_id topics = respond_with correlation_id
     [eok (enc_i32 0),
      enc_array_len (length topics),
      enc_each put_txn_topic topics]"

definition encode_end_txn :: "int \<Rightarrow> int \<Rightarrow> WireError + bytes" where
  "encode_end_txn correlation_id error = respond_with correlation_id
     [eok (enc_i32 0), eok (enc_i16 error)]"

definition put_member :: "bytes \<times> bytes \<Rightarrow> Encoder \<Rightarrow> WireError + Encoder" where
  "put_member = (\<lambda>(member, metadata). enc_seq [enc_string member, enc_bytes metadata])"

definition encode_join_group :: "int \<Rightarrow> JoinGroupResponse \<Rightarrow> WireError + bytes" where
  "encode_join_group correlation_id response = respond_with correlation_id
     [eok (enc_i16 (jg_error response)),
      eok (enc_i32 (jg_generation response)),
      enc_string (jg_protocol response),
      enc_string (jg_leader response),
      enc_string (jg_member_id response),
      enc_array_len (length (jg_members response)),
      enc_each put_member (jg_members response)]"

definition encode_sync_group :: "int \<Rightarrow> int \<Rightarrow> bytes \<Rightarrow> WireError + bytes" where
  "encode_sync_group correlation_id error assignment = respond_with correlation_id
     [eok (enc_i16 error), enc_bytes assignment]"

definition encode_group_error :: "int \<Rightarrow> int \<Rightarrow> WireError + bytes" where
  "encode_group_error correlation_id error = respond_with correlation_id [eok (enc_i16 error)]"

definition encode_offset_fetch :: "int \<Rightarrow> bytes \<Rightarrow> int \<Rightarrow> int \<Rightarrow> int \<Rightarrow> WireError + bytes" where
  "encode_offset_fetch correlation_id topic prt offset error = respond_with correlation_id
     [enc_array_len 1,
      enc_string topic,
      enc_array_len 1,
      eok (enc_i32 prt),
      eok (enc_i64 offset),
      enc_nullable_string None,
      eok (enc_i16 error)]"

definition encode_offset_commit :: "int \<Rightarrow> bytes \<Rightarrow> int \<Rightarrow> int \<Rightarrow> WireError + bytes" where
  "encode_offset_commit correlation_id topic prt error = respond_with correlation_id
     [enc_array_len 1,
      enc_string topic,
      enc_array_len 1,
      eok (enc_i32 prt),
      eok (enc_i16 error)]"

definition put_produce_partition :: "ProducePartitionResult \<Rightarrow> Encoder \<Rightarrow> WireError + Encoder" where
  "put_produce_partition prt = enc_seq
     [eok (enc_i32 (ppr_partition prt)),
      eok (enc_i16 (ppr_error prt)),
      eok (enc_i64 (ppr_base_offset prt)),
      eok (enc_i64 (ppr_log_append_time_ms prt))]"

definition put_produce_topic :: "ProduceTopicResult \<Rightarrow> Encoder \<Rightarrow> WireError + Encoder" where
  "put_produce_topic topic = enc_seq
     [enc_string (ptr_name topic),
      enc_array_len (length (ptr_partitions topic)),
      enc_each put_produce_partition (ptr_partitions topic)]"

definition encode_produce :: "int \<Rightarrow> ProduceResponse \<Rightarrow> WireError + bytes" where
  "encode_produce correlation_id response = respond_with correlation_id
     [enc_array_len (length (pr_topics response)),
      enc_each put_produce_topic (pr_topics response),
      eok (enc_i32 (pr_throttle_time_ms response))]"

definition put_aborted_range :: "int \<times> int \<Rightarrow> Encoder \<Rightarrow> WireError + Encoder" where
  "put_aborted_range = (\<lambda>(producer_id, first_offset). enc_seq
     [eok (enc_i64 producer_id), eok (enc_i64 first_offset)])"

definition put_aborted :: "(int \<times> int) list option \<Rightarrow> Encoder \<Rightarrow> WireError + Encoder" where
  "put_aborted aborted_transactions =
     (case aborted_transactions of
        Some aborted \<Rightarrow> enc_seq [enc_array_len (length aborted), enc_each put_aborted_range aborted]
      | None \<Rightarrow> enc_nullable_array_len None)"

definition put_records :: "Record list \<Rightarrow> Encoder \<Rightarrow> WireError + Encoder" where
  "put_records records e =
     (if records = [] then enc_bytes [] e
      else case encode_record_batch (rec_offset (hd records)) records of
        Inl er \<Rightarrow> Inl er
      | Inr batch \<Rightarrow> enc_bytes batch e)"

definition put_fetch_partition :: "FetchPartitionResult \<Rightarrow> Encoder \<Rightarrow> WireError + Encoder" where
  "put_fetch_partition prt = enc_seq
     [eok (enc_i32 (fpr_partition prt)),
      eok (enc_i16 (fpr_error prt)),
      eok (enc_i64 (fpr_high_watermark prt)),
      eok (enc_i64 (fpr_last_stable_offset prt)),
      put_aborted (fpr_aborted_transactions prt),
      put_records (fpr_records prt)]"

definition put_fetch_topic :: "FetchTopicResult \<Rightarrow> Encoder \<Rightarrow> WireError + Encoder" where
  "put_fetch_topic topic = enc_seq
     [enc_string (ftr_name topic),
      enc_array_len (length (ftr_partitions topic)),
      enc_each put_fetch_partition (ftr_partitions topic)]"

definition encode_fetch :: "int \<Rightarrow> FetchResponse \<Rightarrow> WireError + bytes" where
  "encode_fetch correlation_id response = respond_with correlation_id
     [eok (enc_i32 (fr_throttle_time_ms response)),
      enc_array_len (length (fr_topics response)),
      enc_each put_fetch_topic (fr_topics response)]"

definition put_list_offsets_partition :: "ListOffsetsPartitionResult \<Rightarrow> Encoder \<Rightarrow> WireError + Encoder" where
  "put_list_offsets_partition prt = enc_seq
     [eok (enc_i32 (lpr_partition prt)),
      eok (enc_i16 (lpr_error prt)),
      eok (enc_i64 (lpr_timestamp_ms prt)),
      eok (enc_i64 (lpr_offset prt))]"

definition put_list_offsets_topic :: "ListOffsetsTopicResult \<Rightarrow> Encoder \<Rightarrow> WireError + Encoder" where
  "put_list_offsets_topic topic = enc_seq
     [enc_string (ltr_name topic),
      enc_array_len (length (ltr_partitions topic)),
      enc_each put_list_offsets_partition (ltr_partitions topic)]"

definition encode_list_offsets :: "int \<Rightarrow> ListOffsetsResponse \<Rightarrow> WireError + bytes" where
  "encode_list_offsets correlation_id response = respond_with correlation_id
     [enc_array_len (length (lr_topics response)),
      enc_each put_list_offsets_topic (lr_topics response)]"

end
