(* ===== verification/Wire_Response_Laws.thy ===== *)
theory Wire_Response_Laws
  imports Wire_Response Record_Batch_Laws
begin

text \<open>
  What response encoding promises. Each part of a response comes with the bytes it is laid out
  as, the bounds it has to fit, the integer ranges of its source type and the reader a client
  parses it with; the locale \<open>response_part\<close> states the two laws that tie them together and
  lifts them to arrays. The client's readers are part of the specification: they
  follow the Kafka layout, record batches with their offsets included.
\<close>

section \<open>The interface of a part of a response\<close>

definition appends :: "bool \<Rightarrow> bytes \<Rightarrow> (Encoder \<Rightarrow> WireError + Encoder) \<Rightarrow> bool" where
  "appends ok xs f \<longleftrightarrow> (\<forall>e. (ok \<longrightarrow> f e = Inr (put e xs)) \<and> (\<not> ok \<longrightarrow> (\<exists>er. f e = Inl er)))"

lemma appends_cong: "appends a xs f \<Longrightarrow> a = b \<Longrightarrow> xs = ys \<Longrightarrow> appends b ys f"
  by simp

lemma appends_Nil: "appends True [] (enc_seq [])"
  by (simp add: appends_def frame.snk_nil)

lemma appends_Cons:
  assumes "appends a xs f" and "appends b ys (enc_seq fs)"
  shows "appends (a \<and> b) (xs @ ys) (enc_seq (f # fs))"
  unfolding appends_def
proof
  fix e
  show "(a \<and> b \<longrightarrow> enc_seq (f # fs) e = Inr (put e (xs @ ys))) \<and> (\<not> (a \<and> b) \<longrightarrow> (\<exists>er. enc_seq (f # fs) e = Inl er))"
    using assms(1) [unfolded appends_def, THEN spec, of e] assms(2) [unfolded appends_def, THEN spec, of "put e xs"]
    by (cases a) (auto simp: ethen_def)
qed

lemma appends_each:
  "(\<And>x. appends (ok x) (g x) (f x)) \<Longrightarrow> appends (list_all ok xs) (concat (map g xs)) (enc_each f xs)"
proof (induction xs)
  case (Cons x xs)
  then show ?case using appends_Cons [of "ok x" "g x" "f x" _ _ "map f xs"] by (simp add: enc_each_def del: enc_seq.simps)
qed (simp add: enc_each_def appends_def frame.snk_nil)

lemma appends_fields:
  "appends True (be_bytes 2 i) (eok (enc_i16 i))" "appends True (be_bytes 4 i) (eok (enc_i32 i))"
  "appends True (be_bytes 8 i) (eok (enc_i64 i))" "appends True (be_bytes 1 (if b then 1 else 0)) (eok (enc_bool b))"
  "appends (string_ok s) (string_field s) (enc_string s)"
  "appends True (nullable_string_field None) (enc_nullable_string None)"
  "appends (length s \<le> MAX_FRAME_LEN) (bytes_field (Some s)) (enc_bytes s)"
  "appends (array_ok n) (array_len_field n) (enc_array_len n)"
  by (simp_all add: appends_def enc_ints enc_string_eq enc_nullable_string_eq enc_bytes_eq enc_array_len_eq)

locale response_part =
  fixes step :: "'a \<Rightarrow> Encoder \<Rightarrow> WireError + Encoder" and field :: "'a \<Rightarrow> bytes"
    and fits :: "'a \<Rightarrow> bool" and typed :: "'a \<Rightarrow> bool" and rd :: "'a reader"
  assumes part_appends: "appends (fits v) (field v) (step v)"
    and part_reads: "fits v \<Longrightarrow> typed v \<Longrightarrow> reads rd (field v) v"
begin

lemma array_appends:
  assumes "appends a ys (enc_seq fs)"
  shows "appends (small fits vs \<and> a) (array_field field vs @ ys)
           (enc_seq (enc_array_len (length vs) # enc_each step vs # fs))"
  by (rule appends_cong [OF appends_Cons [OF appends_fields(8) appends_Cons [OF appends_each [OF part_appends] assms]]])
    (auto simp: small_def array_field_def)

lemma array_reads: "small fits vs \<Longrightarrow> list_all typed vs \<Longrightarrow> reads (dec_array rd) (array_field field vs) vs"
  by (rule reads_array_id) (auto simp: small_def list_all_iff part_reads)

end

lemmas appends_steps = appends_Cons [OF appends_fields(1)] appends_Cons [OF appends_fields(2)]
  appends_Cons [OF appends_fields(3)] appends_Cons [OF appends_fields(4)] appends_Cons [OF appends_fields(5)]
  appends_Cons [OF appends_fields(6)] appends_Cons [OF appends_fields(7)] appends_Nil

section \<open>Produce and list-offsets responses\<close>

definition produce_result_field :: "ProducePartitionResult \<Rightarrow> bytes" where
  "produce_result_field p = be_bytes 4 (ppr_partition p) @ be_bytes 2 (ppr_error p)
     @ be_bytes 8 (ppr_base_offset p) @ be_bytes 8 (ppr_log_append_time_ms p)"

definition client_produce_partition :: "ProducePartitionResult reader" where
  "client_produce_partition = dbind dec_i32 (\<lambda>p. dbind dec_i16 (\<lambda>e. dbind dec_i64 (\<lambda>b. dbind dec_i64 (\<lambda>t.
     dreturn \<lparr>ppr_partition = p, ppr_error = e, ppr_base_offset = b, ppr_log_append_time_ms = t\<rparr>))))"

definition produce_result_typed :: "ProducePartitionResult \<Rightarrow> bool" where
  "produce_result_typed p \<longleftrightarrow> in_i32 (ppr_partition p) \<and> in_i16 (ppr_error p) \<and> in_i64 (ppr_base_offset p)
     \<and> in_i64 (ppr_log_append_time_ms p)"

interpretation produce_partition: response_part put_produce_partition produce_result_field "\<lambda>_. True"
  produce_result_typed client_produce_partition
proof unfold_locales
  fix v :: ProducePartitionResult
  show "appends True (produce_result_field v) (put_produce_partition v)"
    unfolding put_produce_partition_def
    by (rule appends_cong, (rule appends_steps)+) (simp_all add: produce_result_field_def)
  show "produce_result_typed v \<Longrightarrow> reads client_produce_partition (produce_result_field v) v"
    unfolding client_produce_partition_def produce_result_field_def produce_result_typed_def
    by (cases v) (simp, intro reads_step, simp_all)
qed

definition produce_topic_result_field :: "ProduceTopicResult \<Rightarrow> bytes" where
  "produce_topic_result_field t = string_field (ptr_name t) @ array_field produce_result_field (ptr_partitions t)"

definition client_produce_topic :: "ProduceTopicResult reader" where
  "client_produce_topic = dbind string_bytes (\<lambda>n. dbind (dec_array client_produce_partition) (\<lambda>ps.
     dreturn \<lparr>ptr_name = n, ptr_partitions = ps\<rparr>))"

definition produce_topic_fits :: "ProduceTopicResult \<Rightarrow> bool" where
  "produce_topic_fits t \<longleftrightarrow> string_ok (ptr_name t) \<and> small (\<lambda>_. True) (ptr_partitions t)"

definition produce_topic_typed :: "ProduceTopicResult \<Rightarrow> bool" where
  "produce_topic_typed t \<longleftrightarrow> list_all produce_result_typed (ptr_partitions t)"

interpretation produce_topic: response_part put_produce_topic produce_topic_result_field produce_topic_fits
  produce_topic_typed client_produce_topic
proof unfold_locales
  fix v :: ProduceTopicResult
  show "appends (produce_topic_fits v) (produce_topic_result_field v) (put_produce_topic v)"
    unfolding put_produce_topic_def
    by (rule appends_cong, (rule produce_partition.array_appends appends_steps)+)
      (simp_all add: produce_topic_result_field_def produce_topic_fits_def)
  show "produce_topic_fits v \<Longrightarrow> produce_topic_typed v \<Longrightarrow> reads client_produce_topic (produce_topic_result_field v) v"
    unfolding client_produce_topic_def produce_topic_result_field_def produce_topic_fits_def produce_topic_typed_def
    by (rule reads_bind [OF str.field_reads], simp, rule reads_bind_last [OF produce_partition.array_reads])
      (cases v; simp add: reads_return)+
qed

definition list_result_field :: "ListOffsetsPartitionResult \<Rightarrow> bytes" where
  "list_result_field p = be_bytes 4 (lpr_partition p) @ be_bytes 2 (lpr_error p)
     @ be_bytes 8 (lpr_timestamp_ms p) @ be_bytes 8 (lpr_offset p)"

definition client_list_partition :: "ListOffsetsPartitionResult reader" where
  "client_list_partition = dbind dec_i32 (\<lambda>p. dbind dec_i16 (\<lambda>e. dbind dec_i64 (\<lambda>t. dbind dec_i64 (\<lambda>off.
     dreturn \<lparr>lpr_partition = p, lpr_error = e, lpr_timestamp_ms = t, lpr_offset = off\<rparr>))))"

definition list_result_typed :: "ListOffsetsPartitionResult \<Rightarrow> bool" where
  "list_result_typed p \<longleftrightarrow> in_i32 (lpr_partition p) \<and> in_i16 (lpr_error p) \<and> in_i64 (lpr_timestamp_ms p)
     \<and> in_i64 (lpr_offset p)"

interpretation list_partition: response_part put_list_offsets_partition list_result_field "\<lambda>_. True"
  list_result_typed client_list_partition
proof unfold_locales
  fix v :: ListOffsetsPartitionResult
  show "appends True (list_result_field v) (put_list_offsets_partition v)"
    unfolding put_list_offsets_partition_def
    by (rule appends_cong, (rule appends_steps)+) (simp_all add: list_result_field_def)
  show "list_result_typed v \<Longrightarrow> reads client_list_partition (list_result_field v) v"
    unfolding client_list_partition_def list_result_field_def list_result_typed_def
    by (cases v) (simp, intro reads_step, simp_all)
qed

definition list_topic_result_field :: "ListOffsetsTopicResult \<Rightarrow> bytes" where
  "list_topic_result_field t = string_field (ltr_name t) @ array_field list_result_field (ltr_partitions t)"

definition client_list_topic :: "ListOffsetsTopicResult reader" where
  "client_list_topic = dbind string_bytes (\<lambda>n. dbind (dec_array client_list_partition) (\<lambda>ps.
     dreturn \<lparr>ltr_name = n, ltr_partitions = ps\<rparr>))"

definition list_topic_fits :: "ListOffsetsTopicResult \<Rightarrow> bool" where
  "list_topic_fits t \<longleftrightarrow> string_ok (ltr_name t) \<and> small (\<lambda>_. True) (ltr_partitions t)"

definition list_topic_typed :: "ListOffsetsTopicResult \<Rightarrow> bool" where
  "list_topic_typed t \<longleftrightarrow> list_all list_result_typed (ltr_partitions t)"

interpretation list_topic: response_part put_list_offsets_topic list_topic_result_field list_topic_fits
  list_topic_typed client_list_topic
proof unfold_locales
  fix v :: ListOffsetsTopicResult
  show "appends (list_topic_fits v) (list_topic_result_field v) (put_list_offsets_topic v)"
    unfolding put_list_offsets_topic_def
    by (rule appends_cong, (rule list_partition.array_appends appends_steps)+)
      (simp_all add: list_topic_result_field_def list_topic_fits_def)
  show "list_topic_fits v \<Longrightarrow> list_topic_typed v \<Longrightarrow> reads client_list_topic (list_topic_result_field v) v"
    unfolding client_list_topic_def list_topic_result_field_def list_topic_fits_def list_topic_typed_def
    by (rule reads_bind [OF str.field_reads], simp, rule reads_bind_last [OF list_partition.array_reads])
      (cases v; simp add: reads_return)+
qed

section \<open>Metadata responses\<close>

definition broker_field :: "BrokerMetadata \<Rightarrow> bytes" where
  "broker_field b = be_bytes 4 (bm_node_id b) @ string_field (bm_host b) @ be_bytes 4 (bm_port b)
     @ nullable_string_field None"

definition client_broker :: "BrokerMetadata reader" where
  "client_broker = dbind dec_i32 (\<lambda>n. dbind string_bytes (\<lambda>h. dbind dec_i32 (\<lambda>p.
     dbind nullable_string_bytes (\<lambda>rack. dreturn \<lparr>bm_node_id = n, bm_host = h, bm_port = p\<rparr>))))"

definition broker_typed :: "BrokerMetadata \<Rightarrow> bool" where
  "broker_typed b \<longleftrightarrow> in_i32 (bm_node_id b) \<and> in_i32 (bm_port b)"

interpretation broker: response_part put_broker broker_field "\<lambda>b. string_ok (bm_host b)" broker_typed client_broker
proof unfold_locales
  fix v :: BrokerMetadata
  show "appends (string_ok (bm_host v)) (broker_field v) (put_broker v)"
    unfolding put_broker_def
    by (rule appends_cong, (rule appends_steps)+) (simp_all add: broker_field_def)
  show "string_ok (bm_host v) \<Longrightarrow> broker_typed v \<Longrightarrow> reads client_broker (broker_field v) v"
    unfolding client_broker_def broker_field_def broker_typed_def
    by (cases v) (simp, intro reads_step, simp_all)
qed

interpretation replica: response_part put_replica "be_bytes 4" "\<lambda>_. True" in_i32 dec_i32
  by unfold_locales (auto simp: put_replica_def intro: appends_fields i32.field_reads)

definition partition_metadata_field :: "PartitionMetadata \<Rightarrow> bytes" where
  "partition_metadata_field p = be_bytes 2 (pm_error p) @ be_bytes 4 (pm_partition p) @ be_bytes 4 (pm_leader p)
     @ array_field (be_bytes 4) (pm_replicas p) @ array_field (be_bytes 4) (pm_isr p)"

definition client_partition_metadata :: "PartitionMetadata reader" where
  "client_partition_metadata = dbind dec_i16 (\<lambda>e. dbind dec_i32 (\<lambda>p. dbind dec_i32 (\<lambda>l.
     dbind (dec_array dec_i32) (\<lambda>rs. dbind (dec_array dec_i32) (\<lambda>isr.
     dreturn \<lparr>pm_error = e, pm_partition = p, pm_leader = l, pm_replicas = rs, pm_isr = isr\<rparr>)))))"

definition partition_metadata_fits :: "PartitionMetadata \<Rightarrow> bool" where
  "partition_metadata_fits p \<longleftrightarrow> small (\<lambda>_. True) (pm_replicas p) \<and> small (\<lambda>_. True) (pm_isr p)"

definition partition_metadata_typed :: "PartitionMetadata \<Rightarrow> bool" where
  "partition_metadata_typed p \<longleftrightarrow> in_i16 (pm_error p) \<and> in_i32 (pm_partition p) \<and> in_i32 (pm_leader p)
     \<and> list_all in_i32 (pm_replicas p) \<and> list_all in_i32 (pm_isr p)"

interpretation partition_metadata: response_part put_partition_metadata partition_metadata_field
  partition_metadata_fits partition_metadata_typed client_partition_metadata
proof unfold_locales
  fix v :: PartitionMetadata
  show "appends (partition_metadata_fits v) (partition_metadata_field v) (put_partition_metadata v)"
    unfolding put_partition_metadata_def
    by (rule appends_cong, (rule replica.array_appends appends_steps)+)
      (simp_all add: partition_metadata_field_def partition_metadata_fits_def)
  show "partition_metadata_fits v \<Longrightarrow> partition_metadata_typed v \<Longrightarrow>
      reads client_partition_metadata (partition_metadata_field v) v"
    unfolding client_partition_metadata_def partition_metadata_field_def partition_metadata_fits_def
      partition_metadata_typed_def
    by (intro reads_bind [OF i16.field_reads] reads_bind [OF i32.field_reads] reads_bind [OF replica.array_reads]
        reads_bind_last [OF replica.array_reads]) (cases v; simp add: reads_return)+
qed

definition topic_metadata_field :: "WireTopicMetadata \<Rightarrow> bytes" where
  "topic_metadata_field t = be_bytes 2 (wtm_error t) @ string_field (wtm_name t)
     @ be_bytes 1 (if wtm_is_internal t then 1 else 0) @ array_field partition_metadata_field (wtm_partitions t)"

definition client_topic_metadata :: "WireTopicMetadata reader" where
  "client_topic_metadata = dbind dec_i16 (\<lambda>e. dbind string_bytes (\<lambda>n. dbind dec_i8 (\<lambda>i.
     dbind (dec_array client_partition_metadata) (\<lambda>ps.
     dreturn \<lparr>wtm_error = e, wtm_name = n, wtm_is_internal = (i \<noteq> 0), wtm_partitions = ps\<rparr>))))"

definition topic_metadata_fits :: "WireTopicMetadata \<Rightarrow> bool" where
  "topic_metadata_fits t \<longleftrightarrow> string_ok (wtm_name t) \<and> small partition_metadata_fits (wtm_partitions t)"

definition topic_metadata_typed :: "WireTopicMetadata \<Rightarrow> bool" where
  "topic_metadata_typed t \<longleftrightarrow> in_i16 (wtm_error t) \<and> list_all partition_metadata_typed (wtm_partitions t)"

interpretation topic_metadata: response_part put_topic_metadata topic_metadata_field topic_metadata_fits
  topic_metadata_typed client_topic_metadata
proof unfold_locales
  fix v :: WireTopicMetadata
  show "appends (topic_metadata_fits v) (topic_metadata_field v) (put_topic_metadata v)"
    unfolding put_topic_metadata_def
    by (rule appends_cong, (rule partition_metadata.array_appends appends_steps)+)
      (simp_all add: topic_metadata_field_def topic_metadata_fits_def)
  show "topic_metadata_fits v \<Longrightarrow> topic_metadata_typed v \<Longrightarrow> reads client_topic_metadata (topic_metadata_field v) v"
    unfolding client_topic_metadata_def topic_metadata_field_def topic_metadata_fits_def topic_metadata_typed_def
    by (intro reads_bind [OF i16.field_reads] reads_bind [OF str.field_reads] reads_bind [OF i8.field_reads]
        reads_bind_last [OF partition_metadata.array_reads])
      (cases v; simp add: reads_return in_signed_def)+
qed

section \<open>Coordination responses\<close>

definition version_field :: "int \<times> int \<times> int \<Rightarrow> bytes" where
  "version_field = (\<lambda>(k, mn, mx). be_bytes 2 k @ be_bytes 2 mn @ be_bytes 2 mx)"

definition client_version :: "(int \<times> int \<times> int) reader" where
  "client_version = dbind dec_i16 (\<lambda>k. dbind dec_i16 (\<lambda>mn. dbind dec_i16 (\<lambda>mx. dreturn (k, mn, mx))))"

interpretation version: response_part put_version version_field "\<lambda>_. True"
  "\<lambda>(k, mn, mx). in_i16 k \<and> in_i16 mn \<and> in_i16 mx" client_version
proof unfold_locales
  fix v :: "int \<times> int \<times> int"
  obtain k mn mx where v: "v = (k, mn, mx)" by (cases v)
  show "appends True (version_field v) (put_version v)"
    unfolding put_version_def v prod.case
    by (rule appends_cong, (rule appends_steps)+) (simp_all add: version_field_def)
  show "(case v of (k, mn, mx) \<Rightarrow> in_i16 k \<and> in_i16 mn \<and> in_i16 mx) \<Longrightarrow> reads client_version (version_field v) v"
    unfolding client_version_def version_field_def v prod.case by (intro reads_step) simp_all
qed

definition int_pair_field :: "nat \<Rightarrow> nat \<Rightarrow> int \<times> int \<Rightarrow> bytes" where
  "int_pair_field m n = (\<lambda>(a, b). be_bytes m a @ be_bytes n b)"

definition client_txn_partition :: "(int \<times> int) reader" where
  "client_txn_partition = dbind dec_i32 (\<lambda>p. dbind dec_i16 (\<lambda>e. dreturn (p, e)))"

interpretation txn_partition: response_part put_txn_partition "int_pair_field 4 2" "\<lambda>_. True"
  "\<lambda>(p, e). in_i32 p \<and> in_i16 e" client_txn_partition
proof unfold_locales
  fix v :: "int \<times> int"
  obtain p e where v: "v = (p, e)" by (cases v)
  show "appends True (int_pair_field 4 2 v) (put_txn_partition v)"
    unfolding put_txn_partition_def v prod.case
    by (rule appends_cong, (rule appends_steps)+) (simp_all add: int_pair_field_def)
  show "(case v of (p, e) \<Rightarrow> in_i32 p \<and> in_i16 e) \<Longrightarrow> reads client_txn_partition (int_pair_field 4 2 v) v"
    unfolding client_txn_partition_def int_pair_field_def v prod.case by (intro reads_step) simp_all
qed

definition txn_result_field :: "TransactionPartitionResult \<Rightarrow> bytes" where
  "txn_result_field t = string_field (tpr_topic t) @ array_field (int_pair_field 4 2) (tpr_partitions t)"

definition client_txn_topic :: "TransactionPartitionResult reader" where
  "client_txn_topic = dbind string_bytes (\<lambda>n. dbind (dec_array client_txn_partition) (\<lambda>ps.
     dreturn \<lparr>tpr_topic = n, tpr_partitions = ps\<rparr>))"

definition txn_result_fits :: "TransactionPartitionResult \<Rightarrow> bool" where
  "txn_result_fits t \<longleftrightarrow> string_ok (tpr_topic t) \<and> small (\<lambda>_. True) (tpr_partitions t)"

definition txn_result_typed :: "TransactionPartitionResult \<Rightarrow> bool" where
  "txn_result_typed t \<longleftrightarrow> list_all (\<lambda>(p, e). in_i32 p \<and> in_i16 e) (tpr_partitions t)"

interpretation txn_topic: response_part put_txn_topic txn_result_field txn_result_fits txn_result_typed client_txn_topic
proof unfold_locales
  fix v :: TransactionPartitionResult
  show "appends (txn_result_fits v) (txn_result_field v) (put_txn_topic v)"
    unfolding put_txn_topic_def
    by (rule appends_cong, (rule txn_partition.array_appends appends_steps)+)
      (simp_all add: txn_result_field_def txn_result_fits_def)
  show "txn_result_fits v \<Longrightarrow> txn_result_typed v \<Longrightarrow> reads client_txn_topic (txn_result_field v) v"
    unfolding client_txn_topic_def txn_result_field_def txn_result_fits_def txn_result_typed_def
    by (rule reads_bind [OF str.field_reads], simp, rule reads_bind_last [OF txn_partition.array_reads])
      (cases v; simp add: reads_return)+
qed

definition member_field :: "bytes \<times> bytes \<Rightarrow> bytes" where
  "member_field = (\<lambda>(m, d). string_field m @ bytes_field (Some d))"

definition client_member :: "(bytes \<times> bytes) reader" where
  "client_member = dbind string_bytes (\<lambda>m. dbind dec_bytes (\<lambda>d.
     case d of None \<Rightarrow> dfail Invalid | Some d \<Rightarrow> dreturn (m, d)))"

interpretation member: response_part put_member member_field "\<lambda>(m, d). string_ok m \<and> length d \<le> MAX_FRAME_LEN"
  "\<lambda>_. True" client_member
proof unfold_locales
  fix v :: "bytes \<times> bytes"
  obtain m d where v: "v = (m, d)" by (cases v)
  show "appends (case v of (m, d) \<Rightarrow> string_ok m \<and> length d \<le> MAX_FRAME_LEN) (member_field v) (put_member v)"
    unfolding put_member_def v prod.case
    by (rule appends_cong, (rule appends_steps)+) (simp_all add: member_field_def)
  show "(case v of (m, d) \<Rightarrow> string_ok m \<and> length d \<le> MAX_FRAME_LEN) \<Longrightarrow> reads client_member (member_field v) v"
    unfolding client_member_def member_field_def v prod.case
    by (rule reads_bind [OF str.field_reads], simp, rule reads_bind_last [OF nbytes.field_reads])
      (simp_all add: reads_return)
qed

section \<open>Fetch responses\<close>

text \<open>
  A consumer's reader of one record batch. Unlike the broker's own decoder it keeps the offsets,
  which are relative to the base offset of the batch.
\<close>

definition client_record_fields :: "int \<Rightarrow> int \<Rightarrow> Record reader" where
  "client_record_fields base first_timestamp =
     dbind dec_i8 (\<lambda>_. dbind read_varlong (\<lambda>dt. dbind read_varint (\<lambda>doff.
     dbind read_varint (\<lambda>key_len. dbind (read_optional_bytes key_len) (\<lambda>key.
     dbind read_varint (\<lambda>value_len. dbind (read_optional_bytes value_len) (\<lambda>val.
     dbind read_varint (\<lambda>headers. dbind (dec_times (nat headers) skip_header) (\<lambda>_. dbind expect_done (\<lambda>_.
     dreturn \<lparr>rec_offset = base + doff, rec_timestamp_ms = first_timestamp + dt, rec_key = key, rec_value = val\<rparr>))))))))))"

definition client_record :: "int \<Rightarrow> int \<Rightarrow> Record reader" where
  "client_record base first_timestamp = dbind read_varint (\<lambda>len. dbind (dec_take (nat len)) (\<lambda>body.
     run_on body (client_record_fields base first_timestamp)))"

definition client_batch_fields :: "bytes \<Rightarrow> int \<Rightarrow> Record list reader" where
  "client_batch_fields batch base =
     dbind dec_i32 (\<lambda>_. dbind dec_i8 (\<lambda>magic. if magic \<noteq> 2 then dfail UnsupportedVersion else
     dbind dec_i32 (\<lambda>crc. if crc32c (drop 9 batch) \<noteq> word_of_int crc then dfail Checksum else
     dbind dec_i16 (\<lambda>attributes. dbind dec_i32 (\<lambda>last_offset_delta. dbind dec_i64 (\<lambda>first_timestamp.
     dbind dec_i64 (\<lambda>max_timestamp. dbind dec_i64 (\<lambda>producer_id. dbind dec_i16 (\<lambda>producer_epoch.
     dbind dec_i32 (\<lambda>base_sequence. dbind dec_i32 (\<lambda>count.
     dbind (dec_times (nat count) (client_record base first_timestamp)) (\<lambda>records.
     dbind expect_done (\<lambda>_. dreturn records)))))))))))))"

definition client_batch :: "Record list reader" where
  "client_batch = dbind dec_i64 (\<lambda>base. dbind dec_i32 (\<lambda>len. dbind (dec_take (nat len)) (\<lambda>batch.
     run_on batch (client_batch_fields batch base))))"

definition client_records :: "Record list reader" where
  "client_records = dbind dec_bytes (\<lambda>bs. case bs of
       None \<Rightarrow> dfail Invalid
     | Some bs \<Rightarrow> if bs = [] then dreturn [] else run_on bs client_batch)"

text \<open>
  What a consumer makes of a batch: offsets and timestamps are relative to those of the first record. They are exact
  when the base, the timestamps and their distances have 64 bits, and the offset distances 32.
\<close>

definition received :: "Record list \<Rightarrow> Record list" where
  "received rs = map (\<lambda>r. r\<lparr>
     rec_offset := wrap_signed 64 (rec_offset (hd rs)) + wrap_signed 32 (wrap_signed 64 (rec_offset r - rec_offset (hd rs))),
     rec_timestamp_ms := wrap_signed 64 (rec_timestamp_ms (hd rs)) + sat_sub 64 (rec_timestamp_ms r) (rec_timestamp_ms (hd rs))\<rparr>) rs"

definition records_typed :: "Record list \<Rightarrow> bool" where
  "records_typed rs \<longleftrightarrow> list_all (\<lambda>r. in_i64 (rec_offset r) \<and> in_i32 (rec_offset r - rec_offset (hd rs))
     \<and> delta_ok (rec_timestamp_ms (hd rs)) r) rs"

lemma received_payloads [simp]:
  "map rec_value (received rs) = map rec_value rs" "map rec_key (received rs) = map rec_key rs" "length (received rs) = length rs"
  by (simp_all add: received_def)

lemma received_typed: "records_typed rs \<Longrightarrow> received rs = rs"
proof -
  assume ty: "records_typed rs"
  have "wrap_signed 64 (rec_offset (hd rs)) = rec_offset (hd rs)" "wrap_signed 64 (rec_timestamp_ms (hd rs)) = rec_timestamp_ms (hd rs)"
    if "rs \<noteq> []"
    using ty that by (cases rs; simp add: records_typed_def delta_ok_def)+
  moreover have "wrap_signed 32 (wrap_signed 64 (rec_offset r - rec_offset (hd rs))) = rec_offset r - rec_offset (hd rs)"
    "sat_sub 64 (rec_timestamp_ms r) (rec_timestamp_ms (hd rs)) = rec_timestamp_ms r - rec_timestamp_ms (hd rs)" if "r \<in> set rs" for r
  proof -
    have r: "in_i32 (rec_offset r - rec_offset (hd rs))" "delta_ok (rec_timestamp_ms (hd rs)) r"
      using ty that by (auto simp: records_typed_def list_all_iff)
    then have "in_i64 (rec_offset r - rec_offset (hd rs))" by (simp add: in_signed_def)
    then show "wrap_signed 32 (wrap_signed 64 (rec_offset r - rec_offset (hd rs))) = rec_offset r - rec_offset (hd rs)"
      "sat_sub 64 (rec_timestamp_ms r) (rec_timestamp_ms (hd rs)) = rec_timestamp_ms r - rec_timestamp_ms (hd rs)"
      using r by (simp_all add: delta_ok_def)
  qed
  moreover have "rs \<noteq> []" if "r \<in> set rs" for r using that by auto
  ultimately show ?thesis unfolding received_def by (intro map_idI) simp
qed

lemma client_record_received:
  assumes "payloads_ok r"
  shows "reads_exact (client_record_fields b t) (record_body first base r)
    (r\<lparr>rec_offset := b + wrap_signed 32 (wrap_signed 64 (rec_offset r - base)),
       rec_timestamp_ms := t + sat_sub 64 (rec_timestamp_ms r) first\<rparr>)" (is "reads_exact _ _ ?v")
proof -
  have z: "reads dec_i8 [0] 0" using reads_i8 [of 0] by (simp add: in_signed_def)
  have fin: "reads_exact (dbind read_varint (\<lambda>headers. dbind (dec_times (nat headers) skip_header) (\<lambda>_.
      dbind expect_done (\<lambda>_. dreturn ?v)))) (put_varint 0) ?v"
    by (rule reads_exact_bind [OF vint.field_reads, where ys = "[]", simplified], simp add: in_signed_def,
        rule reads_exact_bind [where xs = "[]" and v = "[]" and ys = "[]", simplified])
      (auto simp: reads_return intro!: reads_exact_done)
  have eta: "\<lparr>rec_offset = x, rec_timestamp_ms = y, rec_key = rec_key r, rec_value = rec_value r\<rparr>
      = r\<lparr>rec_offset := x, rec_timestamp_ms := y\<rparr>" for x y
    by (cases r) simp
  show ?thesis
    unfolding client_record_fields_def record_body_def
    using assms fin unfolding payloads_ok_def
    by (intro reads_exact_bind [OF z] reads_exact_bind [OF vlong.field_reads] reads_exact_bind [OF vint.field_reads]
        reads_exact_bind [OF reads_optional])
      (auto simp: eta intro: opt_len_ok)
qed

lemma reads_client_record:
  assumes "payloads_ok r" and "int (length (record_body first base r)) \<le> max_signed 32"
  shows "reads (client_record b t) (record_bytes first base r)
    (r\<lparr>rec_offset := b + wrap_signed 32 (wrap_signed 64 (rec_offset r - base)),
       rec_timestamp_ms := t + sat_sub 64 (rec_timestamp_ms r) first\<rparr>)" (is "reads _ _ ?v")
proof -
  let ?b = "record_body first base r"
  have len: "in_i32 (int (length ?b))" "length ?b \<le> usize_max"
    using assms(2) by (auto simp: in_signed_def max_signed_def usize_max_def)
  have "reads (dbind (dec_take (length ?b)) (\<lambda>body. run_on body (client_record_fields b t))) (?b @ []) ?v"
    by (rule reads_bind [OF reads_take]) (rule reads_run_on [OF client_record_received [OF assms(1)] len(2)])
  then show ?thesis
    unfolding client_record_def record_bytes_def
    using len by (intro reads_bind [OF vint.field_reads]) simp_all
qed

lemma client_batch_exact:
  assumes "sendable base rs" and "base = rec_offset (hd rs)"
  shows "reads_exact (client_batch_fields (body_bytes base rs) (wrap_signed 64 base)) (body_bytes base rs) (received rs)"
proof -
  let ?t = "rec_timestamp_ms (hd rs)" and ?r = "client_record (wrap_signed 64 base) (wrap_signed 64 (rec_timestamp_ms (hd rs)))"
  have snd: "rs \<noteq> []" "length rs \<le> MAX_RECORDS" "list_all payloads_ok rs" using assms(1) by (auto simp: sendable_def)
  have n: "in_i32 (int (length rs))" using snd(2) by (simp add: in_signed_def MAX_RECORDS_def)
  have recs: "reads (dec_times (length rs) ?r) (concat (map (record_bytes ?t base) rs)) (received rs)"
    unfolding received_def assms(2) [symmetric]
    by (intro reads_times reads_client_record record_body_small [OF body_small(1) [OF assms(1)]])
      (use snd(3) in \<open>auto simp: list_all_iff\<close>)
  have magic: "reads dec_i8 [2] 2" using reads_i8 [of 2] by (simp add: in_signed_def)
  have any: "reads dec_i64 (be_bytes 8 x) (wrap_signed 64 x)" "reads dec_i32 (be_bytes 4 x) (wrap_signed 32 x)" for x
    using reads_be_any [of 8 x] reads_be_any [of 4 x] by (simp_all add: dec_i64_def dec_i32_def)
  have crc_eq: "word_of_int (wrap_signed 32 (uint c)) = c" for c :: "32 word"
    using word_of_wrap_signed [of "uint c", where 'a = 32] by simp
  have cov: "drop 9 (body_bytes base rs) = covered_bytes base rs" by (simp add: body_bytes_def)
  have fin: "reads_exact (dbind (dec_times (length rs) ?r) (\<lambda>records. dbind expect_done (\<lambda>_. dreturn records)))
      (concat (map (record_bytes ?t base) rs)) (received rs)"
    by (rule reads_exact_bind [OF recs, where ys = "[]", simplified]) (rule reads_exact_done [OF reads_return])
  show ?thesis
    unfolding client_batch_fields_def cov
    unfolding body_bytes_def covered_bytes_def
    apply (rule reads_exact_bind [OF any(2)])
    apply (rule reads_exact_bind [OF magic], simp only: simp_thms if_False)
    apply (rule reads_exact_bind [OF any(2)], simp only: crc_eq simp_thms if_False)
    apply (rule reads_exact_bind [OF reads_i16 [of 0]], simp add: in_signed_def)
    apply (rule reads_exact_bind [OF any(2)])
    apply (rule reads_exact_bind [OF any(1)])
    apply (rule reads_exact_bind [OF any(1)])
    apply (rule reads_exact_bind [OF any(1)])
    apply (rule reads_exact_bind [OF reads_i16 [of "- 1"]], simp add: in_signed_def)
    apply (rule reads_exact_bind [OF any(2)])
    apply (rule reads_exact_bind [OF reads_i32 [OF n]])
    using fin by simp
qed

lemma client_batch_reads:
  assumes "sendable base rs" and "base = rec_offset (hd rs)"
  shows "reads client_batch (batch_bytes base rs) (received rs)"
proof -
  let ?b = "body_bytes base rs"
  have any: "reads dec_i64 (be_bytes 8 base) (wrap_signed 64 base)"
    using reads_be_any [of 8 base] by (simp add: dec_i64_def)
  have "reads (dbind (dec_take (length ?b)) (\<lambda>batch. run_on batch (client_batch_fields batch (wrap_signed 64 base)))) (?b @ []) (received rs)"
    by (rule reads_bind [OF reads_take]) (rule reads_run_on [OF client_batch_exact [OF assms] body_small(3) [OF assms(1)]])
  then show ?thesis
    unfolding client_batch_def batch_bytes_def
    using body_small(2) [OF assms(1)]
    by (intro reads_bind [OF any] reads_bind [OF i32.field_reads]) simp_all
qed

definition record_set :: "Record list \<Rightarrow> bytes" where
  "record_set rs = (if rs = [] then [] else batch_bytes (rec_offset (hd rs)) rs)"

definition records_fit :: "Record list \<Rightarrow> bool" where
  "records_fit rs \<longleftrightarrow> rs = [] \<or> sendable (rec_offset (hd rs)) rs"

lemma record_set_reads:
  assumes "records_fit rs"
  shows "reads client_records (bytes_field (Some (record_set rs))) (received rs)"
proof -
  have len: "length (record_set rs) \<le> MAX_FRAME_LEN"
    using assms by (auto simp: records_fit_def record_set_def sendable_def)
  have "batch_bytes (rec_offset (hd rs)) rs \<noteq> []" using batch_magic(1) [of "rec_offset (hd rs)" rs] by auto
  moreover have "reads (run_on (batch_bytes (rec_offset (hd rs)) rs) client_batch) [] (received rs)" if "rs \<noteq> []"
    using assms that len reads_run_on [OF reads_is_exact [OF client_batch_reads]]
    by (auto simp: records_fit_def record_set_def MAX_FRAME_LEN_def usize_max_def)
  ultimately have "reads (case Some (record_set rs) of None \<Rightarrow> dfail Invalid
      | Some bs \<Rightarrow> if bs = [] then dreturn [] else run_on bs client_batch) [] (received rs)"
    by (auto simp: record_set_def reads_return received_def)
  then show ?thesis
    unfolding client_records_def by (rule reads_bind_last [OF nbytes.field_reads, rotated]) (use len in simp)
qed

interpretation record_set: response_part put_records "\<lambda>rs. bytes_field (Some (record_set rs))" records_fit
  records_typed client_records
proof unfold_locales
  fix rs :: "Record list"
  show "appends (records_fit rs) (bytes_field (Some (record_set rs))) (put_records rs)"
    by (auto simp: appends_def put_records_def records_fit_def record_set_def enc_bytes_eq sendable_def
        encode_record_batch_eq)
  show "records_fit rs \<Longrightarrow> records_typed rs \<Longrightarrow> reads client_records (bytes_field (Some (record_set rs))) rs"
    using record_set_reads [of rs] received_typed [of rs] by simp
qed

definition client_aborted_range :: "(int \<times> int) reader" where
  "client_aborted_range = dbind dec_i64 (\<lambda>p. dbind dec_i64 (\<lambda>off. dreturn (p, off)))"

interpretation aborted_range: response_part put_aborted_range "int_pair_field 8 8" "\<lambda>_. True"
  "\<lambda>(p, off). in_i64 p \<and> in_i64 off" client_aborted_range
proof unfold_locales
  fix v :: "int \<times> int"
  obtain p e where v: "v = (p, e)" by (cases v)
  show "appends True (int_pair_field 8 8 v) (put_aborted_range v)"
    unfolding put_aborted_range_def v prod.case
    by (rule appends_cong, (rule appends_steps)+) (simp_all add: int_pair_field_def)
  show "(case v of (p, e) \<Rightarrow> in_i64 p \<and> in_i64 e) \<Longrightarrow> reads client_aborted_range (int_pair_field 8 8 v) v"
    unfolding client_aborted_range_def int_pair_field_def v prod.case by (intro reads_step) simp_all
qed

definition aborted_field :: "(int \<times> int) list option \<Rightarrow> bytes" where
  "aborted_field a = (case a of None \<Rightarrow> be_bytes 4 (- 1) | Some a \<Rightarrow> array_field (int_pair_field 8 8) a)"

definition client_aborted :: "(int \<times> int) list option reader" where
  "client_aborted = dbind nullable_array_len (\<lambda>n. case n of
       None \<Rightarrow> dreturn None
     | Some n \<Rightarrow> dbind (dec_times n client_aborted_range) (\<lambda>xs. dreturn (Some xs)))"

interpretation aborted: response_part put_aborted aborted_field
  "\<lambda>a. case a of None \<Rightarrow> True | Some a \<Rightarrow> small (\<lambda>_. True) a"
  "\<lambda>a. case a of None \<Rightarrow> True | Some a \<Rightarrow> list_all (\<lambda>(p, off). in_i64 p \<and> in_i64 off) a" client_aborted
proof unfold_locales
  fix v :: "(int \<times> int) list option"
  show "appends (case v of None \<Rightarrow> True | Some a \<Rightarrow> small (\<lambda>_. True) a) (aborted_field v) (put_aborted v)"
    using aborted_range.array_appends [OF appends_Nil]
    by (cases v) (simp_all add: put_aborted_def aborted_field_def appends_def enc_nullable_array_len_def enc_i32_def)
  assume "case v of None \<Rightarrow> True | Some a \<Rightarrow> small (\<lambda>_. True) a"
    and "case v of None \<Rightarrow> True | Some a \<Rightarrow> list_all (\<lambda>(p, off). in_i64 p \<and> in_i64 off) a"
  then show "reads client_aborted (aborted_field v) v"
  proof (cases v)
    case None
    then show ?thesis
      unfolding client_aborted_def aborted_field_def
      by (simp only: option.case) (rule reads_bind_last [OF nullable_array_reads(1)], simp add: reads_return)
  next
    case (Some a)
    then have "array_ok (length a)" "list_all (\<lambda>(p, off). in_i64 p \<and> in_i64 off) a"
      using \<open>case v of None \<Rightarrow> True | Some a \<Rightarrow> small (\<lambda>_. True) a\<close>
        \<open>case v of None \<Rightarrow> True | Some a \<Rightarrow> list_all (\<lambda>(p, off). in_i64 p \<and> in_i64 off) a\<close>
      by (simp_all add: small_def)
    moreover from this have "reads (dec_times (length a) client_aborted_range) (concat (map (int_pair_field 8 8) a)) a"
      using reads_times [of a client_aborted_range "int_pair_field 8 8" "\<lambda>r. r"] aborted_range.part_reads
      by (simp add: list_all_iff)
    ultimately show ?thesis
      unfolding client_aborted_def aborted_field_def array_field_def Some option.case
      by (intro reads_bind [OF nullable_array_reads(2)]) (simp_all add: reads_bind_return)
  qed
qed

definition fetch_result_field :: "FetchPartitionResult \<Rightarrow> bytes" where
  "fetch_result_field p = be_bytes 4 (fpr_partition p) @ be_bytes 2 (fpr_error p) @ be_bytes 8 (fpr_high_watermark p)
     @ be_bytes 8 (fpr_last_stable_offset p) @ aborted_field (fpr_aborted_transactions p)
     @ bytes_field (Some (record_set (fpr_records p)))"

definition client_fetch_partition :: "FetchPartitionResult reader" where
  "client_fetch_partition = dbind dec_i32 (\<lambda>p. dbind dec_i16 (\<lambda>e. dbind dec_i64 (\<lambda>hw. dbind dec_i64 (\<lambda>lso.
     dbind client_aborted (\<lambda>a. dbind client_records (\<lambda>rs.
     dreturn \<lparr>fpr_partition = p, fpr_error = e, fpr_high_watermark = hw, fpr_last_stable_offset = lso,
              fpr_aborted_transactions = a, fpr_records = rs\<rparr>))))))"

definition fetch_result_fits :: "FetchPartitionResult \<Rightarrow> bool" where
  "fetch_result_fits p \<longleftrightarrow>
     (case fpr_aborted_transactions p of None \<Rightarrow> True | Some a \<Rightarrow> small (\<lambda>_. True) a) \<and> records_fit (fpr_records p)"

definition fetch_result_typed :: "FetchPartitionResult \<Rightarrow> bool" where
  "fetch_result_typed p \<longleftrightarrow> in_i32 (fpr_partition p) \<and> in_i16 (fpr_error p) \<and> in_i64 (fpr_high_watermark p)
     \<and> in_i64 (fpr_last_stable_offset p)
     \<and> (case fpr_aborted_transactions p of None \<Rightarrow> True | Some a \<Rightarrow> list_all (\<lambda>(p, off). in_i64 p \<and> in_i64 off) a)
     \<and> records_typed (fpr_records p)"

interpretation fetch_partition: response_part put_fetch_partition fetch_result_field fetch_result_fits
  fetch_result_typed client_fetch_partition
proof unfold_locales
  fix v :: FetchPartitionResult
  show "appends (fetch_result_fits v) (fetch_result_field v) (put_fetch_partition v)"
    unfolding put_fetch_partition_def
    by (rule appends_cong, (rule appends_Cons [OF aborted.part_appends] appends_Cons [OF record_set.part_appends] appends_steps)+)
      (simp_all add: fetch_result_field_def fetch_result_fits_def)
  show "fetch_result_fits v \<Longrightarrow> fetch_result_typed v \<Longrightarrow> reads client_fetch_partition (fetch_result_field v) v"
    unfolding client_fetch_partition_def fetch_result_field_def fetch_result_fits_def fetch_result_typed_def
    by (intro reads_bind [OF i32.field_reads] reads_bind [OF i16.field_reads] reads_bind [OF i64.field_reads]
        reads_bind [OF aborted.part_reads] reads_bind_last [OF record_set.part_reads])
      (cases v; simp add: reads_return)+
qed

definition fetch_topic_result_field :: "FetchTopicResult \<Rightarrow> bytes" where
  "fetch_topic_result_field t = string_field (ftr_name t) @ array_field fetch_result_field (ftr_partitions t)"

definition client_fetch_topic :: "FetchTopicResult reader" where
  "client_fetch_topic = dbind string_bytes (\<lambda>n. dbind (dec_array client_fetch_partition) (\<lambda>ps.
     dreturn \<lparr>ftr_name = n, ftr_partitions = ps\<rparr>))"

definition fetch_topic_fits :: "FetchTopicResult \<Rightarrow> bool" where
  "fetch_topic_fits t \<longleftrightarrow> string_ok (ftr_name t) \<and> small fetch_result_fits (ftr_partitions t)"

definition fetch_topic_typed :: "FetchTopicResult \<Rightarrow> bool" where
  "fetch_topic_typed t \<longleftrightarrow> list_all fetch_result_typed (ftr_partitions t)"

interpretation fetch_topic: response_part put_fetch_topic fetch_topic_result_field fetch_topic_fits
  fetch_topic_typed client_fetch_topic
proof unfold_locales
  fix v :: FetchTopicResult
  show "appends (fetch_topic_fits v) (fetch_topic_result_field v) (put_fetch_topic v)"
    unfolding put_fetch_topic_def
    by (rule appends_cong, (rule fetch_partition.array_appends appends_steps)+)
      (simp_all add: fetch_topic_result_field_def fetch_topic_fits_def)
  show "fetch_topic_fits v \<Longrightarrow> fetch_topic_typed v \<Longrightarrow> reads client_fetch_topic (fetch_topic_result_field v) v"
    unfolding client_fetch_topic_def fetch_topic_result_field_def fetch_topic_fits_def fetch_topic_typed_def
    by (rule reads_bind [OF str.field_reads], simp, rule reads_bind_last [OF fetch_partition.array_reads])
      (cases v; simp add: reads_return)+
qed

section \<open>All responses\<close>

text \<open>
  The responses the broker sends, one constructor per encoder, with the encoder, the layout and
  the client's reader of each. A client knows from the API key of its request which
  reader to use.
\<close>

datatype Response =
    ApiVersionsR int "(int \<times> int \<times> int) list"
  | MetadataR MetadataResponse
  | FindCoordinatorR FindCoordinatorResponse
  | InitProducerIdR InitProducerIdResponse
  | AddPartitionsToTxnR "TransactionPartitionResult list"
  | EndTxnR int
  | JoinGroupR JoinGroupResponse
  | SyncGroupR int bytes
  | GroupErrorR int
  | OffsetFetchR bytes int int int
  | OffsetCommitR bytes int int
  | ProduceR ProduceResponse
  | FetchR FetchResponse
  | ListOffsetsR ListOffsetsResponse

fun encode_response :: "int \<Rightarrow> Response \<Rightarrow> WireError + bytes" where
  "encode_response cid (ApiVersionsR e vs) = encode_api_versions_error cid e vs"
| "encode_response cid (MetadataR r) = encode_metadata cid r"
| "encode_response cid (FindCoordinatorR r) = encode_find_coordinator cid r"
| "encode_response cid (InitProducerIdR r) = encode_init_producer_id cid r"
| "encode_response cid (AddPartitionsToTxnR ts) = encode_add_partitions_to_txn cid ts"
| "encode_response cid (EndTxnR e) = encode_end_txn cid e"
| "encode_response cid (JoinGroupR r) = encode_join_group cid r"
| "encode_response cid (SyncGroupR e a) = encode_sync_group cid e a"
| "encode_response cid (GroupErrorR e) = encode_group_error cid e"
| "encode_response cid (OffsetFetchR t p off e) = encode_offset_fetch cid t p off e"
| "encode_response cid (OffsetCommitR t p e) = encode_offset_commit cid t p e"
| "encode_response cid (ProduceR r) = encode_produce cid r"
| "encode_response cid (FetchR r) = encode_fetch cid r"
| "encode_response cid (ListOffsetsR r) = encode_list_offsets cid r"

fun response_field :: "Response \<Rightarrow> bytes" where
  "response_field (ApiVersionsR e vs) = be_bytes 2 e @ array_field version_field vs"
| "response_field (MetadataR r) = array_field broker_field (mr_brokers r) @ be_bytes 4 (mr_controller_id r)
     @ array_field topic_metadata_field (mr_topics r)"
| "response_field (FindCoordinatorR r) = be_bytes 4 0 @ be_bytes 2 (fc_error r) @ nullable_string_field None
     @ be_bytes 4 (fc_node_id r) @ string_field (fc_host r) @ be_bytes 4 (fc_port r)"
| "response_field (InitProducerIdR r) = be_bytes 4 0 @ be_bytes 2 (ip_error r) @ be_bytes 8 (ip_producer_id r)
     @ be_bytes 2 (ip_producer_epoch r)"
| "response_field (AddPartitionsToTxnR ts) = be_bytes 4 0 @ array_field txn_result_field ts"
| "response_field (EndTxnR e) = be_bytes 4 0 @ be_bytes 2 e"
| "response_field (JoinGroupR r) = be_bytes 2 (jg_error r) @ be_bytes 4 (jg_generation r)
     @ string_field (jg_protocol r) @ string_field (jg_leader r) @ string_field (jg_member_id r)
     @ array_field member_field (jg_members r)"
| "response_field (SyncGroupR e a) = be_bytes 2 e @ bytes_field (Some a)"
| "response_field (GroupErrorR e) = be_bytes 2 e"
| "response_field (OffsetFetchR t p off e) = array_len_field 1 @ string_field t @ array_len_field 1
     @ be_bytes 4 p @ be_bytes 8 off @ nullable_string_field None @ be_bytes 2 e"
| "response_field (OffsetCommitR t p e) = array_len_field 1 @ string_field t @ array_len_field 1
     @ be_bytes 4 p @ be_bytes 2 e"
| "response_field (ProduceR r) = array_field produce_topic_result_field (pr_topics r) @ be_bytes 4 (pr_throttle_time_ms r)"
| "response_field (FetchR r) = be_bytes 4 (fr_throttle_time_ms r) @ array_field fetch_topic_result_field (fr_topics r)"
| "response_field (ListOffsetsR r) = array_field list_topic_result_field (lr_topics r)"

fun response_fits :: "Response \<Rightarrow> bool" where
  "response_fits (ApiVersionsR e vs) \<longleftrightarrow> small (\<lambda>_. True) vs"
| "response_fits (MetadataR r) \<longleftrightarrow>
     small (\<lambda>b. string_ok (bm_host b)) (mr_brokers r) \<and> small topic_metadata_fits (mr_topics r)"
| "response_fits (FindCoordinatorR r) \<longleftrightarrow> string_ok (fc_host r)"
| "response_fits (AddPartitionsToTxnR ts) \<longleftrightarrow> small txn_result_fits ts"
| "response_fits (JoinGroupR r) \<longleftrightarrow> string_ok (jg_protocol r) \<and> string_ok (jg_leader r) \<and> string_ok (jg_member_id r)
     \<and> small (\<lambda>(m, d). string_ok m \<and> length d \<le> MAX_FRAME_LEN) (jg_members r)"
| "response_fits (SyncGroupR e a) \<longleftrightarrow> length a \<le> MAX_FRAME_LEN"
| "response_fits (OffsetFetchR t p off e) \<longleftrightarrow> string_ok t"
| "response_fits (OffsetCommitR t p e) \<longleftrightarrow> string_ok t"
| "response_fits (ProduceR r) \<longleftrightarrow> small produce_topic_fits (pr_topics r)"
| "response_fits (FetchR r) \<longleftrightarrow> small fetch_topic_fits (fr_topics r)"
| "response_fits (ListOffsetsR r) \<longleftrightarrow> small list_topic_fits (lr_topics r)"
| "response_fits (InitProducerIdR r) \<longleftrightarrow> True"
| "response_fits (EndTxnR e) \<longleftrightarrow> True"
| "response_fits (GroupErrorR e) \<longleftrightarrow> True"

definition response_frame :: "int \<Rightarrow> bytes \<Rightarrow> bytes" where
  "response_frame cid xs = be_bytes 4 (wrap_signed 32 (int (length xs) + 4)) @ be_bytes 4 cid @ xs"

definition framed :: "bool \<Rightarrow> int \<Rightarrow> bytes \<Rightarrow> WireError + bytes \<Rightarrow> bool" where
  "framed ok cid xs res \<longleftrightarrow> (ok \<longrightarrow> res = Inr (response_frame cid xs)) \<and> (\<not> ok \<longrightarrow> (\<exists>er. res = Inl er))"

lemma framed_cong: "framed a cid xs r \<Longrightarrow> a = b \<Longrightarrow> xs = ys \<Longrightarrow> framed b cid ys r"
  by simp

lemma respond_framed:
  assumes "appends ok xs (enc_seq steps)"
  shows "framed ok cid xs (respond_with cid steps)"
  using assms [unfolded appends_def, THEN spec, of "enc_response cid"]
  by (auto simp: framed_def respond_with_def response_frame_def enc_finish_def enc_response_def add.commute)

lemmas encoder_defs = encode_api_versions_error_def encode_metadata_def encode_find_coordinator_def
  encode_init_producer_id_def encode_add_partitions_to_txn_def encode_end_txn_def encode_join_group_def
  encode_sync_group_def encode_group_error_def encode_offset_fetch_def encode_offset_commit_def
  encode_produce_def encode_fetch_def encode_list_offsets_def

lemmas array_steps = version.array_appends broker.array_appends topic_metadata.array_appends
  txn_topic.array_appends member.array_appends produce_topic.array_appends fetch_topic.array_appends
  list_topic.array_appends appends_Cons [OF appends_fields(8)]

lemma encode_response_framed: "framed (response_fits r) cid (response_field r) (encode_response cid r)"
  by (cases r; simp only: encode_response.simps response_fits.simps response_field.simps encoder_defs;
      rule framed_cong [OF respond_framed], (rule array_steps appends_steps)+)
    (simp_all add: MAX_ARRAY_LEN_def)

lemma encode_response_Inr:
  "encode_response cid r = Inr bs \<longleftrightarrow> response_fits r \<and> bs = response_frame cid (response_field r)"
  using encode_response_framed [of r cid] by (auto simp: framed_def)

section \<open>Which errors an encoder reports\<close>

definition errors_in :: "WireError set \<Rightarrow> (Encoder \<Rightarrow> WireError + Encoder) \<Rightarrow> bool" where
  "errors_in E f \<longleftrightarrow> (\<forall>e er. f e = Inl er \<longrightarrow> er \<in> E)"

lemma errors_Nil: "errors_in E (enc_seq [])"
  by (simp add: errors_in_def)

lemma errors_Cons: "errors_in E f \<Longrightarrow> errors_in E (enc_seq fs) \<Longrightarrow> errors_in E (enc_seq (f # fs))"
  by (auto simp: errors_in_def ethen_def split: sum.splits)

lemma errors_each: "(\<And>x. x \<in> set xs \<Longrightarrow> errors_in E (f x)) \<Longrightarrow> errors_in E (enc_each f xs)"
  unfolding enc_each_def
proof (induction xs)
  case (Cons x xs)
  then show ?case using errors_Cons [of E "f x" "map f xs"] by (simp del: enc_seq.simps)
qed (simp add: errors_in_def)

lemma errors_eok: "errors_in E (eok f)"
  by (simp add: errors_in_def eok_def)

lemma errors_fields:
  "TooLarge \<in> E \<Longrightarrow> errors_in E (enc_string s)" "TooLarge \<in> E \<Longrightarrow> errors_in E (enc_nullable_string None)"
  "TooLarge \<in> E \<Longrightarrow> errors_in E (enc_bytes s)" "TooLarge \<in> E \<Longrightarrow> errors_in E (enc_array_len n)"
  by (simp_all add: errors_in_def enc_string_eq enc_nullable_string_eq enc_bytes_eq enc_array_len_eq)

lemma errors_put_aborted: "TooLarge \<in> E \<Longrightarrow> errors_in E (put_aborted a)"
  unfolding put_aborted_def put_aborted_range_def
  by (cases a) (auto simp: case_prod_beta intro!: errors_Nil errors_Cons errors_each errors_eok errors_fields,
      simp add: errors_in_def enc_nullable_array_len_def)

lemma errors_put_records:
  "TooLarge \<in> E \<Longrightarrow> (MAX_RECORDS < length rs \<Longrightarrow> Invalid \<in> E) \<Longrightarrow> errors_in E (put_records rs)"
  by (auto simp: errors_in_def put_records_def enc_bytes_eq encode_record_batch_eq split: if_splits)

lemmas errors_steps = errors_Nil errors_Cons errors_each errors_eok errors_fields errors_put_aborted errors_put_records

lemma errors_parts:
  assumes T: "TooLarge \<in> E"
  shows "errors_in E (put_version v)" "errors_in E (put_broker b)" "errors_in E (put_topic_metadata tm)"
    "errors_in E (put_txn_topic tp)" "errors_in E (put_member m)" "errors_in E (put_produce_topic pt)"
    "errors_in E (put_list_offsets_topic lt)"
  unfolding put_version_def put_broker_def put_replica_def put_partition_metadata_def put_topic_metadata_def
    put_txn_partition_def put_txn_topic_def put_member_def put_produce_partition_def put_produce_topic_def
    put_list_offsets_partition_def put_list_offsets_topic_def split_def
  by (intro errors_steps T)+

lemma errors_fetch_topic:
  assumes "TooLarge \<in> E" and "\<And>p. p \<in> set (ftr_partitions t) \<Longrightarrow> MAX_RECORDS < length (fpr_records p) \<Longrightarrow> Invalid \<in> E"
  shows "errors_in E (put_fetch_topic t)"
  unfolding put_fetch_topic_def put_fetch_partition_def
  by (intro errors_steps assms)

definition overfull :: "Response \<Rightarrow> bool" where
  "overfull r \<longleftrightarrow> (\<exists>f t p. r = FetchR f \<and> t \<in> set (fr_topics f) \<and> p \<in> set (ftr_partitions t)
     \<and> MAX_RECORDS < length (fpr_records p))"

lemma respond_errors: "errors_in E (enc_seq steps) \<Longrightarrow> respond_with cid steps = Inl er \<Longrightarrow> er \<in> E"
  by (auto simp: respond_with_def errors_in_def split: sum.splits)

lemma encode_response_errors:
  assumes "encode_response cid r = Inl er"
  shows "er = TooLarge \<or> er = Invalid \<and> overfull r"
proof -
  define E where "E = {er. er = TooLarge \<or> er = Invalid \<and> overfull r}"
  have T: "TooLarge \<in> E" by (simp add: E_def)
  note parts = errors_steps T errors_parts [OF T]
  have resp: "errors_in E (enc_seq steps) \<Longrightarrow> encode_response cid r = respond_with cid steps \<Longrightarrow> er \<in> E" for steps
    using assms respond_errors by metis
  have "er \<in> E"
  proof (cases r)
    case (FetchR f)
    have "errors_in E (put_fetch_topic t)" if "t \<in> set (fr_topics f)" for t
      by (rule errors_fetch_topic [OF T]) (use that FetchR in \<open>auto simp: E_def overfull_def\<close>)
    then have "errors_in E (enc_seq [eok (enc_i32 (fr_throttle_time_ms f)), enc_array_len (length (fr_topics f)),
        enc_each put_fetch_topic (fr_topics f)])"
      by (intro parts)
    then show ?thesis by (rule resp) (simp add: FetchR encode_fetch_def)
  qed (rule resp [rotated], simp only: encode_response.simps encoder_defs, intro parts)+
  then show ?thesis by (simp add: E_def)
qed

section \<open>The client's side\<close>

definition client_find_coordinator :: "FindCoordinatorResponse reader" where
  "client_find_coordinator = dbind dec_i32 (\<lambda>throttle. dbind dec_i16 (\<lambda>e. dbind nullable_string_bytes (\<lambda>msg.
     dbind dec_i32 (\<lambda>n. dbind string_bytes (\<lambda>h. dbind dec_i32 (\<lambda>p.
     dreturn \<lparr>fc_error = e, fc_node_id = n, fc_host = h, fc_port = p\<rparr>))))))"

definition client_init_producer_id :: "InitProducerIdResponse reader" where
  "client_init_producer_id = dbind dec_i32 (\<lambda>throttle. dbind dec_i16 (\<lambda>e. dbind dec_i64 (\<lambda>p. dbind dec_i16 (\<lambda>ep.
     dreturn \<lparr>ip_error = e, ip_producer_id = p, ip_producer_epoch = ep\<rparr>))))"

definition client_join_group :: "JoinGroupResponse reader" where
  "client_join_group = dbind dec_i16 (\<lambda>e. dbind dec_i32 (\<lambda>g. dbind string_bytes (\<lambda>pr. dbind string_bytes (\<lambda>l.
     dbind string_bytes (\<lambda>m. dbind (dec_array client_member) (\<lambda>ms.
     dreturn \<lparr>jg_error = e, jg_generation = g, jg_protocol = pr, jg_leader = l, jg_member_id = m, jg_members = ms\<rparr>))))))"

definition client_response :: "int \<Rightarrow> Response reader" where
  "client_response api_key =
     (if api_key = API_API_VERSIONS then
        dbind dec_i16 (\<lambda>e. dbind (dec_array client_version) (\<lambda>vs. dreturn (ApiVersionsR e vs)))
      else if api_key = API_METADATA then
        dbind (dec_array client_broker) (\<lambda>bs. dbind dec_i32 (\<lambda>c. dbind (dec_array client_topic_metadata) (\<lambda>ts.
          dreturn (MetadataR \<lparr>mr_brokers = bs, mr_controller_id = c, mr_topics = ts\<rparr>))))
      else if api_key = API_FIND_COORDINATOR then dbind client_find_coordinator (\<lambda>r. dreturn (FindCoordinatorR r))
      else if api_key = API_INIT_PRODUCER_ID then dbind client_init_producer_id (\<lambda>r. dreturn (InitProducerIdR r))
      else if api_key = API_ADD_PARTITIONS_TO_TXN then
        dbind dec_i32 (\<lambda>_. dbind (dec_array client_txn_topic) (\<lambda>ts. dreturn (AddPartitionsToTxnR ts)))
      else if api_key = API_END_TXN then dbind dec_i32 (\<lambda>_. dbind dec_i16 (\<lambda>e. dreturn (EndTxnR e)))
      else if api_key = API_JOIN_GROUP then dbind client_join_group (\<lambda>r. dreturn (JoinGroupR r))
      else if api_key = API_SYNC_GROUP then
        dbind dec_i16 (\<lambda>e. dbind dec_bytes (\<lambda>a. case a of None \<Rightarrow> dfail Invalid | Some a \<Rightarrow> dreturn (SyncGroupR e a)))
      else if api_key = API_HEARTBEAT \<or> api_key = API_LEAVE_GROUP then dbind dec_i16 (\<lambda>e. dreturn (GroupErrorR e))
      else if api_key = API_OFFSET_FETCH then
        dbind array_len (\<lambda>_. dbind string_bytes (\<lambda>t. dbind array_len (\<lambda>_. dbind dec_i32 (\<lambda>p. dbind dec_i64 (\<lambda>off.
          dbind nullable_string_bytes (\<lambda>_. dbind dec_i16 (\<lambda>e. dreturn (OffsetFetchR t p off e))))))))
      else if api_key = API_OFFSET_COMMIT then
        dbind array_len (\<lambda>_. dbind string_bytes (\<lambda>t. dbind array_len (\<lambda>_. dbind dec_i32 (\<lambda>p. dbind dec_i16 (\<lambda>e.
          dreturn (OffsetCommitR t p e))))))
      else if api_key = API_PRODUCE then
        dbind (dec_array client_produce_topic) (\<lambda>ts. dbind dec_i32 (\<lambda>t.
          dreturn (ProduceR \<lparr>pr_topics = ts, pr_throttle_time_ms = t\<rparr>)))
      else if api_key = API_FETCH then
        dbind dec_i32 (\<lambda>t. dbind (dec_array client_fetch_topic) (\<lambda>ts.
          dreturn (FetchR \<lparr>fr_throttle_time_ms = t, fr_topics = ts\<rparr>)))
      else if api_key = API_LIST_OFFSETS then
        dbind (dec_array client_list_topic) (\<lambda>ts. dreturn (ListOffsetsR \<lparr>lr_topics = ts\<rparr>))
      else dfail UnsupportedApi)"

text \<open>A client takes one frame off its connection: the length prefix, the correlation id, the body.\<close>

definition client_receive :: "int \<Rightarrow> bytes \<Rightarrow> WireError + int \<times> Response" where
  "client_receive api_key frame =
     (case dbind dec_i32 (\<lambda>len. dbind dec_i32 (\<lambda>cid. dbind (client_response api_key) (\<lambda>r. dreturn (len, cid, r))))
        (dec_new frame) of
        Inl e \<Rightarrow> Inl e
      | Inr ((len, cid, r), d) \<Rightarrow>
          if len + 4 = int (length frame) \<and> dec_done d then Inr (cid, r) else Inl Invalid)"

fun answers :: "Response \<Rightarrow> int \<Rightarrow> bool" where
  "answers (ApiVersionsR _ _) k \<longleftrightarrow> k = API_API_VERSIONS"
| "answers (MetadataR _) k \<longleftrightarrow> k = API_METADATA"
| "answers (FindCoordinatorR _) k \<longleftrightarrow> k = API_FIND_COORDINATOR"
| "answers (InitProducerIdR _) k \<longleftrightarrow> k = API_INIT_PRODUCER_ID"
| "answers (AddPartitionsToTxnR _) k \<longleftrightarrow> k = API_ADD_PARTITIONS_TO_TXN"
| "answers (EndTxnR _) k \<longleftrightarrow> k = API_END_TXN"
| "answers (JoinGroupR _) k \<longleftrightarrow> k = API_JOIN_GROUP"
| "answers (SyncGroupR _ _) k \<longleftrightarrow> k = API_SYNC_GROUP"
| "answers (GroupErrorR _) k \<longleftrightarrow> k = API_HEARTBEAT \<or> k = API_LEAVE_GROUP"
| "answers (OffsetFetchR _ _ _ _) k \<longleftrightarrow> k = API_OFFSET_FETCH"
| "answers (OffsetCommitR _ _ _) k \<longleftrightarrow> k = API_OFFSET_COMMIT"
| "answers (ProduceR _) k \<longleftrightarrow> k = API_PRODUCE"
| "answers (FetchR _) k \<longleftrightarrow> k = API_FETCH"
| "answers (ListOffsetsR _) k \<longleftrightarrow> k = API_LIST_OFFSETS"

text \<open>The integer ranges of the source types, and exact relative fields in record batches.\<close>

fun response_typed :: "Response \<Rightarrow> bool" where
  "response_typed (ApiVersionsR e vs) \<longleftrightarrow>
     in_i16 e \<and> list_all (\<lambda>(k, mn, mx). in_i16 k \<and> in_i16 mn \<and> in_i16 mx) vs"
| "response_typed (MetadataR r) \<longleftrightarrow>
     list_all broker_typed (mr_brokers r) \<and> in_i32 (mr_controller_id r) \<and> list_all topic_metadata_typed (mr_topics r)"
| "response_typed (FindCoordinatorR r) \<longleftrightarrow> in_i16 (fc_error r) \<and> in_i32 (fc_node_id r) \<and> in_i32 (fc_port r)"
| "response_typed (InitProducerIdR r) \<longleftrightarrow> in_i16 (ip_error r) \<and> in_i64 (ip_producer_id r) \<and> in_i16 (ip_producer_epoch r)"
| "response_typed (AddPartitionsToTxnR ts) \<longleftrightarrow> list_all txn_result_typed ts"
| "response_typed (EndTxnR e) \<longleftrightarrow> in_i16 e"
| "response_typed (JoinGroupR r) \<longleftrightarrow> in_i16 (jg_error r) \<and> in_i32 (jg_generation r)"
| "response_typed (SyncGroupR e a) \<longleftrightarrow> in_i16 e"
| "response_typed (GroupErrorR e) \<longleftrightarrow> in_i16 e"
| "response_typed (OffsetFetchR t p off e) \<longleftrightarrow> in_i32 p \<and> in_i64 off \<and> in_i16 e"
| "response_typed (OffsetCommitR t p e) \<longleftrightarrow> in_i32 p \<and> in_i16 e"
| "response_typed (ProduceR r) \<longleftrightarrow> list_all produce_topic_typed (pr_topics r) \<and> in_i32 (pr_throttle_time_ms r)"
| "response_typed (FetchR r) \<longleftrightarrow> list_all fetch_topic_typed (fr_topics r) \<and> in_i32 (fr_throttle_time_ms r)"
| "response_typed (ListOffsetsR r) \<longleftrightarrow> list_all list_topic_typed (lr_topics r)"

lemma reads_find_coordinator_response:
  "string_ok (fc_host r) \<Longrightarrow> in_i16 (fc_error r) \<Longrightarrow> in_i32 (fc_node_id r) \<Longrightarrow> in_i32 (fc_port r) \<Longrightarrow>
     reads client_find_coordinator (response_field (FindCoordinatorR r)) r"
  unfolding client_find_coordinator_def response_field.simps
  by (cases r) (simp, intro reads_step, simp_all add: in_signed_def)

lemma reads_init_producer_response:
  "in_i16 (ip_error r) \<Longrightarrow> in_i64 (ip_producer_id r) \<Longrightarrow> in_i16 (ip_producer_epoch r) \<Longrightarrow>
     reads client_init_producer_id (response_field (InitProducerIdR r)) r"
  unfolding client_init_producer_id_def response_field.simps
  by (cases r) (simp, intro reads_step, simp_all add: in_signed_def)

lemma reads_join_group_response:
  "response_fits (JoinGroupR r) \<Longrightarrow> in_i16 (jg_error r) \<Longrightarrow> in_i32 (jg_generation r) \<Longrightarrow>
     reads client_join_group (response_field (JoinGroupR r)) r"
  unfolding client_join_group_def response_field.simps response_fits.simps
  by (intro reads_bind [OF i16.field_reads] reads_bind [OF i32.field_reads] reads_bind [OF str.field_reads]
      reads_bind_last [OF member.array_reads])
    (cases r; simp add: reads_return list_all_iff)+

lemma response_records_eta [simp]:
  "\<lparr>mr_brokers = mr_brokers m, mr_controller_id = mr_controller_id m, mr_topics = mr_topics m\<rparr> = m"
  "\<lparr>pr_topics = pr_topics p, pr_throttle_time_ms = pr_throttle_time_ms p\<rparr> = p"
  "\<lparr>fr_throttle_time_ms = fr_throttle_time_ms f, fr_topics = fr_topics f\<rparr> = f"
  "\<lparr>lr_topics = lr_topics l\<rparr> = l"
  by (cases m, simp, cases p, simp, cases f, simp, cases l, simp)

lemma client_response_reads:
  assumes "response_fits r" and "response_typed r" and "answers r k"
  shows "reads (client_response k) (response_field r) r"
proof (cases r)
  case (SyncGroupR e a)
  have "reads (dbind dec_i16 (\<lambda>e. dbind dec_bytes (\<lambda>a. case a of None \<Rightarrow> dfail Invalid | Some a \<Rightarrow> dreturn (SyncGroupR e a))))
      (be_bytes 2 e @ bytes_field (Some a)) (SyncGroupR e a)"
    by (rule reads_bind [OF i16.field_reads], use assms SyncGroupR in simp, rule reads_bind_last [OF nbytes.field_reads])
      (use assms SyncGroupR in \<open>simp_all add: reads_return\<close>)
  then show ?thesis using assms SyncGroupR by (simp add: client_response_def)
next
  case (ApiVersionsR e vs)
  then show ?thesis
    using assms by (simp add: client_response_def)
      (intro reads_bind [OF i16.field_reads] reads_bind_last [OF version.array_reads], auto simp: reads_return)
next
  case (MetadataR m)
  then show ?thesis
    using assms by (simp add: client_response_def)
      (intro reads_bind [OF broker.array_reads] reads_bind [OF i32.field_reads] reads_bind_last [OF topic_metadata.array_reads],
       auto simp: reads_return)
next
  case (FindCoordinatorR f)
  then show ?thesis
    using assms reads_bind_return [OF reads_find_coordinator_response, of f FindCoordinatorR]
    by (simp add: client_response_def)
next
  case (InitProducerIdR i)
  then show ?thesis
    using assms reads_bind_return [OF reads_init_producer_response, of i InitProducerIdR]
    by (simp add: client_response_def)
next
  case (AddPartitionsToTxnR ts)
  then show ?thesis
    using assms by (simp add: client_response_def)
      (intro reads_bind [OF i32.field_reads] reads_bind_last [OF txn_topic.array_reads], auto simp: reads_return in_signed_def)
next
  case (EndTxnR e)
  then show ?thesis
    using assms by (simp add: client_response_def) (intro reads_step, auto simp: in_signed_def)
next
  case (JoinGroupR j)
  then show ?thesis
    using assms reads_bind_return [OF reads_join_group_response, of j JoinGroupR]
    by (simp add: client_response_def)
next
  case (GroupErrorR e)
  then show ?thesis
    using assms by (auto simp: client_response_def intro!: reads_step)
next
  case (OffsetFetchR t p off e)
  then show ?thesis
    using assms by (simp add: client_response_def) (intro reads_step, auto simp: MAX_ARRAY_LEN_def)
next
  case (OffsetCommitR t p e)
  then show ?thesis
    using assms by (simp add: client_response_def) (intro reads_step, auto simp: MAX_ARRAY_LEN_def)
next
  case (ProduceR p)
  then show ?thesis
    using assms by (simp add: client_response_def)
      (intro reads_bind [OF produce_topic.array_reads] reads_bind_last [OF i32.field_reads], auto simp: reads_return)
next
  case (FetchR f)
  then show ?thesis
    using assms by (simp add: client_response_def)
      (intro reads_bind [OF i32.field_reads] reads_bind_last [OF fetch_topic.array_reads], auto simp: reads_return)
next
  case (ListOffsetsR l)
  then show ?thesis
    using assms by (simp add: client_response_def)
      (intro reads_bind_last [OF list_topic.array_reads], auto simp: reads_return)
qed

lemma client_receive_reads:
  assumes "reads (client_response k) xs r" and "in_i32 cid" and "length xs + 4 \<le> MAX_FRAME_LEN"
  shows "client_receive k (response_frame cid xs) = Inr (cid, r)"
proof -
  have len: "in_i32 (int (length xs) + 4)" using assms(3) by (simp add: in_signed_def MAX_FRAME_LEN_def)
  have "reads (dbind dec_i32 (\<lambda>len. dbind dec_i32 (\<lambda>cid. dbind (client_response k) (\<lambda>r. dreturn (len, cid, r)))))
      (response_frame cid xs) (int (length xs) + 4, cid, r)"
    unfolding response_frame_def
    using len assms(2) reads_bind_return [OF assms(1), of "\<lambda>r. (int (length xs) + 4, cid, r)"]
    by (intro reads_bind [OF i32.field_reads]) simp_all
  from reads_all [OF this] show ?thesis
    using assms(3) by (simp add: client_receive_def response_frame_def MAX_FRAME_LEN_def usize_max_def)
qed

lemma client_receive_frame:
  assumes "response_fits r" and "response_typed r" and "answers r k" and "in_i32 cid"
    and "length (response_field r) + 4 \<le> MAX_FRAME_LEN"
  shows "client_receive k (response_frame cid (response_field r)) = Inr (cid, r)"
  by (rule client_receive_reads [OF client_response_reads [OF assms(1-3)] assms(4,5)])

section \<open>Fetch responses whose relative fields are not exact\<close>

definition received_partition :: "FetchPartitionResult \<Rightarrow> FetchPartitionResult" where
  "received_partition p = p\<lparr>fpr_records := received (fpr_records p)\<rparr>"

definition received_topic :: "FetchTopicResult \<Rightarrow> FetchTopicResult" where
  "received_topic t = t\<lparr>ftr_partitions := map received_partition (ftr_partitions t)\<rparr>"

definition fetch_fields_typed :: "FetchPartitionResult \<Rightarrow> bool" where
  "fetch_fields_typed p \<longleftrightarrow> in_i32 (fpr_partition p) \<and> in_i16 (fpr_error p) \<and> in_i64 (fpr_high_watermark p)
     \<and> in_i64 (fpr_last_stable_offset p) \<and> fpr_aborted_transactions p = None"

lemma fetch_partition_received:
  assumes "fetch_result_fits p" and "fetch_fields_typed p"
  shows "reads client_fetch_partition (fetch_result_field p) (received_partition p)"
  using assms
  unfolding client_fetch_partition_def fetch_result_field_def fetch_result_fits_def fetch_fields_typed_def received_partition_def
  by (intro reads_bind [OF i32.field_reads] reads_bind [OF i16.field_reads] reads_bind [OF i64.field_reads]
      reads_bind [OF aborted.part_reads] reads_bind_last [OF record_set_reads])
    (cases p; simp add: reads_return)+

lemma fetch_topic_received:
  assumes "fetch_topic_fits t" and "list_all fetch_fields_typed (ftr_partitions t)"
  shows "reads client_fetch_topic (fetch_topic_result_field t) (received_topic t)"
proof -
  have arr: "reads (dec_array client_fetch_partition) (array_field fetch_result_field (ftr_partitions t))
      (map received_partition (ftr_partitions t))"
    using assms by (intro reads_array) (auto simp: fetch_topic_fits_def small_def list_all_iff intro: fetch_partition_received)
  have eta: "\<lparr>ftr_name = ftr_name t, ftr_partitions = ps\<rparr> = t\<lparr>ftr_partitions := ps\<rparr>" for ps by (cases t) simp
  show ?thesis
    using assms(1) unfolding client_fetch_topic_def fetch_topic_result_field_def fetch_topic_fits_def received_topic_def
    by (intro reads_bind [OF str.field_reads] reads_bind_last [OF arr]) (simp_all add: reads_return eta)
qed

lemma client_receives_fetch:
  assumes "response_fits (FetchR r)" and "in_i32 (fr_throttle_time_ms r)" and "in_i32 cid"
    and "list_all (\<lambda>t. list_all fetch_fields_typed (ftr_partitions t)) (fr_topics r)"
    and "length (response_field (FetchR r)) + 4 \<le> MAX_FRAME_LEN"
  shows "client_receive API_FETCH (response_frame cid (response_field (FetchR r)))
    = Inr (cid, FetchR (r\<lparr>fr_topics := map received_topic (fr_topics r)\<rparr>))"
proof -
  have arr: "reads (dec_array client_fetch_topic) (array_field fetch_topic_result_field (fr_topics r)) (map received_topic (fr_topics r))"
    using assms by (intro reads_array) (auto simp: small_def list_all_iff intro: fetch_topic_received)
  have eta: "\<lparr>fr_throttle_time_ms = fr_throttle_time_ms r, fr_topics = ts\<rparr> = r\<lparr>fr_topics := ts\<rparr>" for ts by (cases r) simp
  have "reads (client_response API_FETCH) (response_field (FetchR r)) (FetchR (r\<lparr>fr_topics := map received_topic (fr_topics r)\<rparr>))"
    using assms(2) by (simp add: client_response_def)
      (intro reads_bind [OF i32.field_reads] reads_bind_last [OF arr], simp_all add: reads_return eta)
  then show ?thesis by (rule client_receive_reads) (use assms in simp_all)
qed

section \<open>Properties\<close>

text \<open>
  C10: responses round trip. Whatever response the broker encodes, a client that reads the frame
  with the Kafka layout of the API it called gets back the correlation id and exactly the
  response, including, for a fetch, every record with its offset, timestamp, key and value.
  The hypotheses are the integer ranges of the source types, exact relative offsets and
  timestamps, and the frame bound that the encoder asserts in debug builds.
\<close>

theorem response_round_trip:
  assumes "encode_response cid r = Inr bs" and "in_i32 cid" and "response_typed r" and "answers r k"
    and "length bs \<le> 4 + MAX_FRAME_LEN"
  shows "client_receive k bs = Inr (cid, r)"
  using assms client_receive_frame [of r k cid] by (auto simp: encode_response_Inr response_frame_def)

definition sample_fetch :: Response where
  "sample_fetch = FetchR \<lparr>fr_throttle_time_ms = 0, fr_topics = [\<lparr>ftr_name = [116], ftr_partitions =
     [\<lparr>fpr_partition = 2, fpr_error = 0, fpr_high_watermark = 6, fpr_last_stable_offset = 6,
       fpr_aborted_transactions = None, fpr_records = [sample 5 1000 97]\<rparr>]\<rparr>]\<rparr>"

lemma sample_fetch_facts:
  "response_fits sample_fetch" "response_typed sample_fetch" "answers sample_fetch API_FETCH"
  "length (response_field sample_fetch) \<le> 200"
proof -
  have "sendable 5 [sample 5 1000 97]" using sample_encodes [of 5 1000 97] by (simp add: encode_Inr)
  moreover have "rec_offset (sample 5 1000 97) = 5" by (simp add: sample_def)
  ultimately show "response_fits sample_fetch" "response_typed sample_fetch" "answers sample_fetch API_FETCH"
    "length (response_field sample_fetch) \<le> 200"
    using sample_length [of 5 1000 97]
    by (simp_all add: sample_fetch_def small_def MAX_ARRAY_LEN_def MAX_STRING_LEN_def fetch_topic_fits_def
        fetch_result_fits_def records_fit_def fetch_topic_typed_def fetch_result_typed_def records_typed_def delta_ok_def
        in_signed_def array_field_def array_len_field_def fetch_topic_result_field_def string_field_def
        fetch_result_field_def aborted_field_def bytes_field_def record_set_def)
qed

theorem response_round_trip_witness:
  "\<exists>bs. encode_response 7 sample_fetch = Inr bs \<and> client_receive API_FETCH bs = Inr (7, sample_fetch)"
proof -
  let ?bs = "response_frame 7 (response_field sample_fetch)"
  have enc: "encode_response 7 sample_fetch = Inr ?bs" by (simp add: encode_response_Inr sample_fetch_facts)
  have "length ?bs \<le> 4 + MAX_FRAME_LEN"
    using sample_fetch_facts(4) by (simp add: response_frame_def MAX_FRAME_LEN_def)
  then show ?thesis
    using response_round_trip [OF enc _ sample_fetch_facts(2,3)] enc by (auto simp: in_signed_def)
qed

text \<open>
  C37: encoding fails only on bounds. A response is encoded exactly when every string, array, byte
  field and record batch of it fits its bound; the failure is \<open>TooLarge\<close>, except for a fetch
  partition with more than \<open>MAX_RECORDS\<close> records, which is \<open>Invalid\<close>.
\<close>

theorem response_errors_are_bounds:
  "((\<exists>bs. encode_response cid r = Inr bs) \<longleftrightarrow> response_fits r)
   \<and> (encode_response cid r = Inl er \<longrightarrow> er = TooLarge \<or> er = Invalid \<and> overfull r)"
  using encode_response_errors [of cid r er] by (auto simp: encode_response_Inr)

theorem response_errors_are_bounds_witness:
  "encode_response 7 (SyncGroupR 0 (replicate (MAX_FRAME_LEN + 1) 0)) = Inl TooLarge"
proof -
  let ?r = "SyncGroupR 0 (replicate (MAX_FRAME_LEN + 1) 0)"
  obtain er where "encode_response 7 ?r = Inl er"
    using response_errors_are_bounds [of 7 ?r] by (cases "encode_response 7 ?r") auto
  then show ?thesis using response_errors_are_bounds [of 7 ?r er] by (auto simp: overfull_def)
qed

section \<open>A window the fetch limit allows and the encoder refuses\<close>

text \<open>
  The fetch path limits a window by the log's accounted sizes to \<open>MAX_FRAME_LEN\<close>, the same
  number that bounds the encoded batch, whose 61-byte header is not accounted for. Two
  records whose accounted sizes add up to the limit are therefore returned by the log, and
  encoding the response fails.
\<close>

lemma record_bytes_lower:
  assumes "rec_key r = None" and "rec_value r = Some v"
  shows "7 + length v \<le> length (record_bytes first base r)"
proof -
  have "6 + length v \<le> length (record_body first base r)"
    using length_put_varlong [of "sat_sub 64 (rec_timestamp_ms r) first"]
      length_put_varint [of "wrap_signed 32 (wrap_signed 64 (rec_offset r - base))"]
      length_put_varint [of "- 1"] length_put_varint [of "int (length v)"] put_varint_zero
    unfolding record_body_def length_append assms opt_len_def opt_payload_def option.case list.size by linarith
  then show ?thesis
    using length_put_varint [of "wrap_signed 32 (int (length (record_body first base r)))"]
    unfolding record_bytes_def length_append by linarith
qed

lemma full_window_not_encodable:
  assumes "rs = [\<lparr>rec_offset = 0, rec_timestamp_ms = t, rec_key = None, rec_value = Some v\<rparr>,
                  \<lparr>rec_offset = 1, rec_timestamp_ms = t, rec_key = None, rec_value = Some v\<rparr>]"
    and "length v = 524256"
  shows "bytes_of rs = MAX_FRAME_LEN \<and> encode_record_batch 0 rs = Inl TooLarge"
proof -
  have "length (concat (map (record_bytes t 0) rs)) \<ge> 2 * (7 + 524256)"
    using record_bytes_lower [of "rs ! 0" v t 0] record_bytes_lower [of "rs ! 1" v t 0] assms by simp
  then have "MAX_FRAME_LEN < length (batch_bytes 0 rs)"
    using assms(1) by (simp add: batch_bytes_def body_bytes_length MAX_FRAME_LEN_def)
  then show ?thesis
    using assms by (simp add: encode_record_batch_eq bytes_of_def record_size_def RECORD_OVERHEAD_BYTES_def
        MAX_FRAME_LEN_def MAX_RECORDS_def)
qed

end
