(* ===== verification/Partition_Shard.thy ===== *)
theory Partition_Shard
  imports Log_History Topic_Catalog Group_Coordinator
begin

text \<open>
  A partition shard: the commands and replies of \<^verbatim>\<open>crates/broker-runtime/src/message.rs\<close> and the
  message loop of \<^verbatim>\<open>crates/broker-runtime/src/partition.rs\<close>.

  A command's reply channel is not part of the command here: \<open>handle_command\<close> returns the reply
  instead of sending it, and \<open>partition_task\<close> maps the commands a shard receives to the replies
  it gives, in order. The shard is the only writer of its logs and coordinators, so its
  behaviour is a function of that sequence.
\<close>

section \<open>Messages\<close>

datatype CoordinationRequest =
    InitProducer bytes
  | AddPartition bytes ProducerIdentity bytes int
  | ValidateProduce bytes ProducerIdentity bytes int
  | EndTransaction bytes ProducerIdentity bool
  | AddOffset bytes ProducerIdentity TransactionOffset
  | JoinGroupReq bytes bytes "bytes list" "(bytes \<times> int) list"
  | HeartbeatReq bytes bytes int
  | LeaveGroupReq bytes bytes int
  | LeaveGroupAny bytes bytes
  | CommitOffset bytes int bytes int int
  | FetchOffset bytes bytes int

datatype PartitionCommand =
    ProduceCmd bytes int "RecordData list"
  | ProduceTransactionalCmd bytes int "RecordData list" int
  | FetchCmd bytes int int nat nat bool
  | ListOffsetCmd bytes int bool
  | ShutdownCmd
  | ResolveTransactionCmd int bool
  | CoordinateCmd CoordinationRequest

datatype CoordinationResult =
    Producer ProducerIdentity
  | GroupJoined int "GroupAssignment list"
  | TransactionCompleted TransactionCompletion
  | OffsetValue "int option"
  | Applied

datatype PartitionResult =
    Produced int
  | Fetched FetchWindow
  | Offset int
  | Failed LogError
  | Coordination "CoordinationError + CoordinationResult"
  | Resolved
  | Stopped

section \<open>The message loop\<close>

record ShardState =
  sh_logs :: "(bytes \<times> int, PartitionLog) btree_map"
  sh_transactions :: TransactionCoordinator
  sh_groups :: GroupCoordinator

definition shard_new :: ShardState where
  "shard_new = \<lparr>sh_logs = [], sh_transactions = txn_new, sh_groups = group_new\<rparr>"

definition new_log :: "nat option \<Rightarrow> PartitionLog" where
  "new_log partition_max_bytes =
     (case partition_max_bytes of Some max_bytes \<Rightarrow> log_with_max_bytes max_bytes | None \<Rightarrow> log_new)"

text \<open>Keeping a coordinator's new state, or the old one when the operation failed.\<close>

definition on_transactions ::
  "('a \<Rightarrow> CoordinationResult) \<Rightarrow> (TransactionCoordinator \<Rightarrow> CoordinationError + 'a \<times> TransactionCoordinator)
     \<Rightarrow> ShardState \<Rightarrow> (CoordinationError + CoordinationResult) \<times> ShardState" where
  "on_transactions result f st =
     (case f (sh_transactions st) of
        Inl e \<Rightarrow> (Inl e, st)
      | Inr (v, transactions) \<Rightarrow> (Inr (result v), st\<lparr>sh_transactions := transactions\<rparr>))"

definition on_groups ::
  "('a \<Rightarrow> CoordinationResult) \<Rightarrow> (GroupCoordinator \<Rightarrow> CoordinationError + 'a \<times> GroupCoordinator)
     \<Rightarrow> ShardState \<Rightarrow> (CoordinationError + CoordinationResult) \<times> ShardState" where
  "on_groups result f st =
     (case f (sh_groups st) of
        Inl e \<Rightarrow> (Inl e, st)
      | Inr (v, groups) \<Rightarrow> (Inr (result v), st\<lparr>sh_groups := groups\<rparr>))"

fun shard_coordinate ::
  "CoordinationRequest \<Rightarrow> ShardState \<Rightarrow> (CoordinationError + CoordinationResult) \<times> ShardState" where
  "shard_coordinate (InitProducer transactional_id) =
     on_transactions Producer (\<lambda>c. txn_init c transactional_id)"
| "shard_coordinate (AddPartition transactional_id producer topic prt) =
     on_transactions (\<lambda>_. Applied) (\<lambda>c. add_partition c transactional_id producer topic prt)"
| "shard_coordinate (ValidateProduce transactional_id producer topic prt) =
     on_transactions (\<lambda>_. Applied) (\<lambda>c. validate_produce c transactional_id producer topic prt)"
| "shard_coordinate (EndTransaction transactional_id producer commit) =
     on_transactions TransactionCompleted (\<lambda>c. txn_end c transactional_id producer commit)"
| "shard_coordinate (AddOffset transactional_id producer off) =
     on_transactions (\<lambda>_. Applied) (\<lambda>c. add_offset c transactional_id producer off)"
| "shard_coordinate (JoinGroupReq group_id member_id subscriptions partitions) =
     on_groups (\<lambda>(generation, assignments). GroupJoined generation assignments)
       (\<lambda>c. group_join c group_id member_id subscriptions partitions)"
| "shard_coordinate (HeartbeatReq group_id member_id generation) =
     on_groups (\<lambda>_. Applied) (\<lambda>c. heartbeat c group_id member_id generation)"
| "shard_coordinate (LeaveGroupReq group_id member_id generation) =
     on_groups (\<lambda>_. Applied) (\<lambda>c. group_leave c group_id member_id generation)"
| "shard_coordinate (LeaveGroupAny group_id member_id) =
     on_groups (\<lambda>_. Applied) (\<lambda>c. leave_any c group_id member_id)"
| "shard_coordinate (CommitOffset group_id generation topic prt off) =
     on_groups (\<lambda>_. Applied) (\<lambda>c. commit_offset c group_id generation topic prt off)"
| "shard_coordinate (FetchOffset group_id topic prt) =
     on_groups OffsetValue (\<lambda>c. case group_offset c group_id topic prt of Inl e \<Rightarrow> Inl e | Inr v \<Rightarrow> Inr (v, c))"

text \<open>
  What the four data commands share: the catalog check, then the log's entry, created if the
  partition has none yet, handed to the operation as a mutable reference.
\<close>

definition with_log ::
  "TopicCatalog \<Rightarrow> nat option \<Rightarrow> bytes \<Rightarrow> int \<Rightarrow> (PartitionLog \<Rightarrow> PartitionResult \<times> PartitionLog)
     \<Rightarrow> ShardState \<Rightarrow> PartitionResult \<times> ShardState" where
  "with_log catalog partition_max_bytes topic prt f st =
     (case check_partition catalog topic prt of
        Inl error \<Rightarrow> (Failed error, st)
      | Inr _ \<Rightarrow>
          let log = (case bt_get (sh_logs st) (topic, prt) of
                       Some log \<Rightarrow> log | None \<Rightarrow> new_log partition_max_bytes);
              (result, log') = f log
          in (result, st\<lparr>sh_logs := bt_insert (topic, prt) log' (sh_logs st)\<rparr>))"

definition append_result :: "(LogError + int) \<times> PartitionLog \<Rightarrow> PartitionResult \<times> PartitionLog" where
  "append_result = (\<lambda>(r, log). (case r of Inr base_offset \<Rightarrow> Produced base_offset | Inl error \<Rightarrow> Failed error, log))"

fun handle_command ::
  "TopicCatalog \<Rightarrow> nat option \<Rightarrow> PartitionCommand \<Rightarrow> ShardState \<Rightarrow> PartitionResult \<times> ShardState" where
  "handle_command catalog partition_max_bytes (ProduceCmd topic prt records) st =
     with_log catalog partition_max_bytes topic prt (\<lambda>log. append_result (append_data log records)) st"
| "handle_command catalog partition_max_bytes (ProduceTransactionalCmd topic prt records producer_id) st =
     with_log catalog partition_max_bytes topic prt
       (\<lambda>log. append_result (append_transactional log records producer_id)) st"
| "handle_command catalog partition_max_bytes (FetchCmd topic prt off max_records max_bytes read_committed) st =
     with_log catalog partition_max_bytes topic prt
       (\<lambda>log. (case fetch_with_isolation log off max_records max_bytes read_committed of
                 Inr window \<Rightarrow> Fetched window | Inl error \<Rightarrow> Failed error, log)) st"
| "handle_command catalog partition_max_bytes (ListOffsetCmd topic prt earliest) st =
     with_log catalog partition_max_bytes topic prt (\<lambda>log. (Offset (list_offset log earliest), log)) st"
| "handle_command catalog partition_max_bytes ShutdownCmd st = (Stopped, st)"
| "handle_command catalog partition_max_bytes (CoordinateCmd request) st =
     (let (result, st') = shard_coordinate request st in (Coordination result, st'))"
| "handle_command catalog partition_max_bytes (ResolveTransactionCmd producer_id commit) st =
     (Resolved, st\<lparr>sh_logs := map (\<lambda>(key, log). (key, commit_transaction log producer_id commit)) (sh_logs st)\<rparr>)"

text \<open>The loop ends with the mailbox or right after answering a shutdown.\<close>

fun partition_task ::
  "TopicCatalog \<Rightarrow> nat option \<Rightarrow> PartitionCommand list \<Rightarrow> ShardState \<Rightarrow> PartitionResult list \<times> ShardState" where
  "partition_task catalog partition_max_bytes [] st = ([], st)"
| "partition_task catalog partition_max_bytes (command # commands) st =
     (let (result, st') = handle_command catalog partition_max_bytes command st in
      if command = ShutdownCmd then ([result], st')
      else let (results, st'') = partition_task catalog partition_max_bytes commands st' in (result # results, st''))"

section \<open>Logs of a shard\<close>

definition log_at :: "nat option \<Rightarrow> ShardState \<Rightarrow> bytes \<times> int \<Rightarrow> PartitionLog" where
  "log_at mb st key = (case bt_get (sh_logs st) key of Some log \<Rightarrow> log | None \<Rightarrow> new_log mb)"

text \<open>The operations a command performs on the log of one partition.\<close>

fun ops_for :: "TopicCatalog \<Rightarrow> bytes \<times> int \<Rightarrow> PartitionCommand \<Rightarrow> LogOp list" where
  "ops_for cat key (ProduceCmd topic prt records) =
     (if key = (topic, prt) \<and> check_partition cat topic prt = Inr () then [OpAppendData records] else [])"
| "ops_for cat key (ProduceTransactionalCmd topic prt records p) =
     (if key = (topic, prt) \<and> check_partition cat topic prt = Inr () then [OpAppendTransactional records p] else [])"
| "ops_for cat key (ResolveTransactionCmd p commit) = [OpCommitTransaction p commit]"
| "ops_for cat key _ = []"

definition served :: "PartitionCommand list \<Rightarrow> PartitionCommand list" where
  "served cmds = takeWhile (\<lambda>c. c \<noteq> ShutdownCmd) cmds"

definition shard_run :: "TopicCatalog \<Rightarrow> nat option \<Rightarrow> PartitionCommand list \<Rightarrow> ShardState \<Rightarrow> ShardState" where
  "shard_run cat mb cmds st = fold (\<lambda>c st. snd (handle_command cat mb c st)) cmds st"

lemma bt_get_map: "bt_get (map (\<lambda>(k, v). (k, f v)) m) k = map_option f (bt_get m k)"
  by (induction m) auto

lemma bt_keys_map [simp]: "bt_keys (map (\<lambda>(k, v). (k, f v)) m) = bt_keys m"
  by (induction m) (auto simp: bt_keys_def)

lemma bt_wf_map [simp]: "bt_wf (map (\<lambda>(k, v). (k, f v)) m) = bt_wf m"
  by (simp add: bt_wf_def)

lemma commit_new_log [simp]: "commit_transaction (new_log mb) p c = new_log mb"
  by (simp add: new_log_def commit_transaction_def log_new_def log_with_max_bytes_def split: option.splits)

lemma on_transactions_logs [simp]: "sh_logs (snd (on_transactions res f st)) = sh_logs st"
  "sh_groups (snd (on_transactions res f st)) = sh_groups st"
  by (auto simp: on_transactions_def split: sum.splits)

lemma on_groups_logs [simp]: "sh_logs (snd (on_groups res f st)) = sh_logs st"
  "sh_transactions (snd (on_groups res f st)) = sh_transactions st"
  by (auto simp: on_groups_def split: sum.splits)

lemma coordinate_logs [simp]: "sh_logs (snd (shard_coordinate request st)) = sh_logs st"
  by (cases request) simp_all

lemma with_log_eq:
  "with_log cat mb topic prt f st =
     (case check_partition cat topic prt of
        Inl e \<Rightarrow> (Failed e, st)
      | Inr _ \<Rightarrow> (fst (f (log_at mb st (topic, prt))),
          st\<lparr>sh_logs := bt_insert (topic, prt) (snd (f (log_at mb st (topic, prt)))) (sh_logs st)\<rparr>))"
  by (cases "check_partition cat topic prt") (simp_all add: with_log_def log_at_def case_prod_beta Let_def)

text \<open>
  One command changes the log of each partition by its own operations on that partition, and
  by nothing else.
\<close>

lemma command_log_at:
  "log_at mb (snd (handle_command cat mb c st)) key = log_run (ops_for cat key c) (log_at mb st key)"
proof (cases c)
  case (ResolveTransactionCmd p commit)
  then show ?thesis
    by (cases "bt_get (sh_logs st) key") (simp_all add: log_at_def bt_get_map log_run_def)
next
  case (CoordinateCmd request)
  then show ?thesis by (simp add: log_at_def case_prod_beta log_run_def)
qed (auto simp: with_log_eq log_at_def log_run_def append_result_def case_prod_beta split: sum.splits)

lemma shard_run_log_at:
  "log_at mb (shard_run cat mb cmds st) key = log_run (concat (map (ops_for cat key) cmds)) (log_at mb st key)"
  by (induction cmds arbitrary: st) (simp_all add: shard_run_def log_run_def command_log_at)

lemma partition_task_run:
  "snd (partition_task cat mb cmds st) = shard_run cat mb (served cmds) st"
proof (induction cmds arbitrary: st)
  case (Cons c cmds)
  then show ?case by (auto simp: served_def shard_run_def case_prod_beta Let_def)
qed (simp add: served_def shard_run_def)

lemma log_at_new [simp]: "log_at mb shard_new key = new_log mb"
  by (simp add: log_at_def shard_new_def)

lemma represents_new: "represents [] (new_log mb)"
  by (cases mb) (simp_all add: new_log_def represents_empty)

section \<open>The shard invariant\<close>

definition shard_wf :: "TopicCatalog \<Rightarrow> ShardState \<Rightarrow> bool" where
  "shard_wf cat st \<longleftrightarrow> bt_wf (sh_logs st)
     \<and> (\<forall>(topic, prt) \<in> set (bt_keys (sh_logs st)). check_partition cat topic prt = Inr ())
     \<and> txn_wf (sh_transactions st) \<and> group_wf (sh_groups st)"

lemma shard_wf_new: "shard_wf cat shard_new"
  by (simp add: shard_wf_def shard_new_def bt_keys_def)

lemma coordinate_wf:
  assumes "shard_wf cat st"
  shows "shard_wf cat (snd (shard_coordinate request st))"
proof -
  have t: "txn_wf (sh_transactions (snd (on_transactions res f st)))"
    if "\<And>c v c'. f c = Inr (v, c') \<Longrightarrow> txn_wf c \<Longrightarrow> txn_wf c'" for res and f :: "_ \<Rightarrow> _ + 'a \<times> _"
    using assms that by (auto simp: on_transactions_def shard_wf_def split: sum.splits)
  have g: "group_wf (sh_groups (snd (on_groups res f st)))"
    if "\<And>c v c'. f c = Inr (v, c') \<Longrightarrow> group_wf c \<Longrightarrow> group_wf c'" for res and f :: "_ \<Rightarrow> _ + 'a \<times> _"
    using assms that by (auto simp: on_groups_def shard_wf_def split: sum.splits)
  have "txn_wf (sh_transactions (snd (shard_coordinate request st))) \<and> group_wf (sh_groups (snd (shard_coordinate request st)))"
    using assms
    by (cases request)
      (auto simp: shard_wf_def on_transactions_def on_groups_def split: sum.splits prod.splits
        intro: txn_wf_step [OF txn_step.intros(1)] txn_wf_step [OF txn_step.intros(2)] txn_wf_step [OF txn_step.intros(3)]
          txn_wf_step [OF txn_step.intros(4)] txn_wf_step [OF txn_step.intros(5)]
          group_wf_step [OF group_step.intros(1)] group_wf_step [OF group_step.intros(2)]
          group_wf_step [OF group_step.intros(3)] group_wf_step [OF group_step.intros(4)] group_wf_step [OF group_step.intros(5)])
  then show ?thesis using assms by (simp add: shard_wf_def)
qed

lemma command_wf:
  assumes "shard_wf cat st"
  shows "shard_wf cat (snd (handle_command cat mb c st))"
proof (cases c)
  case (CoordinateCmd request)
  then show ?thesis using coordinate_wf [OF assms, of request] by (simp add: case_prod_beta)
qed (use assms in \<open>auto simp: with_log_eq shard_wf_def split: sum.splits\<close>)

lemma shard_run_wf: "shard_wf cat st \<Longrightarrow> shard_wf cat (shard_run cat mb cmds st)"
  by (induction cmds arbitrary: st) (simp_all add: shard_run_def command_wf)

section \<open>Replies\<close>

text \<open>The replies a command can be answered with.\<close>

fun coordination_matches :: "CoordinationRequest \<Rightarrow> CoordinationResult \<Rightarrow> bool" where
  "coordination_matches (InitProducer _) r \<longleftrightarrow> (\<exists>i. r = Producer i)"
| "coordination_matches (EndTransaction _ _ _) r \<longleftrightarrow> (\<exists>d. r = TransactionCompleted d)"
| "coordination_matches (JoinGroupReq _ _ _ _) r \<longleftrightarrow> (\<exists>g as. r = GroupJoined g as)"
| "coordination_matches (FetchOffset _ _ _) r \<longleftrightarrow> (\<exists>off. r = OffsetValue off)"
| "coordination_matches _ r \<longleftrightarrow> r = Applied"

fun reply_matches :: "PartitionCommand \<Rightarrow> PartitionResult \<Rightarrow> bool" where
  "reply_matches (ProduceCmd _ _ _) r \<longleftrightarrow> (\<exists>base. r = Produced base) \<or> (\<exists>e. r = Failed e)"
| "reply_matches (ProduceTransactionalCmd _ _ _ _) r \<longleftrightarrow> (\<exists>base. r = Produced base) \<or> (\<exists>e. r = Failed e)"
| "reply_matches (FetchCmd _ _ _ _ _ _) r \<longleftrightarrow> (\<exists>w. r = Fetched w) \<or> (\<exists>e. r = Failed e)"
| "reply_matches (ListOffsetCmd _ _ _) r \<longleftrightarrow> (\<exists>off. r = Offset off) \<or> (\<exists>e. r = Failed e)"
| "reply_matches ShutdownCmd r \<longleftrightarrow> r = Stopped"
| "reply_matches (ResolveTransactionCmd _ _) r \<longleftrightarrow> r = Resolved"
| "reply_matches (CoordinateCmd request) r \<longleftrightarrow>
     (\<exists>e. r = Coordination (Inl e)) \<or> (\<exists>v. r = Coordination (Inr v) \<and> coordination_matches request v)"

lemma coordinate_reply:
  "fst (shard_coordinate request st) = Inr v \<Longrightarrow> coordination_matches request v"
  by (cases request) (auto simp: on_transactions_def on_groups_def split: sum.splits)

lemma command_reply: "reply_matches c (fst (handle_command cat mb c st))"
proof (cases c)
  case (CoordinateCmd request)
  then show ?thesis
    using coordinate_reply [of request st]
    by (cases "fst (shard_coordinate request st)") (auto simp: case_prod_beta)
qed (auto simp: with_log_eq append_result_def case_prod_beta split: sum.splits)

section \<open>Properties\<close>

text \<open>
  C18: each partition of a shard is a refinement of its own append-only history. Whatever sequence
  of commands a fresh shard receives, for all topics and partitions mixed with coordination
  and resolution, the log it holds for a partition is the log that exactly the accepted
  produce commands of that partition, in mailbox order, and the resolutions lead to: it represents
  that history (up to the end of the 64-bit offset range), and only catalogued
  partitions have a log at all.
\<close>

theorem shard_logs_refine_histories:
  assumes "partition_task cat mb cmds shard_new = (replies, st)"
    and "int (length (hist_run (concat (map (ops_for cat key) (served cmds))) [])) \<le> max_signed 64"
  shows "log_at mb st key = log_run (concat (map (ops_for cat key) (served cmds))) (new_log mb)
    \<and> represents (hist_run (concat (map (ops_for cat key) (served cmds))) []) (log_at mb st key)
    \<and> (bt_get (sh_logs st) key \<noteq> None \<longrightarrow> check_partition cat (fst key) (snd key) = Inr ())"
proof -
  have st: "st = shard_run cat mb (served cmds) shard_new"
    using partition_task_run [of cat mb cmds shard_new] assms(1) by simp
  have wf: "shard_wf cat st" unfolding st by (rule shard_run_wf [OF shard_wf_new])
  have "check_partition cat (fst key) (snd key) = Inr ()" if "bt_get (sh_logs st) key \<noteq> None"
    using that wf by (cases key) (auto simp: bt_get_None_iff shard_wf_def)
  then show ?thesis
    using shard_run_log_at [of mb cat "served cmds" shard_new key] log_run_represents [OF represents_new assms(2), of mb]
    by (simp add: st)
qed

definition datum :: "byte \<Rightarrow> RecordData" where
  "datum x = \<lparr>rd_timestamp_ms = 0, rd_key = None, rd_value = Some [x]\<rparr>"

theorem shard_logs_refine_histories_witness:
  "\<exists>replies st. partition_task \<lparr>tc_topics = [([116], 2)]\<rparr> None
       [ProduceCmd [116] 0 [datum 1], ProduceCmd [116] 1 [datum 2], ProduceCmd [116] 7 [datum 3],
        ProduceCmd [116] 0 [datum 4], ShutdownCmd, ProduceCmd [116] 0 [datum 5]] shard_new = (replies, st)
     \<and> represents [datum 1, datum 4] (log_at None st ([116], 0))"
proof -
  let ?cat = "\<lparr>tc_topics = [([116], 2)]\<rparr>"
  let ?cmds = "[ProduceCmd [116] 0 [datum 1], ProduceCmd [116] 1 [datum 2], ProduceCmd [116] 7 [datum 3],
        ProduceCmd [116] 0 [datum 4], ShutdownCmd, ProduceCmd [116] 0 [datum 5]]"
  have h: "hist_run (concat (map (ops_for ?cat ([116], 0)) (served ?cmds))) [] = [datum 1, datum 4]"
    by (simp add: served_def check_partition_def partition_count_def hist_run_def accepted_def MAX_APPEND_RECORDS_def)
  obtain replies st where t: "partition_task ?cat None ?cmds shard_new = (replies, st)" by fastforce
  have "represents [datum 1, datum 4] (log_at None st ([116], 0))"
    using shard_logs_refine_histories [OF t, of "([116], 0)", unfolded h] by (auto simp: max_signed_def)
  then show ?thesis using t by blast
qed

lemma partition_task_replies:
  assumes "partition_task cat mb cmds st = (replies, st')"
  shows "length replies = min (length cmds) (length (served cmds) + 1)"
    and "i < length replies \<Longrightarrow> reply_matches (cmds ! i) (replies ! i)"
proof -
  have "length replies = min (length cmds) (length (served cmds) + 1)
      \<and> (\<forall>i < length replies. reply_matches (cmds ! i) (replies ! i))"
    using assms
  proof (induction cmds arbitrary: st replies st')
    case (Cons c cmds)
    show ?case
    proof (cases "c = ShutdownCmd")
      case True
      then show ?thesis using Cons.prems by (auto simp: served_def)
    next
      case False
      obtain rs st'' where t: "partition_task cat mb cmds (snd (handle_command cat mb c st)) = (rs, st'')"
        by fastforce
      then have "replies = fst (handle_command cat mb c st) # rs"
        using Cons.prems False by (auto simp: case_prod_beta Let_def)
      then show ?thesis
        using Cons.IH [OF t] False command_reply [of c cat mb st] by (auto simp: served_def nth_Cons split: nat.splits)
    qed
  qed (simp add: served_def)
  then show "length replies = min (length cmds) (length (served cmds) + 1)"
    and "i < length replies \<Longrightarrow> reply_matches (cmds ! i) (replies ! i)" by auto
qed

text \<open>
  C38: a shard stays well formed and answers in kind. After any commands from a fresh shard, its
  log table is ordered and only holds catalogued partitions, and both coordinators satisfy
  their invariants; every command up to the shutdown is answered exactly once, in
  order, with a reply of its own kind, and nothing after the shutdown is answered.
\<close>

theorem shard_answers_in_kind:
  assumes "partition_task cat mb cmds shard_new = (replies, st)"
  shows "shard_wf cat st \<and> length replies = min (length cmds) (length (served cmds) + 1)
    \<and> (\<forall>i < length replies. reply_matches (cmds ! i) (replies ! i))"
proof -
  have "st = shard_run cat mb (served cmds) shard_new"
    using partition_task_run [of cat mb cmds shard_new] assms by simp
  then show ?thesis
    using partition_task_replies [OF assms] shard_run_wf [OF shard_wf_new] by auto
qed

theorem shard_answers_in_kind_witness:
  "\<exists>replies st. partition_task \<lparr>tc_topics = [([116], 2)]\<rparr> None
       [CoordinateCmd (InitProducer [112]), ShutdownCmd, ShutdownCmd] shard_new = (replies, st)
     \<and> length replies = 2 \<and> reply_matches ShutdownCmd (replies ! 1)"
proof -
  let ?cmds = "[CoordinateCmd (InitProducer [112]), ShutdownCmd, ShutdownCmd]"
  obtain replies st where t: "partition_task \<lparr>tc_topics = [([116], 2)]\<rparr> None ?cmds shard_new = (replies, st)"
    by fastforce
  have "length replies = 2" "\<forall>i < length replies. reply_matches (?cmds ! i) (replies ! i)"
    using shard_answers_in_kind [OF t] by (auto simp: served_def)
  then have "length replies = 2 \<and> reply_matches ShutdownCmd (replies ! 1)"
    by (metis one_less_numeral_iff nth_Cons_0 nth_Cons_Suc One_nat_def semiring_norm(76))
  then show ?thesis using t by blast
qed

end
