(* ===== verification/Broker_Runtime.thy ===== *)
theory Broker_Runtime
  imports Partition_Shard
begin

text \<open>
  The broker facade, \<^verbatim>\<open>crates/broker-runtime/src/broker.rs\<close>, with its errors
  (\<^verbatim>\<open>error.rs\<close>) and the session placement (\<^verbatim>\<open>session.rs\<close>).

  Channels, parking and thread spawning come from the \<^verbatim>\<open>sitas-core\<close> package and are a parameter:
  a \<open>Transport\<close> over some state \<open>'s\<close>, which also holds whatever the other threads do.
  A call of the facade opens its own reply channel, so the channel operations of a
  transport refer to the channel opened last. A facade operation is a \<open>call\<close>: it threads that
  state and stops at the first error, as the source's \<^verbatim>\<open>?\<close> does.
\<close>

section \<open>Errors, configuration, transport\<close>

datatype BrokerError =
    InvalidConfig
  | MailboxUnavailable
  | ReplyTimeout
  | UnexpectedReply
  | Core LogError
  | CoordinationErr CoordinationError

definition DEFAULT_MAILBOX_CAPACITY :: nat where "DEFAULT_MAILBOX_CAPACITY = 64"
definition DEFAULT_PARK_TIMEOUT :: nat where "DEFAULT_PARK_TIMEOUT = 5"
definition DEFAULT_MAX_RETRIES :: nat where "DEFAULT_MAX_RETRIES = 2000"

record TopicSpec =
  ts_name :: bytes
  ts_partitions :: int

record BrokerConfig =
  bc_shard_count :: nat
  bc_topics :: "TopicSpec list"
  bc_mailbox_capacity :: nat
  bc_park_timeout :: nat
  bc_max_retries :: nat
  bc_partition_max_bytes :: "nat option"

definition config_new :: "nat \<Rightarrow> TopicSpec list \<Rightarrow> BrokerConfig" where
  "config_new shard_count topics =
     \<lparr>bc_shard_count = shard_count, bc_topics = topics, bc_mailbox_capacity = DEFAULT_MAILBOX_CAPACITY,
      bc_park_timeout = DEFAULT_PARK_TIMEOUT, bc_max_retries = DEFAULT_MAX_RETRIES,
      bc_partition_max_bytes = None\<rparr>"

definition with_mailbox_capacity :: "nat \<Rightarrow> BrokerConfig \<Rightarrow> BrokerConfig" where
  "with_mailbox_capacity capacity c = c\<lparr>bc_mailbox_capacity := capacity\<rparr>"

definition with_wait_policy :: "nat \<Rightarrow> nat \<Rightarrow> BrokerConfig \<Rightarrow> BrokerConfig" where
  "with_wait_policy park_timeout max_retries c = c\<lparr>bc_park_timeout := park_timeout, bc_max_retries := max_retries\<rparr>"

definition with_partition_max_bytes :: "nat \<Rightarrow> BrokerConfig \<Rightarrow> BrokerConfig" where
  "with_partition_max_bytes max_bytes c = c\<lparr>bc_partition_max_bytes := Some max_bytes\<rparr>"

text \<open>
  The operations used of the external runtime: a new mailbox, starting a shard on it, a new reply
  channel, and on that channel sending a command to a shard with it, polling it, and parking.
\<close>

record 's Transport =
  tp_mailbox :: "nat \<Rightarrow> 's \<Rightarrow> bool \<times> 's"
  tp_spawn :: "nat \<Rightarrow> TopicCatalog \<Rightarrow> nat \<Rightarrow> nat option \<Rightarrow> 's \<Rightarrow> 's"
  tp_channel :: "nat \<Rightarrow> 's \<Rightarrow> bool \<times> 's"
  tp_try_send :: "nat \<Rightarrow> PartitionCommand \<Rightarrow> 's \<Rightarrow> bool \<times> 's"
  tp_try_recv :: "'s \<Rightarrow> PartitionResult option \<times> 's"
  tp_park :: "nat \<Rightarrow> 's \<Rightarrow> 's"

type_synonym ('s, 'a) call = "'s \<Rightarrow> (BrokerError + 'a) \<times> 's"

definition cbind :: "('s, 'a) call \<Rightarrow> ('a \<Rightarrow> ('s, 'b) call) \<Rightarrow> ('s, 'b) call" where
  "cbind f g s = (case f s of (Inl e, s') \<Rightarrow> (Inl e, s') | (Inr v, s') \<Rightarrow> g v s')"

definition creturn :: "'a \<Rightarrow> ('s, 'a) call" where
  "creturn v s = (Inr v, s)"

definition cfail :: "BrokerError \<Rightarrow> ('s, 'a) call" where
  "cfail e s = (Inl e, s)"

text \<open>A fallible step of the core, with the conversion \<^verbatim>\<open>From<LogError>\<close> of \<^verbatim>\<open>?\<close>, and one of the transport.\<close>

definition ccore :: "LogError + 'a \<Rightarrow> ('s, 'a) call" where
  "ccore r s = (case r of Inl e \<Rightarrow> (Inl (Core e), s) | Inr v \<Rightarrow> (Inr v, s))"

definition cconfig :: "('s \<Rightarrow> bool \<times> 's) \<Rightarrow> ('s, unit) call" where
  "cconfig f s = (case f s of (ok, s') \<Rightarrow> (if ok then Inr () else Inl InvalidConfig, s'))"

section \<open>Placement\<close>

definition fnv1a :: "bytes \<Rightarrow> 64 word" where
  "fnv1a bs = foldl (\<lambda>hash byte. (hash XOR ucast byte) * 0x100000001b3) 0xcbf29ce484222325 bs"

definition splitmix64 :: "64 word \<Rightarrow> 64 word" where
  "splitmix64 v =
     (let v = v + 0x9e3779b97f4a7c15;
          v = (v XOR drop_bit 30 v) * 0xbf58476d1ce4e5b9;
          v = (v XOR drop_bit 27 v) * 0x94d049bb133111eb
      in v XOR drop_bit 31 v)"

definition shard_index_of :: "nat \<Rightarrow> bytes \<Rightarrow> int \<Rightarrow> nat" where
  "shard_index_of shards topic prt =
     unat (splitmix64 (fnv1a topic XOR (word_of_int prt * 0x9e3779b97f4a7c15)) mod of_nat shards)"

text \<open>Addition on \<^verbatim>\<open>usize\<close>, as a release build has it.\<close>

definition queue_capacity :: "nat \<Rightarrow> nat" where
  "queue_capacity items = (items + 1) mod (usize_max + 1)"

lemma queue_capacity_small [simp]: "queue_capacity (Suc 0) = 2" "queue_capacity 64 = 65"
  by (simp_all add: queue_capacity_def usize_max_def)

section \<open>Startup\<close>

record Broker =
  br_shards :: nat
  br_catalog :: TopicCatalog
  br_park_timeout :: nat
  br_max_retries :: nat

definition shard_index :: "Broker \<Rightarrow> bytes \<Rightarrow> int \<Rightarrow> nat" where
  "shard_index b topic prt = shard_index_of (br_shards b) topic prt"

fun create_topics :: "TopicSpec list \<Rightarrow> TopicCatalog \<Rightarrow> LogError + TopicCatalog" where
  "create_topics [] catalog = Inr catalog"
| "create_topics (topic # topics) catalog =
     (case catalog_create catalog (ts_name topic) (ts_partitions topic) of
        Inl e \<Rightarrow> Inl e
      | Inr catalog' \<Rightarrow> create_topics topics catalog')"

fun spawn_shards :: "'s Transport \<Rightarrow> BrokerConfig \<Rightarrow> TopicCatalog \<Rightarrow> nat list \<Rightarrow> ('s, unit) call" where
  "spawn_shards tr config catalog [] = creturn ()"
| "spawn_shards tr config catalog (index # rest) =
     cbind (cconfig (tp_mailbox tr (queue_capacity (bc_mailbox_capacity config)))) (\<lambda>_. \<lambda>s.
       spawn_shards tr config catalog rest
         (tp_spawn tr index catalog (bc_park_timeout config) (bc_partition_max_bytes config) s))"

definition broker_start :: "'s Transport \<Rightarrow> BrokerConfig \<Rightarrow> ('s, Broker) call" where
  "broker_start tr config =
     (if bc_shard_count config = 0 \<or> bc_topics config = [] \<or> bc_mailbox_capacity config < 2
      then cfail InvalidConfig
      else cbind (ccore (create_topics (bc_topics config) catalog_new)) (\<lambda>catalog.
           cbind (spawn_shards tr config catalog [0..<bc_shard_count config]) (\<lambda>_.
           creturn \<lparr>br_shards = bc_shard_count config, br_catalog = catalog,
                    br_park_timeout = bc_park_timeout config, br_max_retries = bc_max_retries config\<rparr>)))"

section \<open>Calls\<close>

text \<open>The retry loops; the first argument is the number of turns left.\<close>

fun send_loop :: "nat \<Rightarrow> 's Transport \<Rightarrow> nat \<Rightarrow> nat \<Rightarrow> PartitionCommand \<Rightarrow> ('s, unit) call" where
  "send_loop 0 tr park_timeout shard command s = (Inl MailboxUnavailable, s)"
| "send_loop (Suc n) tr park_timeout shard command s =
     (case tp_try_send tr shard command s of
        (True, s') \<Rightarrow> (Inr (), s')
      | (False, s') \<Rightarrow> send_loop n tr park_timeout shard command (tp_park tr park_timeout s'))"

definition send_with_retry :: "'s Transport \<Rightarrow> Broker \<Rightarrow> nat \<Rightarrow> PartitionCommand \<Rightarrow> ('s, unit) call" where
  "send_with_retry tr b shard command = send_loop (max (br_max_retries b) 1) tr (br_park_timeout b) shard command"

text \<open>The source has a second copy of the send loop for coordination commands.\<close>

definition send_coordination_with_retry ::
  "'s Transport \<Rightarrow> Broker \<Rightarrow> nat \<Rightarrow> PartitionCommand \<Rightarrow> ('s, unit) call" where
  "send_coordination_with_retry tr b shard command =
     send_loop (max (br_max_retries b) 1) tr (br_park_timeout b) shard command"

fun reply_loop :: "nat \<Rightarrow> 's Transport \<Rightarrow> nat \<Rightarrow> ('s, PartitionResult) call" where
  "reply_loop 0 tr park_timeout s = (Inl ReplyTimeout, s)"
| "reply_loop (Suc n) tr park_timeout s =
     (case tp_try_recv tr s of
        (Some result, s') \<Rightarrow> (Inr result, s')
      | (None, s') \<Rightarrow> reply_loop n tr park_timeout (tp_park tr park_timeout s'))"

definition wait_reply :: "'s Transport \<Rightarrow> Broker \<Rightarrow> ('s, PartitionResult) call" where
  "wait_reply tr b = reply_loop (max (br_max_retries b) 1) tr (br_park_timeout b)"

definition broker_call :: "'s Transport \<Rightarrow> Broker \<Rightarrow> bytes \<Rightarrow> int \<Rightarrow> PartitionCommand \<Rightarrow> ('s, PartitionResult) call" where
  "broker_call tr b topic prt command =
     cbind (cconfig (tp_channel tr (queue_capacity 1))) (\<lambda>_.
     cbind (send_with_retry tr b (shard_index b topic prt) command) (\<lambda>_.
     wait_reply tr b))"

definition broker_coordinate :: "'s Transport \<Rightarrow> Broker \<Rightarrow> CoordinationRequest \<Rightarrow> ('s, CoordinationResult) call" where
  "broker_coordinate tr b request =
     cbind (cconfig (tp_channel tr (queue_capacity 1))) (\<lambda>_.
     cbind (send_coordination_with_retry tr b 0 (CoordinateCmd request)) (\<lambda>_.
     cbind (wait_reply tr b) (\<lambda>reply.
       case reply of
         Coordination (Inr result) \<Rightarrow> creturn result
       | Coordination (Inl e) \<Rightarrow> cfail (CoordinationErr e)
       | _ \<Rightarrow> cfail UnexpectedReply)))"

fun applied :: "CoordinationResult \<Rightarrow> ('s, unit) call" where
  "applied Applied = creturn ()"
| "applied _ = cfail UnexpectedReply"

section \<open>Data operations\<close>

fun produced :: "PartitionResult \<Rightarrow> ('s, int) call" where
  "produced (Produced base_offset) = creturn base_offset"
| "produced (Failed error) = cfail (Core error)"
| "produced _ = cfail UnexpectedReply"

fun fetched :: "PartitionResult \<Rightarrow> ('s, FetchWindow) call" where
  "fetched (Fetched window) = creturn window"
| "fetched (Failed error) = cfail (Core error)"
| "fetched _ = cfail UnexpectedReply"

fun offset_reply :: "PartitionResult \<Rightarrow> ('s, int) call" where
  "offset_reply (Offset off) = creturn off"
| "offset_reply (Failed error) = cfail (Core error)"
| "offset_reply _ = cfail UnexpectedReply"

definition broker_produce :: "'s Transport \<Rightarrow> Broker \<Rightarrow> bytes \<Rightarrow> int \<Rightarrow> RecordData list \<Rightarrow> ('s, int) call" where
  "broker_produce tr b topic prt records =
     cbind (ccore (check_partition (br_catalog b) topic prt)) (\<lambda>_.
     cbind (broker_call tr b topic prt (ProduceCmd topic prt records)) produced)"

definition broker_fetch_with_isolation ::
  "'s Transport \<Rightarrow> Broker \<Rightarrow> bytes \<Rightarrow> int \<Rightarrow> int \<Rightarrow> nat \<Rightarrow> nat \<Rightarrow> bool \<Rightarrow> ('s, FetchWindow) call" where
  "broker_fetch_with_isolation tr b topic prt off max_records max_bytes read_committed =
     cbind (ccore (check_partition (br_catalog b) topic prt)) (\<lambda>_.
     cbind (broker_call tr b topic prt (FetchCmd topic prt off max_records max_bytes read_committed)) fetched)"

definition broker_fetch :: "'s Transport \<Rightarrow> Broker \<Rightarrow> bytes \<Rightarrow> int \<Rightarrow> int \<Rightarrow> nat \<Rightarrow> nat \<Rightarrow> ('s, FetchWindow) call" where
  "broker_fetch tr b topic prt off max_records max_bytes =
     broker_fetch_with_isolation tr b topic prt off max_records max_bytes False"

definition broker_list_offset :: "'s Transport \<Rightarrow> Broker \<Rightarrow> bytes \<Rightarrow> int \<Rightarrow> bool \<Rightarrow> ('s, int) call" where
  "broker_list_offset tr b topic prt earliest =
     cbind (ccore (check_partition (br_catalog b) topic prt)) (\<lambda>_.
     cbind (broker_call tr b topic prt (ListOffsetCmd topic prt earliest)) offset_reply)"

definition broker_metadata :: "Broker \<Rightarrow> TopicMetadata list" where
  "broker_metadata b = catalog_metadata (br_catalog b)"

definition broker_partition_count :: "Broker \<Rightarrow> bytes \<Rightarrow> int option" where
  "broker_partition_count b topic = partition_count (br_catalog b) topic"

section \<open>Coordination operations\<close>

definition broker_init_producer :: "'s Transport \<Rightarrow> Broker \<Rightarrow> bytes \<Rightarrow> ('s, ProducerIdentity) call" where
  "broker_init_producer tr b transactional_id =
     cbind (broker_coordinate tr b (InitProducer transactional_id)) (\<lambda>r.
       case r of Producer identity \<Rightarrow> creturn identity | _ \<Rightarrow> cfail UnexpectedReply)"

definition add_transaction_partition ::
  "'s Transport \<Rightarrow> Broker \<Rightarrow> bytes \<Rightarrow> ProducerIdentity \<Rightarrow> bytes \<Rightarrow> int \<Rightarrow> ('s, unit) call" where
  "add_transaction_partition tr b transactional_id producer topic prt =
     cbind (broker_coordinate tr b (AddPartition transactional_id producer topic prt)) applied"

definition validate_transactional_produce ::
  "'s Transport \<Rightarrow> Broker \<Rightarrow> bytes \<Rightarrow> ProducerIdentity \<Rightarrow> bytes \<Rightarrow> int \<Rightarrow> ('s, unit) call" where
  "validate_transactional_produce tr b transactional_id producer topic prt =
     cbind (broker_coordinate tr b (ValidateProduce transactional_id producer topic prt)) applied"

definition produce_transactional ::
  "'s Transport \<Rightarrow> Broker \<Rightarrow> bytes \<Rightarrow> ProducerIdentity \<Rightarrow> bytes \<Rightarrow> int \<Rightarrow> RecordData list \<Rightarrow> ('s, int) call" where
  "produce_transactional tr b transactional_id producer topic prt records =
     cbind (validate_transactional_produce tr b transactional_id producer topic prt) (\<lambda>_.
     cbind (ccore (check_partition (br_catalog b) topic prt)) (\<lambda>_.
     cbind (broker_call tr b topic prt (ProduceTransactionalCmd topic prt records (pi_id producer))) produced))"

definition add_transaction_offset ::
  "'s Transport \<Rightarrow> Broker \<Rightarrow> bytes \<Rightarrow> ProducerIdentity \<Rightarrow> TransactionOffset \<Rightarrow> ('s, unit) call" where
  "add_transaction_offset tr b transactional_id producer off =
     cbind (broker_coordinate tr b (AddOffset transactional_id producer off)) applied"

definition commit_group_offset ::
  "'s Transport \<Rightarrow> Broker \<Rightarrow> bytes \<Rightarrow> int \<Rightarrow> bytes \<Rightarrow> int \<Rightarrow> int \<Rightarrow> ('s, unit) call" where
  "commit_group_offset tr b group_id generation topic prt off =
     cbind (broker_coordinate tr b (CommitOffset group_id generation topic prt off)) applied"

fun resolve_partitions :: "'s Transport \<Rightarrow> Broker \<Rightarrow> int \<Rightarrow> bool \<Rightarrow> (bytes \<times> int) list \<Rightarrow> ('s, unit) call" where
  "resolve_partitions tr b producer_id commit [] = creturn ()"
| "resolve_partitions tr b producer_id commit ((topic, prt) # rest) =
     cbind (broker_call tr b topic prt (ResolveTransactionCmd producer_id commit)) (\<lambda>result.
       if result \<noteq> Resolved then cfail UnexpectedReply
       else resolve_partitions tr b producer_id commit rest)"

fun commit_offsets :: "'s Transport \<Rightarrow> Broker \<Rightarrow> TransactionOffset list \<Rightarrow> ('s, unit) call" where
  "commit_offsets tr b [] = creturn ()"
| "commit_offsets tr b (off # rest) =
     cbind (commit_group_offset tr b (to_group_id off) (to_generation off) (to_topic off) (to_partition off) (to_offset off))
       (\<lambda>_. commit_offsets tr b rest)"

definition broker_end_transaction ::
  "'s Transport \<Rightarrow> Broker \<Rightarrow> bytes \<Rightarrow> ProducerIdentity \<Rightarrow> bool \<Rightarrow> ('s, unit) call" where
  "broker_end_transaction tr b transactional_id producer commit =
     cbind (broker_coordinate tr b (EndTransaction transactional_id producer commit)) (\<lambda>result.
       case result of
         TransactionCompleted completion \<Rightarrow>
           cbind (resolve_partitions tr b (pi_id producer) commit (co_partitions completion)) (\<lambda>_.
             if commit then commit_offsets tr b (co_offsets completion) else creturn ())
       | _ \<Rightarrow> cfail UnexpectedReply)"

definition all_partitions :: "TopicCatalog \<Rightarrow> (bytes \<times> int) list" where
  "all_partitions catalog =
     concat (map (\<lambda>topic. map (\<lambda>prt. (tm_name topic, prt)) [0..tm_partitions topic - 1]) (catalog_metadata catalog))"

definition broker_join_group ::
  "'s Transport \<Rightarrow> Broker \<Rightarrow> bytes \<Rightarrow> bytes \<Rightarrow> bytes list \<Rightarrow> ('s, int \<times> GroupAssignment list) call" where
  "broker_join_group tr b group_id member_id subscriptions =
     cbind (broker_coordinate tr b (JoinGroupReq group_id member_id subscriptions (all_partitions (br_catalog b)))) (\<lambda>r.
       case r of GroupJoined generation assignments \<Rightarrow> creturn (generation, assignments)
       | _ \<Rightarrow> cfail UnexpectedReply)"

definition heartbeat_group :: "'s Transport \<Rightarrow> Broker \<Rightarrow> bytes \<Rightarrow> bytes \<Rightarrow> int \<Rightarrow> ('s, unit) call" where
  "heartbeat_group tr b group_id member_id generation =
     cbind (broker_coordinate tr b (HeartbeatReq group_id member_id generation)) applied"

definition broker_leave_group :: "'s Transport \<Rightarrow> Broker \<Rightarrow> bytes \<Rightarrow> bytes \<Rightarrow> int \<Rightarrow> ('s, unit) call" where
  "broker_leave_group tr b group_id member_id generation =
     cbind (broker_coordinate tr b (LeaveGroupReq group_id member_id generation)) applied"

definition leave_group_any :: "'s Transport \<Rightarrow> Broker \<Rightarrow> bytes \<Rightarrow> bytes \<Rightarrow> ('s, unit) call" where
  "leave_group_any tr b group_id member_id =
     cbind (broker_coordinate tr b (LeaveGroupAny group_id member_id)) applied"

definition broker_group_offset :: "'s Transport \<Rightarrow> Broker \<Rightarrow> bytes \<Rightarrow> bytes \<Rightarrow> int \<Rightarrow> ('s, int option) call" where
  "broker_group_offset tr b group_id topic prt =
     cbind (broker_coordinate tr b (FetchOffset group_id topic prt)) (\<lambda>r.
       case r of OffsetValue off \<Rightarrow> creturn off | _ \<Rightarrow> cfail UnexpectedReply)"

section \<open>Shutdown\<close>

fun send_shutdowns :: "'s Transport \<Rightarrow> Broker \<Rightarrow> nat list \<Rightarrow> ('s, unit) call" where
  "send_shutdowns tr b [] = creturn ()"
| "send_shutdowns tr b (shard # rest) =
     cbind (send_with_retry tr b shard ShutdownCmd) (\<lambda>_. send_shutdowns tr b rest)"

text \<open>The first argument is the number of acknowledgements still missing.\<close>

fun await_stopped :: "nat \<Rightarrow> 's Transport \<Rightarrow> Broker \<Rightarrow> ('s, unit) call" where
  "await_stopped 0 tr b = creturn ()"
| "await_stopped (Suc n) tr b =
     cbind (wait_reply tr b) (\<lambda>r. if r = Stopped then await_stopped n tr b else cfail UnexpectedReply)"

text \<open>The atomic flag \<^verbatim>\<open>stopped\<close> is the first component of the state.\<close>

definition broker_shutdown :: "'s Transport \<Rightarrow> Broker \<Rightarrow> bool \<times> 's \<Rightarrow> (BrokerError + unit) \<times> bool \<times> 's" where
  "broker_shutdown tr b = (\<lambda>(stopped, s).
     if stopped then (Inr (), True, s)
     else let (r, s') =
            cbind (cconfig (tp_channel tr (queue_capacity (br_shards b)))) (\<lambda>_.
            cbind (send_shutdowns tr b [0..<br_shards b]) (\<lambda>_.
            await_stopped (br_shards b) tr b)) s
          in (r, True, s'))"

text \<open>Dropping the broker shuts it down and ignores the outcome.\<close>

definition broker_drop :: "'s Transport \<Rightarrow> Broker \<Rightarrow> bool \<times> 's \<Rightarrow> bool \<times> 's" where
  "broker_drop tr b st = snd (broker_shutdown tr b st)"

section \<open>Session placement\<close>

record SessionShardLayout =
  sl_first_shard :: nat
  sl_shard_count :: nat

definition layout_new :: "nat \<Rightarrow> nat \<Rightarrow> SessionShardLayout" where
  "layout_new first_shard shard_count =
     \<lparr>sl_first_shard = first_shard, sl_shard_count = (if shard_count = 0 then 1 else shard_count)\<rparr>"

definition session_mix :: "64 word \<Rightarrow> 64 word" where
  "session_mix v =
     (let v = v XOR drop_bit 30 v;
          v = v * 0xbf58476d1ce4e5b9;
          v = v XOR drop_bit 27 v;
          v = v * 0x94d049bb133111eb
      in v XOR drop_bit 31 v)"

definition shard_for :: "SessionShardLayout \<Rightarrow> 64 word \<Rightarrow> nat" where
  "shard_for layout session = sl_first_shard layout + unat (session_mix session) mod sl_shard_count layout"

end
