(* ===== verification/Broker_Transport.thy ===== *)
theory Broker_Transport
  imports Broker_Runtime "HOL-Library.Multiset"
begin

text \<open>
  What the broker facade relies on of the external runtime, as the locale \<open>shard_transport\<close>, and
  what follows for its calls whatever the other threads do.

  A transport state is read through four ghosts: the commands the shards have executed, in
  order, each with the reply channel it came with; the caller's current reply channel; the
  commands accepted for sending on it; and how many replies were taken from it. The laws are
  those of bounded message channels: a channel is fresh, a refused command is not delivered, an
  accepted one is delivered at most once, a reply is what a shard answered, each
  at most once. And a shard runs its task: the commands it has executed are those that
  \<open>partition_task\<close> answers of the commands its mailbox hands it.

  \<open>sim_transport\<close> is such a transport: shards with FIFO mailboxes and an arbitrary schedule of other
  clients' commands and shard turns.
\<close>

section \<open>Executions\<close>

type_synonym exec = "(nat \<times> PartitionCommand \<times> nat) list"

definition commands_of :: "nat \<Rightarrow> exec \<Rightarrow> PartitionCommand list" where
  "commands_of i ex = map (\<lambda>(j, c, t). c) (filter (\<lambda>(j, c, t). j = i) ex)"

definition shard_after :: "TopicCatalog \<Rightarrow> nat option \<Rightarrow> nat \<Rightarrow> exec \<Rightarrow> ShardState" where
  "shard_after cat mb i ex = shard_run cat mb (commands_of i ex) shard_new"

definition reply_after :: "TopicCatalog \<Rightarrow> nat option \<Rightarrow> nat \<Rightarrow> exec \<Rightarrow> PartitionCommand \<Rightarrow> PartitionResult" where
  "reply_after cat mb i ex c = fst (handle_command cat mb c (shard_after cat mb i ex))"

definition own :: "nat \<Rightarrow> exec \<Rightarrow> (nat \<times> PartitionCommand) list" where
  "own t ex = map (\<lambda>(i, c, u). (i, c)) (filter (\<lambda>(i, c, u). u = t) ex)"

definition replied :: "TopicCatalog \<Rightarrow> nat option \<Rightarrow> nat \<Rightarrow> exec \<Rightarrow> PartitionResult \<Rightarrow> bool" where
  "replied cat mb t ex r \<longleftrightarrow>
     (\<exists>pre i c post. ex = pre @ (i, c, t) # post \<and> r = reply_after cat mb i pre c)"

lemma own_append [simp]: "own t (a @ b) = own t a @ own t b"
  by (simp add: own_def)

lemma own_simps [simp]: "own t [] = []" "own t ((i, c, u) # ex) = (if u = t then (i, c) # own t ex else own t ex)"
  by (simp_all add: own_def)

lemma own_Nil_iff: "own t ex = [] \<longleftrightarrow> (\<forall>e \<in> set ex. snd (snd e) \<noteq> t)"
  by (auto simp: own_def filter_empty_conv)

lemma commands_of_append [simp]: "commands_of i (a @ b) = commands_of i a @ commands_of i b"
  by (simp add: commands_of_def)

lemma submseteq_single:
  assumes "mset xs \<subseteq># mset [x]"
  shows "xs \<in> {[], [x]}"
proof -
  have "size (mset xs) \<le> 1" using size_mset_mono [OF assms] by simp
  moreover have "set xs \<subseteq> {x}" using set_mset_mono [OF assms] by simp
  ultimately show ?thesis by (cases xs) auto
qed

lemma replied_grows: "replied cat mb t ex r \<Longrightarrow> replied cat mb t (ex @ xs) r"
  unfolding replied_def by (metis append.assoc append_Cons)

text \<open>Of the commands handed to it, a shard's task answers those up to and including the first shutdown.\<close>

lemma task_prefix_shutdown:
  assumes "take (length (fst (partition_task cat mb received st))) received = xs @ ShutdownCmd # ys"
  shows "ys = []"
proof -
  let ?n = "length (fst (partition_task cat mb received st))"
  have n: "?n = min (length received) (length (served received) + 1)"
    by (rule partition_task_replies(1)) (rule prod.collapse [symmetric])
  have len: "length xs + 1 + length ys = ?n"
    using arg_cong [OF assms, of length] n by simp
  have "received ! length xs = ShutdownCmd"
    using assms len by (metis nth_append_length nth_take less_add_one trans_less_add1)
  then have "length (served received) \<le> length xs"
    unfolding served_def using nth_length_takeWhile [of "\<lambda>c. c \<noteq> ShutdownCmd" received]
    by (metis (mono_tags, lifting) set_takeWhileD nth_mem takeWhile_nth linorder_not_le)
  then have "?n \<le> length xs + 1" using n by simp
  then have "length ys = 0" using len by linarith
  then show ?thesis by simp
qed

text \<open>It answers all of them when no command follows a shutdown.\<close>

lemma task_answers_all:
  assumes "\<forall>xs ys. received = xs @ ShutdownCmd # ys \<longrightarrow> ys = []"
  shows "length (fst (partition_task cat mb received st)) = length received"
proof -
  have "length (fst (partition_task cat mb received st)) = min (length received) (length (served received) + 1)"
    by (rule partition_task_replies(1)) (rule prod.collapse [symmetric])
  moreover have "length received \<le> length (served received) + 1"
  proof (cases "ShutdownCmd \<in> set received")
    case True
    then obtain xs ys where r: "received = xs @ ShutdownCmd # ys" "ShutdownCmd \<notin> set xs" by (meson split_list_first)
    then have "\<forall>c \<in> set xs. c \<noteq> ShutdownCmd" by metis
    then have "served received = xs" by (simp add: served_def r(1) takeWhile_append2)
    then show ?thesis using assms r by simp
  next
    case False
    then have "\<forall>c \<in> set received. c \<noteq> ShutdownCmd" by metis
    then have "served received = received" by (simp add: served_def takeWhile_eq_all_conv)
    then show ?thesis by simp
  qed
  ultimately show ?thesis by simp
qed

lemma commands_of_split:
  assumes "commands_of i ex = xs @ c # ys"
  shows "\<exists>pre t post. ex = pre @ (i, c, t) # post \<and> commands_of i post = ys"
  using assms
proof (induction ex arbitrary: xs)
  case (Cons e ex)
  obtain j d t where e: "e = (j, d, t)" by (metis prod_cases3)
  show ?case
  proof (cases "j = i \<and> xs = []")
    case True
    then have "commands_of i ex = ys" "d = c" using Cons.prems by (simp_all add: e commands_of_def)
    then show ?thesis using True e by blast
  next
    case False
    then obtain zs where "commands_of i ex = zs @ c # ys"
      using Cons.prems by (cases "j = i"; cases xs) (auto simp: e commands_of_def)
    from Cons.IH [OF this] show ?thesis by (metis append_Cons)
  qed
qed (simp add: commands_of_def)

section \<open>The interface of a transport\<close>

locale shard_transport =
  fixes tr :: "'s Transport" and cat :: TopicCatalog and mb :: "nat option"
    and good :: "'s \<Rightarrow> bool" and executed :: "'s \<Rightarrow> exec" and chan :: "'s \<Rightarrow> nat"
    and posted :: "'s \<Rightarrow> (nat \<times> PartitionCommand) list" and taken :: "'s \<Rightarrow> nat"
  assumes channel_ok: "good s \<Longrightarrow> tp_channel tr n s = (True, s') \<Longrightarrow>
      good s' \<and> (\<exists>more. executed s' = executed s @ more) \<and> own (chan s') (executed s') = []
      \<and> posted s' = [] \<and> taken s' = 0"
    and channel_fail: "good s \<Longrightarrow> tp_channel tr n s = (False, s') \<Longrightarrow>
      good s' \<and> (\<exists>more. executed s' = executed s @ more)"
    and send_ok: "good s \<Longrightarrow> tp_try_send tr i c s = (True, s') \<Longrightarrow>
      good s' \<and> (\<exists>more. executed s' = executed s @ more) \<and> chan s' = chan s
      \<and> posted s' = posted s @ [(i, c)] \<and> taken s' = taken s"
    and send_fail: "good s \<Longrightarrow> tp_try_send tr i c s = (False, s') \<Longrightarrow>
      good s' \<and> (\<exists>more. executed s' = executed s @ more) \<and> chan s' = chan s
      \<and> posted s' = posted s \<and> taken s' = taken s"
    and recv_some: "good s \<Longrightarrow> tp_try_recv tr s = (Some r, s') \<Longrightarrow>
      good s' \<and> (\<exists>more. executed s' = executed s @ more) \<and> chan s' = chan s
      \<and> posted s' = posted s \<and> taken s' = Suc (taken s) \<and> replied cat mb (chan s) (executed s') r"
    and recv_none: "good s \<Longrightarrow> tp_try_recv tr s = (None, s') \<Longrightarrow>
      good s' \<and> (\<exists>more. executed s' = executed s @ more) \<and> chan s' = chan s
      \<and> posted s' = posted s \<and> taken s' = taken s"
    and parked: "good s \<Longrightarrow>
      good (tp_park tr n s) \<and> (\<exists>more. executed (tp_park tr n s) = executed s @ more)
      \<and> chan (tp_park tr n s) = chan s \<and> posted (tp_park tr n s) = posted s \<and> taken (tp_park tr n s) = taken s"
    and delivered: "good s \<Longrightarrow> mset (own (chan s) (executed s)) \<subseteq># mset (posted s)"
    and answered_once: "good s \<Longrightarrow> taken s \<le> length (own (chan s) (executed s))"
    and runs_task: "good s \<Longrightarrow> \<exists>received. commands_of i (executed s) =
      take (length (fst (partition_task cat mb received shard_new))) received"
begin

text \<open>The task returns after it answered a shutdown, so the shard executes nothing after it.\<close>

lemma stopped_last:
  assumes "good s" and "executed s = pre @ (i, ShutdownCmd, t) # post"
  shows "commands_of i post = []"
proof -
  obtain received where "commands_of i (executed s) = take (length (fst (partition_task cat mb received shard_new))) received"
    using runs_task [OF assms(1)] by blast
  moreover have "commands_of i (executed s) = commands_of i pre @ ShutdownCmd # commands_of i post"
    using assms(2) by (simp add: commands_of_def)
  ultimately show ?thesis by (intro task_prefix_shutdown [of cat mb received shard_new "commands_of i pre"]) simp
qed

definition keeps :: "'s \<Rightarrow> 's \<Rightarrow> bool" where
  "keeps s s' \<longleftrightarrow> good s' \<and> (\<exists>more. executed s' = executed s @ more)"

definition same_channel :: "'s \<Rightarrow> 's \<Rightarrow> bool" where
  "same_channel s s' \<longleftrightarrow> keeps s s' \<and> chan s' = chan s"

lemma keeps_trans: "keeps s s' \<Longrightarrow> keeps s' s'' \<Longrightarrow> keeps s s''"
  by (auto simp: keeps_def)

lemma same_trans: "same_channel s s' \<Longrightarrow> same_channel s' s'' \<Longrightarrow> same_channel s s''"
  by (auto simp: same_channel_def intro: keeps_trans)

lemma send_loop_law:
  "good s \<Longrightarrow> send_loop n tr k i c s = (r, s') \<Longrightarrow>
     same_channel s s' \<and> taken s' = taken s
     \<and> (r = Inr () \<and> posted s' = posted s @ [(i, c)] \<or> r = Inl MailboxUnavailable \<and> posted s' = posted s)"
proof (induction n arbitrary: s)
  case 0
  then show ?case by (auto simp: same_channel_def keeps_def)
next
  case (Suc n)
  obtain ok s1 where s1: "tp_try_send tr i c s = (ok, s1)" by fastforce
  show ?case
  proof (cases ok)
    case True
    then show ?thesis
      using Suc.prems s1 send_ok [OF Suc.prems(1), of i c s1] by (auto simp: same_channel_def keeps_def)
  next
    case False
    then have f: "tp_try_send tr i c s = (False, s1)" using s1 by simp
    note a = send_fail [OF Suc.prems(1) f]
    note p = parked [of s1 k]
    have g: "good (tp_park tr k s1)" using a p by simp
    have st: "same_channel s (tp_park tr k s1)" using a p by (auto simp: same_channel_def keeps_def)
    show ?thesis
      using Suc.IH [OF g] Suc.prems(2) f a p same_trans [OF st] by auto
  qed
qed

lemma reply_loop_law:
  "good s \<Longrightarrow> reply_loop n tr k s = (r, s') \<Longrightarrow>
     same_channel s s' \<and> posted s' = posted s
     \<and> (r = Inl ReplyTimeout \<or> (\<exists>v. r = Inr v \<and> replied cat mb (chan s) (executed s') v \<and> taken s' = Suc (taken s)))"
proof (induction n arbitrary: s)
  case 0
  then show ?case by (auto simp: same_channel_def keeps_def)
next
  case (Suc n)
  obtain a s1 where s1: "tp_try_recv tr s = (a, s1)" by fastforce
  show ?case
  proof (cases a)
    case (Some v)
    then show ?thesis
      using Suc.prems s1 recv_some [OF Suc.prems(1), of v s1] by (auto simp: same_channel_def keeps_def)
  next
    case None
    then have f: "tp_try_recv tr s = (None, s1)" using s1 by simp
    note a = recv_none [OF Suc.prems(1) f]
    note p = parked [of s1 k]
    have g: "good (tp_park tr k s1)" using a p by simp
    have st: "same_channel s (tp_park tr k s1)" using a p by (auto simp: same_channel_def keeps_def)
    show ?thesis
      using Suc.IH [OF g] Suc.prems(2) f a p same_trans [OF st] by auto
  qed
qed

lemma keeps_refl: "good s \<Longrightarrow> keeps s s"
  by (simp add: keeps_def)

text \<open>
  A reply on a channel that had a single command posted is the answer to that command, given at
  one point after the channel was opened.
\<close>

lemma single_reply:
  assumes "good s2" and "executed s2 = executed s1 @ ys" and "own (chan s2) (executed s1) = []"
    and "posted s2 = [(i, c)]" and "replied cat mb (chan s2) (executed s2) r"
  shows "\<exists>pre post. executed s2 = executed s1 @ pre @ (i, c, chan s2) # post
           \<and> r = reply_after cat mb i (executed s1 @ pre) c"
proof -
  obtain pre j d post where e: "executed s2 = pre @ (j, d, chan s2) # post" and r: "r = reply_after cat mb j pre d"
    using assms(5) by (auto simp: replied_def)
  have "mset (own (chan s2) (executed s2)) \<subseteq># {#(i, c)#}" using delivered [OF assms(1)] assms(4) by simp
  moreover have "(j, d) \<in># mset (own (chan s2) (executed s2))" by (simp add: e)
  ultimately have jd: "(j, d) = (i, c)" using mset_subset_eqD by fastforce
  have "length (executed s1) \<le> length pre"
  proof (rule ccontr)
    assume "\<not> ?thesis"
    then have "(j, d, chan s2) \<in> set (executed s1)"
      using arg_cong [OF e [unfolded assms(2)], of "\<lambda>xs. xs ! length pre"]
      by (metis linorder_not_le nth_append nth_append_length nth_mem)
    then show False using assms(3) by (auto simp: own_Nil_iff)
  qed
  then have "take (length (executed s1)) pre = executed s1"
    using arg_cong [OF e [unfolded assms(2)], of "take (length (executed s1))"] by simp
  then have "pre = executed s1 @ drop (length (executed s1)) pre"
    by (metis append_take_drop_id)
  then show ?thesis using e r jd by (metis append.assoc prod.inject)
qed

text \<open>
  The outcomes of one request on its own channel, for the data and the coordination path. On
  success the reply was given by the addressed shard to this very command, at one point
  between call and return; a command is never executed twice, and one that was refused is
  not executed at all.
\<close>

definition call_outcome :: "nat \<Rightarrow> PartitionCommand \<Rightarrow> 's \<Rightarrow> BrokerError + PartitionResult \<Rightarrow> 's \<Rightarrow> bool" where
  "call_outcome i c s r s' \<longleftrightarrow> keeps s s' \<and>
     (case r of
        Inr v \<Rightarrow> \<exists>pre post. executed s' = executed s @ pre @ (i, c, chan s') # post
                   \<and> v = reply_after cat mb i (executed s @ pre) c \<and> own (chan s') (executed s') = [(i, c)]
      | Inl e \<Rightarrow> e = InvalidConfig
          \<or> e = MailboxUnavailable \<and> own (chan s') (executed s') = []
          \<or> e = ReplyTimeout \<and> own (chan s') (executed s') \<in> {[], [(i, c)]})"

lemma awaited_law:
  assumes "good s2" and "posted s2 = [(i, c)]" and "own (chan s2) (executed s1) = []"
    and "executed s2 = executed s1 @ xs" and "reply_loop m tr pk s2 = (r, s')"
  shows "call_outcome i c s1 r s'"
proof -
  note s3 = reply_loop_law [OF assms(1,5)]
  have p3: "posted s' = [(i, c)]" "good s'" "chan s' = chan s2" using s3 assms(2) by (auto simp: same_channel_def keeps_def)
  have o3: "own (chan s') (executed s') \<in> {[], [(i, c)]}"
    using submseteq_single [of _ "(i, c)"] delivered [OF p3(2)] p3(1) by simp
  obtain ys where ys: "executed s' = executed s1 @ ys"
    using assms(4) s3 by (auto simp: same_channel_def keeps_def)
  have fresh: "own (chan s') (executed s1) = []" using assms(3) p3(3) by simp
  have keep: "keeps s1 s'" using ys p3(2) by (auto simp: keeps_def)
  show ?thesis
  proof (cases r)
    case (Inl e)
    then show ?thesis using s3 keep o3 by (auto simp: call_outcome_def)
  next
    case (Inr v)
    then have "replied cat mb (chan s') (executed s') v" using s3 p3(3) by auto
    then obtain pre post where e: "executed s' = executed s1 @ pre @ (i, c, chan s') # post"
      and v: "v = reply_after cat mb i (executed s1 @ pre) c"
      using single_reply [OF p3(2) ys fresh p3(1)] by blast
    moreover have "own (chan s') (executed s') = [(i, c)]" using o3 by (auto simp: e)
    ultimately show ?thesis
      using keep Inr unfolding call_outcome_def by auto
  qed
qed

lemma call_outcome_earlier:
  assumes "call_outcome i c s1 r s'" and "executed s1 = executed s @ xs"
  shows "call_outcome i c s r s'"
proof (cases r)
  case (Inl e)
  then show ?thesis using assms by (auto simp: call_outcome_def keeps_def)
next
  case (Inr v)
  then obtain pre post where "executed s' = executed s1 @ pre @ (i, c, chan s') # post"
    "v = reply_after cat mb i (executed s1 @ pre) c" "own (chan s') (executed s') = [(i, c)]"
    using assms(1) by (auto simp: call_outcome_def)
  then have "executed s' = executed s @ (xs @ pre) @ (i, c, chan s') # post"
    "v = reply_after cat mb i (executed s @ xs @ pre) c" "own (chan s') (executed s') = [(i, c)]"
    using assms(2) by simp_all
  moreover have "keeps s s'" using assms by (auto simp: call_outcome_def keeps_def)
  ultimately show ?thesis using Inr unfolding call_outcome_def by (simp only: sum.case) blast
qed

lemma request_law:
  assumes "good s"
    and "cbind (cconfig (tp_channel tr k)) (\<lambda>_. cbind (send_loop n tr pk i c) (\<lambda>_. reply_loop m tr pk)) s = (r, s')"
  shows "call_outcome i c s r s'"
proof -
  obtain ok s1 where ch: "tp_channel tr k s = (ok, s1)" by fastforce
  obtain r2 s2 where sl: "send_loop n tr pk i c s1 = (r2, s2)" by fastforce
  show ?thesis
  proof (cases ok)
    case False
    then show ?thesis
      using channel_fail [OF assms(1), of k s1] ch assms(2)
      by (auto simp: cbind_def cconfig_def call_outcome_def keeps_def)
  next
    case True
    then obtain xs where c1: "good s1" "executed s1 = executed s @ xs" "own (chan s1) (executed s1) = []" "posted s1 = []"
      using channel_ok [OF assms(1), of k s1] ch by auto
    note s2 = send_loop_law [OF c1(1) sl]
    have g2: "good s2" "chan s2 = chan s1" and "\<exists>ys. executed s2 = executed s1 @ ys"
      using s2 by (auto simp: same_channel_def keeps_def)
    then obtain ys where ys: "executed s2 = executed s1 @ ys" by blast
    have "call_outcome i c s1 r s'"
    proof (cases r2)
      case (Inl e)
      then have "r = Inl MailboxUnavailable" "s' = s2" "posted s2 = []"
        using assms(2) ch True sl s2 c1(4) by (auto simp: cbind_def cconfig_def)
      then show ?thesis using g2 ys delivered [OF g2(1)] by (auto simp: call_outcome_def keeps_def)
    next
      case (Inr u)
      then have "posted s2 = [(i, c)]" "reply_loop m tr pk s2 = (r, s')"
        using s2 c1(4) assms(2) ch True sl by (auto simp: cbind_def cconfig_def)
      then show ?thesis using awaited_law [OF g2(1) _ _ ys] c1(3) g2(2) by simp
    qed
    then show ?thesis by (rule call_outcome_earlier [OF _ c1(2)])
  qed
qed

lemma call_law: "good s \<Longrightarrow> broker_call tr b topic prt c s = (r, s') \<Longrightarrow> call_outcome (shard_index b topic prt) c s r s'"
  unfolding broker_call_def send_with_retry_def wait_reply_def by (rule request_law)

text \<open>The point at which a successful request took effect.\<close>

definition linearized :: "nat \<Rightarrow> PartitionCommand \<Rightarrow> 's \<Rightarrow> PartitionResult \<Rightarrow> 's \<Rightarrow> bool" where
  "linearized i c s v s' \<longleftrightarrow> keeps s s' \<and>
     (\<exists>pre post t. executed s' = executed s @ pre @ (i, c, t) # post \<and> v = reply_after cat mb i (executed s @ pre) c)"

lemma outcome_linearized: "call_outcome i c s (Inr v) s' \<Longrightarrow> linearized i c s v s'"
  by (auto simp: call_outcome_def linearized_def)

lemma outcome_keeps: "call_outcome i c s r s' \<Longrightarrow> keeps s s'"
  by (simp add: call_outcome_def)

lemma linearized_matches: "linearized i c s v s' \<Longrightarrow> reply_matches c v"
  by (auto simp: linearized_def reply_after_def command_reply)

lemma outcome_error: "call_outcome i c s (Inl e) s' \<Longrightarrow> e \<in> {InvalidConfig, MailboxUnavailable, ReplyTimeout}"
  by (auto simp: call_outcome_def)

text \<open>A facade operation keeps the transport good and never reports an unexpected reply.\<close>

definition sound :: "('s, 'a) call \<Rightarrow> bool" where
  "sound f \<longleftrightarrow> (\<forall>s r s'. good s \<longrightarrow> f s = (r, s') \<longrightarrow> keeps s s' \<and> r \<noteq> Inl UnexpectedReply)"

lemma soundD: "sound f \<Longrightarrow> good s \<Longrightarrow> f s = (r, s') \<Longrightarrow> keeps s s' \<and> r \<noteq> Inl UnexpectedReply"
  by (simp add: sound_def)

lemma sound_after:
  assumes "keeps s s1" and "sound f" and "f s1 = (r, s')"
  shows "keeps s s' \<and> r \<noteq> Inl UnexpectedReply"
proof -
  have "good s1" using assms(1) by (simp add: keeps_def)
  then show ?thesis using soundD [OF assms(2) _ assms(3)] keeps_trans [OF assms(1)] by blast
qed

lemma sound_return: "sound (creturn v)"
  by (simp add: sound_def creturn_def keeps_refl)

lemma sound_fail: "e \<noteq> UnexpectedReply \<Longrightarrow> sound (cfail e)"
  by (simp add: sound_def cfail_def keeps_refl)

lemma sound_core: "sound (ccore r)"
  by (cases r) (auto simp: sound_def ccore_def keeps_refl)

lemma sound_bind:
  assumes "sound f" and "\<And>v. sound (g v)"
  shows "sound (cbind f g)"
  unfolding sound_def
proof (intro allI impI)
  fix s r s'
  assume s: "good s" "cbind f g s = (r, s')"
  obtain r1 s1 where 1: "f s = (r1, s1)" by fastforce
  note f = soundD [OF assms(1) s(1) 1]
  show "keeps s s' \<and> r \<noteq> Inl UnexpectedReply"
  proof (cases r1)
    case (Inl e)
    then show ?thesis using f s 1 by (auto simp: cbind_def)
  next
    case (Inr v)
    then show ?thesis using sound_after [of s s1 "g v"] assms(2) f s 1 by (auto simp: cbind_def)
  qed
qed

text \<open>Handing the reply of a call on to a function that is sound on every reply the command can get.\<close>

lemma sound_call_reply:
  assumes "\<And>v. reply_matches c v \<Longrightarrow> sound (g v)"
  shows "sound (cbind (broker_call tr b topic prt c) g)"
  unfolding sound_def
proof (intro allI impI)
  fix s r s'
  assume s: "good s" "cbind (broker_call tr b topic prt c) g s = (r, s')"
  obtain r1 s1 where 1: "broker_call tr b topic prt c s = (r1, s1)" by fastforce
  note o = call_law [OF s(1) 1]
  show "keeps s s' \<and> r \<noteq> Inl UnexpectedReply"
  proof (cases r1)
    case (Inl e)
    then show ?thesis using s 1 o outcome_error [of _ _ s e s1] by (auto simp: cbind_def dest: outcome_keeps)
  next
    case (Inr v)
    then have "reply_matches c v" "keeps s s1"
      using o linearized_matches [OF outcome_linearized] outcome_keeps by blast+
    then show ?thesis using sound_after [of s s1 "g v"] assms s 1 Inr by (auto simp: cbind_def)
  qed
qed

text \<open>The coordination path: a request to shard zero, answered by its coordinators.\<close>

lemma coordinate_law:
  assumes "good s" and "broker_coordinate tr b rq s = (r, s')"
  shows "keeps s s'
    \<and> (\<forall>v. r = Inr v \<longrightarrow> linearized 0 (CoordinateCmd rq) s (Coordination (Inr v)) s' \<and> coordination_matches rq v)
    \<and> (\<forall>e. r = Inl e \<longrightarrow> e \<in> {InvalidConfig, MailboxUnavailable, ReplyTimeout}
         \<or> (\<exists>ce. e = CoordinationErr ce \<and> linearized 0 (CoordinateCmd rq) s (Coordination (Inl ce)) s'))"
proof -
  let ?rq = "cbind (cconfig (tp_channel tr (queue_capacity 1))) (\<lambda>_. cbind (send_coordination_with_retry tr b 0 (CoordinateCmd rq))
    (\<lambda>_. wait_reply tr b))"
  obtain r1 s1 where 1: "?rq s = (r1, s1)" by fastforce
  have o: "call_outcome 0 (CoordinateCmd rq) s r1 s1"
    using request_law [OF assms(1)] 1 unfolding send_coordination_with_retry_def wait_reply_def by blast
  have eq: "broker_coordinate tr b rq s = cbind ?rq (\<lambda>reply. case reply of
         Coordination (Inr result) \<Rightarrow> creturn result
       | Coordination (Inl e) \<Rightarrow> cfail (CoordinationErr e)
       | _ \<Rightarrow> cfail UnexpectedReply) s"
    unfolding broker_coordinate_def by (simp add: cbind_def split: sum.splits prod.splits)
  show ?thesis
  proof (cases r1)
    case (Inl e)
    then show ?thesis
      using assms(2) eq 1 o outcome_error [of _ _ s e s1] by (auto simp: cbind_def dest: outcome_keeps)
  next
    case (Inr v)
    then have l: "linearized 0 (CoordinateCmd rq) s v s1" using o by (simp add: outcome_linearized)
    have "reply_matches (CoordinateCmd rq) v" "keeps s s1"
      using linearized_matches [OF l] l unfolding linearized_def by blast+
    then show ?thesis
      using assms(2) eq 1 Inr l by (auto simp: cbind_def creturn_def cfail_def)
  qed
qed

lemma sound_coordinate_bind:
  assumes "\<And>v. coordination_matches rq v \<Longrightarrow> sound (g v)"
  shows "sound (cbind (broker_coordinate tr b rq) g)"
  unfolding sound_def
proof (intro allI impI)
  fix s r s'
  assume s: "good s" "cbind (broker_coordinate tr b rq) g s = (r, s')"
  obtain r1 s1 where 1: "broker_coordinate tr b rq s = (r1, s1)" by fastforce
  note o = coordinate_law [OF s(1) 1]
  show "keeps s s' \<and> r \<noteq> Inl UnexpectedReply"
  proof (cases r1)
    case (Inl e)
    then show ?thesis using s 1 o by (auto simp: cbind_def)
  next
    case (Inr v)
    then have "coordination_matches rq v" "keeps s s1" using o by auto
    then show ?thesis using sound_after [of s s1 "g v"] assms s 1 Inr by (auto simp: cbind_def)
  qed
qed

lemma sound_applied: "v = Applied \<Longrightarrow> sound (applied v)"
  by (simp add: sound_return)

lemma sound_data_ops:
  "sound (broker_produce tr b topic prt rs)"
  "sound (broker_fetch_with_isolation tr b topic prt off n m rc)"
  "sound (broker_fetch tr b topic prt off n m)"
  "sound (broker_list_offset tr b topic prt earliest)"
  unfolding broker_produce_def broker_fetch_def broker_fetch_with_isolation_def broker_list_offset_def
  by (intro sound_bind sound_core sound_call_reply; auto simp: sound_return sound_fail)+

lemma sound_coordination_ops:
  "sound (broker_init_producer tr b tid)"
  "sound (add_transaction_partition tr b tid p topic prt)"
  "sound (validate_transactional_produce tr b tid p topic prt)"
  "sound (add_transaction_offset tr b tid p toff)"
  "sound (commit_group_offset tr b gid n topic prt off)"
  "sound (broker_join_group tr b gid mid subs)"
  "sound (heartbeat_group tr b gid mid n)"
  "sound (broker_leave_group tr b gid mid n)"
  "sound (leave_group_any tr b gid mid)"
  "sound (broker_group_offset tr b gid topic prt)"
  unfolding broker_init_producer_def add_transaction_partition_def validate_transactional_produce_def
    add_transaction_offset_def commit_group_offset_def broker_join_group_def heartbeat_group_def
    broker_leave_group_def leave_group_any_def broker_group_offset_def
  by (intro sound_coordinate_bind; auto simp: sound_return)+

lemma sound_produce_transactional: "sound (produce_transactional tr b tid p topic prt rs)"
  unfolding produce_transactional_def
  by (intro sound_bind sound_core sound_call_reply sound_coordination_ops; auto simp: sound_return sound_fail)

lemma sound_resolve: "sound (resolve_partitions tr b pid commit ps)"
proof (induction ps)
  case (Cons p ps)
  obtain topic prt where "p = (topic, prt)" by fastforce
  then show ?case by (auto intro!: sound_call_reply Cons)
qed (simp add: sound_return)

lemma sound_commit_offsets: "sound (commit_offsets tr b offs)"
  by (induction offs) (auto intro!: sound_return sound_bind sound_coordination_ops)

lemma sound_end_transaction: "sound (broker_end_transaction tr b tid p commit)"
  unfolding broker_end_transaction_def
  by (intro sound_coordinate_bind)
    (auto intro!: sound_bind sound_resolve sound_commit_offsets sound_return)

text \<open>Shutdown: one channel shared by a command to every shard.\<close>

lemma send_shutdowns_law:
  "good s \<Longrightarrow> send_shutdowns tr b is s = (r, s') \<Longrightarrow>
     same_channel s s' \<and> taken s' = taken s
     \<and> (r = Inr () \<and> posted s' = posted s @ map (\<lambda>i. (i, ShutdownCmd)) is \<or> r = Inl MailboxUnavailable)"
proof (induction "is" arbitrary: s)
  case Nil
  then show ?case by (auto simp: creturn_def same_channel_def keeps_def)
next
  case (Cons i "is")
  obtain r1 s1 where 1: "send_loop (max (br_max_retries b) 1) tr (br_park_timeout b) i ShutdownCmd s = (r1, s1)"
    by fastforce
  note l = send_loop_law [OF Cons.prems(1) 1]
  have g: "good s1" using l by (simp add: same_channel_def keeps_def)
  show ?case
  proof (cases r1)
    case (Inl e)
    then show ?thesis using Cons.prems(2) 1 l by (auto simp: cbind_def send_with_retry_def)
  next
    case (Inr u)
    then have "send_shutdowns tr b is s1 = (r, s')"
      using Cons.prems(2) 1 by (simp add: cbind_def send_with_retry_def)
    from Cons.IH [OF g this] show ?thesis
      using l Inr same_trans [of s s1 s'] by auto
  qed
qed

lemma await_stopped_law:
  "good s \<Longrightarrow> await_stopped n tr b s = (Inr (), s') \<Longrightarrow>
     same_channel s s' \<and> posted s' = posted s \<and> taken s' = taken s + n"
proof (induction n arbitrary: s)
  case 0
  then show ?case by (auto simp: creturn_def same_channel_def keeps_def)
next
  case (Suc n)
  obtain r1 s1 where 1: "reply_loop (max (br_max_retries b) 1) tr (br_park_timeout b) s = (r1, s1)" by fastforce
  note l = reply_loop_law [OF Suc.prems(1) 1]
  have g: "good s1" using l by (simp add: same_channel_def keeps_def)
  have "r1 = Inr Stopped" "await_stopped n tr b s1 = (Inr (), s')"
    using Suc.prems(2) 1 by (auto simp: cbind_def wait_reply_def cfail_def split: sum.splits if_splits)
  with Suc.IH [OF g] show ?case using l same_trans [of s s1 s'] by auto
qed

lemma shutdown_law:
  assumes "good s" and "broker_shutdown tr b (False, s) = (Inr (), flag, s')" and "i < br_shards b"
  shows "keeps s s' \<and> (\<exists>pre t post. executed s' = pre @ (i, ShutdownCmd, t) # post \<and> commands_of i post = [])"
proof -
  let ?n = "br_shards b"
  obtain ok s1 where ch: "tp_channel tr (queue_capacity ?n) s = (ok, s1)" by fastforce
  obtain r2 s2 where sd: "send_shutdowns tr b [0..<?n] s1 = (r2, s2)" by fastforce
  have ok and r2: "r2 = Inr ()" and aw: "await_stopped ?n tr b s2 = (Inr (), s')"
    using assms(2) ch sd
    by (auto simp: broker_shutdown_def cbind_def cconfig_def Let_def split: sum.splits prod.splits if_splits)
  then have c1: "good s1" "\<exists>xs. executed s1 = executed s @ xs" "posted s1 = []" "taken s1 = 0"
    using channel_ok [OF assms(1)] ch by auto
  note l2 = send_shutdowns_law [OF c1(1) sd]
  have g2: "good s2" using l2 by (simp add: same_channel_def keeps_def)
  note l3 = await_stopped_law [OF g2 aw]
  have g3: "good s'" and k: "keeps s s'"
    using l2 l3 c1(2) by (auto simp: same_channel_def keeps_def)
  have post: "posted s' = map (\<lambda>i. (i, ShutdownCmd)) [0..<?n]" "taken s' = ?n"
    using l2 l3 r2 c1(3,4) by auto
  have "mset (own (chan s') (executed s')) = mset (posted s')"
    using delivered [OF g3] answered_once [OF g3] post
    by (metis length_map length_upt minus_nat.diff_0 size_mset subset_mset.antisym_conv2 mset_subset_size linorder_not_less)
  then have "set (own (chan s') (executed s')) = set (posted s')" by (rule mset_eq_setD)
  then have "(i, ShutdownCmd) \<in> set (own (chan s') (executed s'))" using assms(3) post by auto
  then have "(i, ShutdownCmd, chan s') \<in> set (executed s')" by (auto simp: own_def)
  then obtain pre post' where "executed s' = pre @ (i, ShutdownCmd, chan s') # post'" by (meson split_list)
  then show ?thesis using k stopped_last [OF g3] by blast
qed

end

section \<open>A scheduled transport\<close>

text \<open>
  Shards with bounded FIFO mailboxes. Commands wait in \<open>sm_pending\<close>, in the order they were
  accepted; a turn of shard \<open>i\<close> executes the first one waiting for it, unless its task has returned. What the other
  threads do while the caller parks is given by a schedule: turns of shards, and
  commands of other clients, whose replies are not the caller's (channel 0).
\<close>

datatype Act = Turn nat | Other nat PartitionCommand

record Sim =
  sm_executed :: exec
  sm_pending :: exec
  sm_chan :: nat
  sm_posted :: "(nat \<times> PartitionCommand) list"
  sm_inbox :: "PartitionResult list"
  sm_taken :: nat
  sm_clock :: nat

definition halted :: "nat \<Rightarrow> Sim \<Rightarrow> bool" where
  "halted i s \<longleftrightarrow> list_ex (\<lambda>(j, c, t). j = i \<and> c = ShutdownCmd) (sm_executed s)"

definition mailbox_full :: "nat \<Rightarrow> nat \<Rightarrow> Sim \<Rightarrow> bool" where
  "mailbox_full capacity i s \<longleftrightarrow> capacity \<le> length (filter (\<lambda>(j, c, t). j = i) (sm_pending s))"

definition sim_enqueue :: "nat \<Rightarrow> PartitionCommand \<Rightarrow> nat \<Rightarrow> Sim \<Rightarrow> Sim" where
  "sim_enqueue i c t s = s\<lparr>sm_pending := sm_pending s @ [(i, c, t)]\<rparr>"

definition sim_turn :: "TopicCatalog \<Rightarrow> nat option \<Rightarrow> nat \<Rightarrow> Sim \<Rightarrow> Sim" where
  "sim_turn cat mb i s =
     (if halted i s then s
      else case find (\<lambda>(j, c, t). j = i) (sm_pending s) of
        None \<Rightarrow> s
      | Some (j, c, t) \<Rightarrow> s\<lparr>sm_executed := sm_executed s @ [(i, c, t)],
          sm_pending := remove1 (i, c, t) (sm_pending s),
          sm_inbox := (if t = sm_chan s then sm_inbox s @ [reply_after cat mb i (sm_executed s) c] else sm_inbox s)\<rparr>)"

fun sim_act :: "TopicCatalog \<Rightarrow> nat option \<Rightarrow> nat \<Rightarrow> Act \<Rightarrow> Sim \<Rightarrow> Sim" where
  "sim_act cat mb capacity (Turn i) s = sim_turn cat mb i s"
| "sim_act cat mb capacity (Other i c) s = (if mailbox_full capacity i s then s else sim_enqueue i c 0 s)"

definition sim_transport ::
  "TopicCatalog \<Rightarrow> nat option \<Rightarrow> nat \<Rightarrow> (nat \<Rightarrow> Act list) \<Rightarrow> Sim Transport" where
  "sim_transport cat mb capacity schedule = \<lparr>
     tp_mailbox = (\<lambda>n s. (2 \<le> n, s)),
     tp_spawn = (\<lambda>i cat park_timeout mb s. s),
     tp_channel = (\<lambda>n s. if 2 \<le> n then (True, s\<lparr>sm_chan := Suc (sm_chan s), sm_posted := [], sm_inbox := [], sm_taken := 0\<rparr>)
                         else (False, s)),
     tp_try_send = (\<lambda>i c s. if halted i s \<or> mailbox_full capacity i s then (False, s)
                            else (True, sim_enqueue i c (sm_chan s) (s\<lparr>sm_posted := sm_posted s @ [(i, c)]\<rparr>))),
     tp_try_recv = (\<lambda>s. case sm_inbox s of [] \<Rightarrow> (None, s)
                         | r # rs \<Rightarrow> (Some r, s\<lparr>sm_inbox := rs, sm_taken := Suc (sm_taken s)\<rparr>)),
     tp_park = (\<lambda>n s. fold (sim_act cat mb capacity) (schedule (sm_clock s)) s\<lparr>sm_clock := Suc (sm_clock s)\<rparr>)\<rparr>"

definition sim_new :: Sim where
  "sim_new = \<lparr>sm_executed = [], sm_pending = [], sm_chan = 1, sm_posted = [], sm_inbox = [], sm_taken = 0, sm_clock = 0\<rparr>"

definition sim_good :: "TopicCatalog \<Rightarrow> nat option \<Rightarrow> Sim \<Rightarrow> bool" where
  "sim_good cat mb s \<longleftrightarrow> 0 < sm_chan s
   \<and> (\<forall>e \<in> set (sm_executed s) \<union> set (sm_pending s). snd (snd e) \<le> sm_chan s)
   \<and> mset (own (sm_chan s) (sm_executed s)) + mset (own (sm_chan s) (sm_pending s)) \<subseteq># mset (sm_posted s)
   \<and> sm_taken s + length (sm_inbox s) \<le> length (own (sm_chan s) (sm_executed s))
   \<and> (\<forall>r \<in> set (sm_inbox s). replied cat mb (sm_chan s) (sm_executed s) r)
   \<and> (\<forall>pre i t post. sm_executed s = pre @ (i, ShutdownCmd, t) # post \<longrightarrow> commands_of i post = [])"

definition sim_keeps :: "TopicCatalog \<Rightarrow> nat option \<Rightarrow> Sim \<Rightarrow> Sim \<Rightarrow> bool" where
  "sim_keeps cat mb s s' \<longleftrightarrow> sim_good cat mb s' \<and> (\<exists>xs. sm_executed s' = sm_executed s @ xs)
     \<and> sm_chan s' = sm_chan s \<and> sm_posted s' = sm_posted s \<and> sm_taken s' = sm_taken s"

lemma sim_keeps_refl: "sim_good cat mb s \<Longrightarrow> sim_keeps cat mb s s"
  by (simp add: sim_keeps_def)

lemma sim_keeps_trans: "sim_keeps cat mb s s' \<Longrightarrow> sim_keeps cat mb s' s'' \<Longrightarrow> sim_keeps cat mb s s''"
  by (auto simp: sim_keeps_def)

lemma sim_new_good: "sim_good cat mb sim_new"
  by (simp add: sim_good_def sim_new_def)

lemma sim_other_keeps: "sim_good cat mb s \<Longrightarrow> sim_keeps cat mb s (sim_enqueue i c 0 s)"
  by (auto simp: sim_keeps_def sim_good_def sim_enqueue_def)

lemma mset_own_remove1: "(i, c, t) \<in> set xs \<Longrightarrow>
    mset (own u xs) = (if t = u then {#(i, c)#} else {#}) + mset (own u (remove1 (i, c, t) xs))"
  by (induction xs) (auto simp: own_def split: if_splits)

lemma not_halted_last:
  assumes "\<not> halted i s" and "sm_executed s @ [(i, c, t)] = pre @ (j, ShutdownCmd, u) # post"
    and "\<forall>pre i t post. sm_executed s = pre @ (i, ShutdownCmd, t) # post \<longrightarrow> commands_of i post = []"
  shows "commands_of j post = []"
proof (cases post rule: rev_cases)
  case Nil
  then show ?thesis by (simp add: commands_of_def)
next
  case (snoc ys y)
  then have e: "sm_executed s = pre @ (j, ShutdownCmd, u) # ys" "y = (i, c, t)" using assms(2) by auto
  then have "j \<noteq> i" using assms(1) by (auto simp: halted_def)
  then show ?thesis using e assms(3) snoc by (simp add: commands_of_def)
qed

lemma sim_turn_keeps:
  assumes g: "sim_good cat mb s"
  shows "sim_keeps cat mb s (sim_turn cat mb i s)"
proof (cases "halted i s \<or> find (\<lambda>(j, c, t). j = i) (sm_pending s) = None")
  case True
  then show ?thesis using g sim_keeps_refl by (auto simp: sim_turn_def)
next
  case False
  then obtain j c t where jct: "find (\<lambda>(j, c, t). j = i) (sm_pending s) = Some (j, c, t)" and h: "\<not> halted i s"
    by fastforce
  then have f: "find (\<lambda>(j, c, t). j = i) (sm_pending s) = Some (i, c, t)" and mem: "(i, c, t) \<in> set (sm_pending s)"
    by (auto simp: find_Some_iff in_set_conv_nth)
  let ?r = "reply_after cat mb i (sm_executed s) c"
  let ?s = "sim_turn cat mb i s"
  have s': "?s = s\<lparr>sm_executed := sm_executed s @ [(i, c, t)], sm_pending := remove1 (i, c, t) (sm_pending s),
      sm_inbox := (if t = sm_chan s then sm_inbox s @ [?r] else sm_inbox s)\<rparr>"
    using f h by (simp add: sim_turn_def)
  have rep: "replied cat mb t (sm_executed s @ [(i, c, t)]) ?r" by (auto simp: replied_def)
  have ms: "mset (own u (sm_pending s)) = (if t = u then {#(i, c)#} else {#}) + mset (own u (remove1 (i, c, t) (sm_pending s)))" for u
    using mset_own_remove1 [OF mem] .
  have tickets: "\<forall>e \<in> set (sm_executed s @ [(i, c, t)]) \<union> set (remove1 (i, c, t) (sm_pending s)). snd (snd e) \<le> sm_chan s"
  proof -
    have tk: "\<forall>e \<in> set (sm_executed s) \<union> set (sm_pending s). snd (snd e) \<le> sm_chan s" using g by (simp add: sim_good_def)
    then have "t \<le> sm_chan s" using mem by (metis UnCI snd_conv)
    then show ?thesis using tk set_remove1_subset [of "(i, c, t)" "sm_pending s"] by auto
  qed
  have deliv: "mset (own (sm_chan s) (sm_executed s @ [(i, c, t)])) + mset (own (sm_chan s) (remove1 (i, c, t) (sm_pending s)))
      \<subseteq># mset (sm_posted s)"
    using g ms [of "sm_chan s"] by (simp add: sim_good_def split: if_splits)
  have inbox: "\<forall>r \<in> set (sm_inbox ?s). replied cat mb (sm_chan s) (sm_executed s @ [(i, c, t)]) r"
    using g rep by (auto simp: s' sim_good_def intro: replied_grows)
  have last: "\<forall>pre j u post. sm_executed s @ [(i, c, t)] = pre @ (j, ShutdownCmd, u) # post \<longrightarrow> commands_of j post = []"
    using g not_halted_last [OF h, of c t] unfolding sim_good_def by blast
  have "sim_good cat mb ?s"
    unfolding sim_good_def using g tickets deliv inbox last by (simp add: s' sim_good_def)
  then show ?thesis by (auto simp: sim_keeps_def s')
qed

lemma sim_act_keeps: "sim_good cat mb s \<Longrightarrow> sim_keeps cat mb s (sim_act cat mb capacity a s)"
  by (cases a) (auto intro: sim_turn_keeps sim_other_keeps sim_keeps_refl)

lemma sim_acts_keep: "sim_good cat mb s \<Longrightarrow> sim_keeps cat mb s (fold (sim_act cat mb capacity) acts s)"
proof (induction acts arbitrary: s)
  case (Cons a acts)
  have "sim_keeps cat mb s (sim_act cat mb capacity a s)" by (rule sim_act_keeps [OF Cons.prems])
  then show ?case using Cons.IH [of "sim_act cat mb capacity a s"] sim_keeps_trans by (auto simp: sim_keeps_def)
qed (simp add: sim_keeps_refl)

lemma sim_good_clock [simp]: "sim_good cat mb (s\<lparr>sm_clock := k\<rparr>) = sim_good cat mb s"
  by (simp add: sim_good_def)

lemma own_later: "\<forall>e \<in> set ex. snd (snd e) \<le> k \<Longrightarrow> own (Suc k) ex = []"
  by (auto simp: own_Nil_iff)

lemma sim_channel_good:
  "sim_good cat mb s \<Longrightarrow> sim_good cat mb (s\<lparr>sm_chan := Suc (sm_chan s), sm_posted := [], sm_inbox := [], sm_taken := 0\<rparr>)"
  by (auto simp: sim_good_def own_later le_Suc_eq)

lemma sim_send_good:
  "sim_good cat mb s \<Longrightarrow> sim_good cat mb (sim_enqueue i c (sm_chan s) (s\<lparr>sm_posted := sm_posted s @ [(i, c)]\<rparr>))"
  by (auto simp: sim_good_def sim_enqueue_def)

lemma sim_recv_good:
  "sim_good cat mb s \<Longrightarrow> sm_inbox s = r # rs \<Longrightarrow>
     sim_good cat mb (s\<lparr>sm_inbox := rs, sm_taken := Suc (sm_taken s)\<rparr>) \<and> replied cat mb (sm_chan s) (sm_executed s) r"
  by (auto simp: sim_good_def)

interpretation sim: shard_transport "sim_transport cat mb capacity schedule" cat mb "sim_good cat mb"
  sm_executed sm_chan sm_posted sm_taken for cat mb capacity schedule
proof unfold_locales
  fix s s' :: Sim and n i c r
  let ?tr = "sim_transport cat mb capacity schedule"
  assume g: "sim_good cat mb s"
  show "tp_channel ?tr n s = (True, s') \<Longrightarrow> sim_good cat mb s' \<and> (\<exists>more. sm_executed s' = sm_executed s @ more)
      \<and> own (sm_chan s') (sm_executed s') = [] \<and> sm_posted s' = [] \<and> sm_taken s' = 0"
    using sim_channel_good [OF g] g own_later [of "sm_executed s" "sm_chan s"]
    by (auto simp: sim_transport_def sim_good_def [of _ _ s] split: if_splits)
  show "tp_channel ?tr n s = (False, s') \<Longrightarrow> sim_good cat mb s' \<and> (\<exists>more. sm_executed s' = sm_executed s @ more)"
    using g by (auto simp: sim_transport_def split: if_splits)
  show "tp_try_send ?tr i c s = (True, s') \<Longrightarrow> sim_good cat mb s' \<and> (\<exists>more. sm_executed s' = sm_executed s @ more)
      \<and> sm_chan s' = sm_chan s \<and> sm_posted s' = sm_posted s @ [(i, c)] \<and> sm_taken s' = sm_taken s"
    using sim_send_good [OF g, of i c] by (auto simp: sim_transport_def split: if_splits) (auto simp: sim_enqueue_def)
  show "tp_try_send ?tr i c s = (False, s') \<Longrightarrow> sim_good cat mb s' \<and> (\<exists>more. sm_executed s' = sm_executed s @ more)
      \<and> sm_chan s' = sm_chan s \<and> sm_posted s' = sm_posted s \<and> sm_taken s' = sm_taken s"
    using g by (auto simp: sim_transport_def split: if_splits)
  show "tp_try_recv ?tr s = (Some r, s') \<Longrightarrow> sim_good cat mb s' \<and> (\<exists>more. sm_executed s' = sm_executed s @ more)
      \<and> sm_chan s' = sm_chan s \<and> sm_posted s' = sm_posted s \<and> sm_taken s' = Suc (sm_taken s)
      \<and> replied cat mb (sm_chan s) (sm_executed s') r"
    using sim_recv_good [OF g] by (auto simp: sim_transport_def split: list.splits)
  show "tp_try_recv ?tr s = (None, s') \<Longrightarrow> sim_good cat mb s' \<and> (\<exists>more. sm_executed s' = sm_executed s @ more)
      \<and> sm_chan s' = sm_chan s \<and> sm_posted s' = sm_posted s \<and> sm_taken s' = sm_taken s"
    using g by (auto simp: sim_transport_def split: list.splits)
  show "sim_good cat mb (tp_park ?tr n s) \<and> (\<exists>more. sm_executed (tp_park ?tr n s) = sm_executed s @ more)
      \<and> sm_chan (tp_park ?tr n s) = sm_chan s \<and> sm_posted (tp_park ?tr n s) = sm_posted s
      \<and> sm_taken (tp_park ?tr n s) = sm_taken s"
    using sim_acts_keep [OF g, of capacity "schedule (sm_clock s)"]
    by (simp add: sim_transport_def sim_keeps_def)
  show "mset (own (sm_chan s) (sm_executed s)) \<subseteq># mset (sm_posted s)"
    using g by (auto simp: sim_good_def intro: subset_mset.dual_order.trans)
  show "sm_taken s \<le> length (own (sm_chan s) (sm_executed s))" using g by (simp add: sim_good_def)
  have "\<forall>xs ys. commands_of i (sm_executed s) = xs @ ShutdownCmd # ys \<longrightarrow> ys = []"
    using g commands_of_split [of i "sm_executed s"] unfolding sim_good_def by metis
  then show "\<exists>received. commands_of i (sm_executed s) = take (length (fst (partition_task cat mb received shard_new))) received"
    by (intro exI [of _ "commands_of i (sm_executed s)"]) (simp add: task_answers_all)
qed

end
