(* ===== verification/Log_Isolation.thy ===== *)
theory Log_Isolation
  imports Log_Properties
begin

text \<open>
  What becomes of the records of one append: the batches that hold a range of offsets keep their producer, if
  they have one, and their state changes only by resolutions of that producer. While it is not committed
  a read-committed fetch returns nothing of the range; once it is, such a fetch returns it.
\<close>

text \<open>What the log retains between two offsets belongs to one transactional producer or to none, in a state that satisfies \<open>P\<close>.\<close>

definition stamped :: "int \<Rightarrow> int \<Rightarrow> int option \<Rightarrow> (BatchState \<Rightarrow> bool) \<Rightarrow> PartitionLog \<Rightarrow> bool" where
  "stamped lo hi tx P l \<longleftrightarrow> hi \<le> pl_next_offset l \<and>
     (\<forall>b \<in> set (pl_batches l). \<forall>r \<in> set (sb_records b).
        lo \<le> rec_offset r \<and> rec_offset r < hi \<longrightarrow> sb_transaction b = tx \<and> P (sb_state b))"

lemma batch_offsets:
  assumes "batch_ok b" and "r \<in> set (sb_records b)"
  shows "sb_base_offset b \<le> rec_offset r"
proof -
  have "rec_offset r \<in> set (map rec_offset (sb_records b))" using assms(2) by simp
  then show ?thesis using assms(1) unfolding batch_ok_def by auto
qed

context log_appender
begin

lemma app_stamped:
  assumes "represents H l" and "int (length (H @ accepted rs)) \<le> max_signed 64" and "stamped lo hi tx P l"
  shows "stamped lo hi tx P (snd (app l rs))"
proof (cases "fst (app l rs)")
  case (Inl e)
  then show ?thesis using app_error [of l rs e] assms(3) by simp
next
  case (Inr base)
  have wf: "log_wf l" and nx: "pl_next_offset l = int (length H)" using assms(1) by (auto simp: represents_def)
  have "length rs \<le> MAX_APPEND_RECORDS" using Inr by (cases rule: app_cases [of rs l]) auto
  then have room: "room l (length rs)" using assms(2) nx by (auto simp: accepted_def room_def)
  obtain k where b: "base = pl_next_offset l" "rs \<noteq> []" "length rs \<le> MAX_APPEND_RECORDS"
    "pl_next_offset (snd (app l rs)) = base + int (length rs)"
    "pl_batches (snd (app l rs)) = drop k (pl_batches l @ [sealed_batch base rs txn st])"
    using app_result [OF wf room Inr] by metis
  have new: "hi \<le> rec_offset r" if "r \<in> set (sb_records (sealed_batch base rs txn st))" for r
    using batch_offsets [OF sealed_batch_ok [OF wf room b(2,3)]] that assms(3) b(1) by (force simp: stamped_def)
  have "x \<in> set (pl_batches l) \<or> x = sealed_batch base rs txn st" if "x \<in> set (pl_batches (snd (app l rs)))" for x
    using in_set_dropD [of x k "pl_batches l @ [sealed_batch base rs txn st]"] that b(5) by auto
  then show ?thesis
    using assms(3) new b(1,4) unfolding stamped_def by fastforce
qed

lemma app_stamps:
  assumes "represents H l" and "int (length (H @ accepted rs)) \<le> max_signed 64" and "fst (app l rs) = Inr base"
  shows "stamped base (base + int (length rs)) txn (\<lambda>s. s = st) (snd (app l rs))"
proof -
  have wf: "log_wf l" and nx: "pl_next_offset l = int (length H)" using assms(1) by (auto simp: represents_def)
  have "length rs \<le> MAX_APPEND_RECORDS" using assms(3) by (cases rule: app_cases [of rs l]) auto
  then have room: "room l (length rs)" using assms(2) nx by (auto simp: accepted_def room_def)
  obtain k where b: "base = pl_next_offset l" "pl_next_offset (snd (app l rs)) = base + int (length rs)"
    "pl_batches (snd (app l rs)) = drop k (pl_batches l @ [sealed_batch base rs txn st])"
    using app_result [OF wf room assms(3)] by metis
  have old: "rec_offset r < base" if "x \<in> set (pl_batches l)" "r \<in> set (sb_records x)" for x r
    using chain_record_bounds [of "start_offset l" "pl_batches l" "pl_next_offset l" r] wf that b(1)
    by (auto simp: log_wf_def all_records_def)
  have "x \<in> set (pl_batches l) \<or> x = sealed_batch base rs txn st" if "x \<in> set (pl_batches (snd (app l rs)))" for x
    using in_set_dropD [of x k "pl_batches l @ [sealed_batch base rs txn st]"] that b(3) by auto
  then show ?thesis using old b(2) unfolding stamped_def by (metis not_less order_refl sealed_batch_fields(3,4))
qed

end

lemma commit_stamped:
  assumes "stamped lo hi tx P l" and "tx = Some q \<longrightarrow> P (if c then Committed else Aborted)"
  shows "stamped lo hi tx P (commit_transaction l q c)"
  using assms by (auto simp: stamped_def commit_transaction_def split: if_splits)

lemma commit_stamps:
  assumes "stamped lo hi (Some p) P l"
  shows "stamped lo hi (Some p) (\<lambda>s. s = (if c then Committed else Aborted)) (commit_transaction l p c)"
  using assms by (auto simp: stamped_def commit_transaction_def split: if_splits)

lemma log_exec_stamped:
  assumes "represents H l" and "int (length (hist_exec op H)) \<le> max_signed 64" and "stamped lo hi tx P l"
    and "\<And>p c. op = OpCommitTransaction p c \<Longrightarrow> tx = Some p \<Longrightarrow> P (if c then Committed else Aborted)"
  shows "stamped lo hi tx P (log_exec op l)"
  using assms plain.app_stamped [OF assms(1) _ assms(3)] txn.app_stamped [OF assms(1) _ assms(3)] commit_stamped [OF assms(3)]
  by (cases op) (auto simp: log_append_data)

lemma log_run_stamped:
  assumes "represents H l" and "int (length (hist_run ops H)) \<le> max_signed 64" and "stamped lo hi tx P l"
    and "\<And>p c. OpCommitTransaction p c \<in> set ops \<Longrightarrow> tx = Some p \<Longrightarrow> P (if c then Committed else Aborted)"
  shows "stamped lo hi tx P (log_run ops l)"
  using assms
proof (induction ops arbitrary: H l)
  case Nil
  then show ?case by (simp add: log_run_def)
next
  case (Cons op ops)
  have h: "int (length (hist_exec op H)) \<le> max_signed 64"
    using Cons.prems(2) hist_run_grows [of "hist_exec op H" ops] by (simp add: hist_run_def)
  have st: "stamped lo hi tx P (log_exec op l)"
    by (rule log_exec_stamped [OF Cons.prems(1) h Cons.prems(3)]) (use Cons.prems(4) in simp)
  have rest: "P (if c then Committed else Aborted)" if "OpCommitTransaction p c \<in> set ops" "tx = Some p" for p c
    using Cons.prems(4) [of p c] that by simp
  have "stamped lo hi tx P (log_run ops (log_exec op l))"
    by (rule Cons.IH [OF log_exec_represents [OF Cons.prems(1) h] _ st])
      (use Cons.prems(2) rest in \<open>simp_all add: hist_run_def\<close>)
  then show ?case by (simp add: log_run_def)
qed

section \<open>Read-committed fetches\<close>

lemma uncommitted_hidden:
  assumes "log_wf l" and "stamped lo hi (Some p) (\<lambda>s. s \<noteq> Committed) l" and "fetch_with_isolation l off n m True = Inr w"
    and "r \<in> set (fw_records w)"
  shows "\<not> (lo \<le> rec_offset r \<and> rec_offset r < hi)"
  using fetched_readable [OF assms(1,3,4)] assms(2) by (auto simp: set_readable hidden_def stamped_def)

lemma committed_first:
  assumes "log_wf l" and "stamped lo hi tx (\<lambda>s. s = Committed) l" and "fetch_with_isolation l off n m True = Inr w"
    and "0 < n" and "lo \<le> off" and "off < hi"
  shows "fw_records w \<noteq> [] \<and> rec_offset (hd (fw_records w)) = off"
proof -
  let ?rd = "readable (pl_batches l) off True"
  have ch: "chain (start_offset l) (pl_batches l) (pl_next_offset l)" using assms(1) by (simp add: log_wf_def)
  have st: "start_offset l \<le> off" using assms(3) by (auto simp: fetch_with_isolation_def fetch_inner_def split: if_splits)
  have hi: "hi \<le> pl_next_offset l" using assms(2) by (simp add: stamped_def)
  let ?i = "nat (off - start_offset l)" and ?rs = "all_records (pl_batches l)"
  have i: "?i < length ?rs" using chain_end [OF ch] st hi assms(6) by simp
  then obtain b where b: "b \<in> set (pl_batches l)" "?rs ! ?i \<in> set (sb_records b)"
    using nth_mem [OF i] unfolding all_records_def by fastforce
  have at: "rec_offset (?rs ! ?i) = off" using chain_nth_offset [OF ch i] st by simp
  then have "sb_state b = Committed" using assms(2,5,6) b unfolding stamped_def by metis
  then have mem: "?rs ! ?i \<in> set ?rd" using b at by (auto simp: set_readable hidden_def)
  have win: "is_window n m ?rd (fw_records w)"
    using fetch_inner_is_window [OF assms(1)] assms(3) by (simp add: fetch_with_isolation_def)
  have rd: "?rd \<noteq> []" using mem by (metis empty_iff list.set(1))
  have ne: "fw_records w \<noteq> []" using window_nonempty [OF win rd assms(4)] .
  then have hd: "hd (fw_records w) = hd ?rd" using win by (elim windowE) (simp add: hd_take)
  have "off \<le> rec_offset (hd ?rd)" using set_readable [of "hd ?rd"] list.set_sel(1) [OF rd] by blast
  moreover have "rec_offset (hd ?rd) \<le> rec_offset (?rs ! ?i)"
    using chain_sorted_readable [OF ch, of off True] mem by (cases ?rd) (auto simp: less_imp_le)
  ultimately show ?thesis using ne hd at by simp
qed

end
