(* ===== verification/Broker_Properties.thy ===== *)
theory Broker_Properties
  imports Broker_Transport Log_Isolation
begin

text \<open>
  What a client of the broker facade can rely on, for every transport that satisfies the laws of
  \<open>shard_transport\<close>: with any interleaving of other clients and any number of shards.
  The witnesses use the scheduled transport.
\<close>

section \<open>Histories across shards\<close>

text \<open>The history of a partition, as the commands executed by its shard made it.\<close>

definition partition_history :: "TopicCatalog \<Rightarrow> nat \<Rightarrow> bytes \<times> int \<Rightarrow> exec \<Rightarrow> RecordData list" where
  "partition_history cat i key ex = hist_run (concat (map (ops_for cat key) (commands_of i ex))) []"

lemma hist_exec_extends: "\<exists>ys. hist_exec op H = H @ ys"
  by (cases op) auto

lemma hist_run_extends: "\<exists>ys. hist_run ops H = H @ ys"
proof (induction ops arbitrary: H)
  case (Cons op ops)
  obtain xs where "hist_exec op H = H @ xs" using hist_exec_extends by blast
  moreover obtain ys where "hist_run ops (H @ xs) = (H @ xs) @ ys" using Cons by blast
  ultimately show ?case by (auto simp: hist_run_def)
qed (simp add: hist_run_def)

lemma partition_history_append:
  "partition_history cat i key (ex @ more_ex)
     = hist_run (concat (map (ops_for cat key) (commands_of i more_ex))) (partition_history cat i key ex)"
  by (simp add: partition_history_def hist_run_def)

lemma partition_history_extends: "\<exists>ys. partition_history cat i key (ex @ xs) = partition_history cat i key ex @ ys"
  unfolding partition_history_append by (rule hist_run_extends)

lemma partition_history_mono:
  "length (partition_history cat i key ex) \<le> length (partition_history cat i key (ex @ xs))"
  by (metis partition_history_extends length_append le_add1)

lemma shard_represents_history:
  assumes "int (length (partition_history cat i key ex)) \<le> max_signed 64"
  shows "represents (partition_history cat i key ex) (log_at mb (shard_after cat mb i ex) key)"
  using log_run_represents [OF represents_new assms [unfolded partition_history_def], of mb]
  by (simp add: shard_after_def shard_run_log_at partition_history_def)

lemma reply_after_produce:
  "reply_after cat mb i ex (ProduceCmd topic prt rs) =
     (case check_partition cat topic prt of
        Inl e \<Rightarrow> Failed e
      | Inr _ \<Rightarrow> case fst (append_data (log_at mb (shard_after cat mb i ex) (topic, prt)) rs) of
                   Inl e \<Rightarrow> Failed e | Inr base \<Rightarrow> Produced base)"
  by (auto simp: reply_after_def with_log_eq append_result_def case_prod_beta split: sum.splits)

lemma reply_after_fetch:
  "reply_after cat mb i ex (FetchCmd topic prt off n m rc) =
     (case check_partition cat topic prt of
        Inl e \<Rightarrow> Failed e
      | Inr _ \<Rightarrow> case fetch_with_isolation (log_at mb (shard_after cat mb i ex) (topic, prt)) off n m rc of
                   Inl e \<Rightarrow> Failed e | Inr w \<Rightarrow> Fetched w)"
  by (auto simp: reply_after_def with_log_eq split: sum.splits)

lemma fetch_reply_iff:
  "Fetched w = (case x of Inl e \<Rightarrow> Failed e | Inr w \<Rightarrow> Fetched w) \<longleftrightarrow> x = Inr w"
  by (cases x) auto

text \<open>Without a byte budget nothing is ever evicted.\<close>

lemma unlimited_log_starts_at_zero: "start_offset (log_at None (shard_after cat None i ex) key) = 0"
  by (simp add: shard_after_def shard_run_log_at new_log_def log_run_unlimited)

text \<open>A produce command that was answered with a base offset extended the history there by its records.\<close>

lemma produced_history:
  assumes "reply_after cat mb i ex (ProduceCmd topic prt rs) = Produced base"
    and "int (length (partition_history cat i (topic, prt) ex)) \<le> max_signed 64"
  shows "base = int (length (partition_history cat i (topic, prt) ex))
    \<and> partition_history cat i (topic, prt) (ex @ [(i, ProduceCmd topic prt rs, t)]) = partition_history cat i (topic, prt) ex @ rs"
proof -
  let ?H = "partition_history cat i (topic, prt) ex" and ?l = "log_at mb (shard_after cat mb i ex) (topic, prt)"
  have rep: "represents ?H ?l" by (rule shard_represents_history [OF assms(2)])
  have ck: "check_partition cat topic prt = Inr ()" and app: "fst (append_data ?l rs) = Inr base"
    using assms(1) by (auto simp: reply_after_produce split: sum.splits)
  have "length rs \<le> MAX_APPEND_RECORDS" "base = pl_next_offset ?l"
    using app by (auto simp: append_data_def log_append_def Let_def split: if_splits)
  then show ?thesis
    using rep ck by (simp add: partition_history_append commands_of_def hist_run_def accepted_def represents_def)
qed

section \<open>A partition's log between two points of the execution\<close>

lemma log_at_later:
  "log_at mb (shard_after cat mb i (ex @ ex')) key
     = log_run (concat (map (ops_for cat key) (commands_of i ex'))) (log_at mb (shard_after cat mb i ex) key)"
proof -
  have "shard_run cat mb (xs @ ys) st = shard_run cat mb ys (shard_run cat mb xs st)" for xs ys st
    by (simp add: shard_run_def)
  then show ?thesis by (simp add: shard_after_def shard_run_log_at)
qed

lemma resolution_executed:
  assumes "OpCommitTransaction p c \<in> set (concat (map (ops_for cat key) (commands_of i ex)))"
  shows "\<exists>t. (i, ResolveTransactionCmd p c, t) \<in> set ex"
proof -
  obtain d where d: "d \<in> set (commands_of i ex)" "OpCommitTransaction p c \<in> set (ops_for cat key d)" using assms by auto
  have "d = ResolveTransactionCmd p c" using d(2) by (cases d rule: PartitionCommand.exhaust) (auto split: if_splits)
  then show ?thesis using d(1) by (auto simp: commands_of_def)
qed

lemma stamped_mono: "stamped lo hi tx P l \<Longrightarrow> (\<And>s. P s \<Longrightarrow> Q s) \<Longrightarrow> stamped lo hi tx Q l"
  by (auto simp: stamped_def)

lemma stamped_later:
  assumes "int (length (partition_history cat i key (ex @ ex'))) \<le> max_signed 64"
    and "stamped lo hi tx P (log_at mb (shard_after cat mb i ex) key)"
    and "\<And>p c t. (i, ResolveTransactionCmd p c, t) \<in> set ex' \<Longrightarrow> tx = Some p \<Longrightarrow> P (if c then Committed else Aborted)"
  shows "stamped lo hi tx P (log_at mb (shard_after cat mb i (ex @ ex')) key)"
proof -
  have "int (length (partition_history cat i key ex)) \<le> max_signed 64"
    using assms(1) partition_history_mono [of cat i key ex ex'] by simp
  from log_run_stamped [OF shard_represents_history [OF this] _ assms(2)] show ?thesis
    unfolding log_at_later using assms(1,3) resolution_executed partition_history_append by metis
qed

text \<open>The records of a plain produce are committed, and stay so.\<close>

lemma produced_committed:
  assumes "reply_after cat mb i ex (ProduceCmd topic prt rs) = Produced base"
    and "int (length (partition_history cat i (topic, prt) ((ex @ [(i, ProduceCmd topic prt rs, t)]) @ ys))) \<le> max_signed 64"
  shows "stamped base (base + int (length rs)) None (\<lambda>s. s = Committed)
    (log_at mb (shard_after cat mb i ((ex @ [(i, ProduceCmd topic prt rs, t)]) @ ys)) (topic, prt))"
proof -
  let ?ex = "ex @ [(i, ProduceCmd topic prt rs, t)]" and ?l = "log_at mb (shard_after cat mb i ex) (topic, prt)"
  let ?h = "\<lambda>ex. int (length (partition_history cat i (topic, prt) ex))"
  have h1: "?h ?ex \<le> max_signed 64" using assms(2) partition_history_mono [of cat i "(topic, prt)" ?ex ys] by linarith
  then have h0: "?h ex \<le> max_signed 64"
    using partition_history_mono [of cat i "(topic, prt)" ex "[(i, ProduceCmd topic prt rs, t)]"] by linarith
  have ck: "check_partition cat topic prt = Inr ()" and app: "fst (append_data ?l rs) = Inr base"
    using assms(1) by (auto simp: reply_after_produce split: sum.splits)
  have n: "length rs \<le> MAX_APPEND_RECORDS" using app by (auto simp: append_data_def log_append_def Let_def split: if_splits)
  have "stamped base (base + int (length rs)) None (\<lambda>s. s = Committed) (snd (append_data ?l rs))"
    using plain.app_stamps [OF shard_represents_history [OF h0] _ app] produced_history [OF assms(1) h0, of t] h1 n
    by (simp add: accepted_def)
  then have "stamped base (base + int (length rs)) None (\<lambda>s. s = Committed) (log_at mb (shard_after cat mb i ?ex) (topic, prt))"
    using ck by (simp add: log_at_later commands_of_def log_run_def log_append_data)
  from stamped_later [OF assms(2) this] show ?thesis by simp
qed

text \<open>What a fetch returns, or refuses, of records that are in the history behind a log.\<close>

lemma represented_window:
  assumes "represents (H @ rs @ us) l" and "base = int (length H)" and "fetch_with_isolation l off n m rc = Inr w"
  shows "base + int (length rs) \<le> fw_high_watermark w
    \<and> (\<forall>rd \<in> set (fw_records w). base \<le> rec_offset rd \<and> rec_offset rd < base + int (length rs)
         \<longrightarrow> data_from_record rd = rs ! nat (rec_offset rd - base))
    \<and> (\<not> rc \<and> 0 < n \<and> base \<le> off \<and> off < base + int (length rs)
         \<longrightarrow> fw_records w \<noteq> [] \<and> rec_offset (hd (fw_records w)) = off)"
proof -
  have wf: "log_wf l" and nx: "pl_next_offset l = int (length (H @ rs @ us))" using assms(1) by (auto simp: represents_def)
  have hw: "fw_high_watermark w = pl_next_offset l" and st: "start_offset l \<le> off"
    using assms(3) by (auto simp: fetch_with_isolation_def fetch_inner_def Let_def split: if_splits)
  have "data_from_record rd = rs ! nat (rec_offset rd - base)"
    if "rd \<in> set (fw_records w)" "base \<le> rec_offset rd" "rec_offset rd < base + int (length rs)" for rd
    using fetched_history [OF assms(1,3)] that assms(2) by (auto simp: nth_append nat_diff_distrib)
  moreover have "fw_records w \<noteq> [] \<and> rec_offset (hd (fw_records w)) = off"
    if "\<not> rc" "0 < n" "base \<le> off" "off < base + int (length rs)"
  proof -
    have "off < high_watermark l" using that nx assms(2) by (simp add: high_watermark_def)
    then show ?thesis
      using log_fetch_progress [OF wf st _ that(2), of m] assms(3) that(1)
      by (auto simp: fetch_with_isolation_def log_fetch_def hd_conv_nth)
  qed
  ultimately show ?thesis using hw nx assms(2) by auto
qed

lemma represented_refusal:
  assumes "represents (H @ rs @ us) l" and "base = int (length H)" and "mb = None \<longrightarrow> start_offset l = 0"
    and "fetch_with_isolation l off n m rc = Inl e" and "base \<le> off" and "off \<le> base + int (length rs)"
  shows "e = OffsetOutOfRange \<and> mb \<noteq> None"
proof -
  have "e = OffsetOutOfRange" "off < start_offset l \<or> pl_next_offset l < off"
    using assms(4) by (auto simp: fetch_with_isolation_def fetch_inner_def Let_def split: if_splits)
  then show ?thesis using assms(1-3,5,6) by (auto simp: represents_def)
qed

section \<open>Outcomes of data calls\<close>

context shard_transport
begin

lemma sound_expected: "sound f \<Longrightarrow> good s \<Longrightarrow> fst (f s) \<noteq> Inl UnexpectedReply"
  using soundD [of f s "fst (f s)" "snd (f s)"] by simp

lemma checked_call_law:
  assumes "good s" and "\<And>v s. snd (g v s) = s"
    and "cbind (ccore chk) (\<lambda>_. cbind (broker_call tr b topic prt c) g) s = (r, s')"
  shows "(\<exists>e. chk = Inl e \<and> r = Inl (Core e) \<and> s' = s)
    \<or> (\<exists>u r1. chk = Inr u \<and> call_outcome (shard_index b topic prt) c s r1 s'
        \<and> r = (case r1 of Inl e \<Rightarrow> Inl e | Inr v \<Rightarrow> fst (g v s')))"
proof (cases chk)
  case (Inl e)
  then show ?thesis using assms(3) by (simp add: cbind_def ccore_def)
next
  case (Inr u)
  obtain r1 s1 where 1: "broker_call tr b topic prt c s = (r1, s1)" by fastforce
  have "(r, s') = (case r1 of Inl e \<Rightarrow> (Inl e, s1) | Inr v \<Rightarrow> (fst (g v s1), s1))"
    using assms(3) Inr 1 prod.collapse [of "g _ s1"] assms(2) by (simp add: cbind_def ccore_def split: sum.splits)
  then have s1: "s' = s1" "r = (case r1 of Inl e \<Rightarrow> Inl e | Inr v \<Rightarrow> fst (g v s1))"
    by (auto split: sum.splits)
  then show ?thesis using call_law [OF assms(1) 1] Inr by blast
qed

lemma produced_keeps_state [simp]: "snd (produced v s) = s"
  by (cases v) (simp_all add: creturn_def cfail_def)

lemma fetched_keeps_state [simp]: "snd (fetched v s) = s"
  by (cases v) (simp_all add: creturn_def cfail_def)

lemma produce_law:
  assumes "good s" and "broker_produce tr b topic prt rs s = (r, s')"
  shows "(\<exists>e. check_partition (br_catalog b) topic prt = Inl e \<and> r = Inl (Core e) \<and> s' = s)
    \<or> (\<exists>r1. check_partition (br_catalog b) topic prt = Inr () \<and> call_outcome (shard_index b topic prt) (ProduceCmd topic prt rs) s r1 s'
        \<and> r = (case r1 of Inl e \<Rightarrow> Inl e | Inr v \<Rightarrow> fst (produced v s')))"
  using checked_call_law [of s produced, OF assms(1) produced_keeps_state, of "check_partition (br_catalog b) topic prt"] assms(2)
  unfolding broker_produce_def by auto

lemma fetch_law:
  assumes "good s" and "broker_fetch_with_isolation tr b topic prt off n m rc s = (r, s')"
  shows "(\<exists>e. check_partition (br_catalog b) topic prt = Inl e \<and> r = Inl (Core e) \<and> s' = s)
    \<or> (\<exists>r1. call_outcome (shard_index b topic prt) (FetchCmd topic prt off n m rc) s r1 s'
        \<and> r = (case r1 of Inl e \<Rightarrow> Inl e | Inr v \<Rightarrow> fst (fetched v s')))"
  using checked_call_law [of s fetched, OF assms(1) fetched_keeps_state, of "check_partition (br_catalog b) topic prt"] assms(2)
  unfolding broker_fetch_with_isolation_def by blast

lemma produce_ok:
  assumes "good s" and "broker_produce tr b topic prt rs s = (Inr base, s')"
  shows "call_outcome (shard_index b topic prt) (ProduceCmd topic prt rs) s (Inr (Produced base)) s'"
proof -
  obtain r1 where r1: "call_outcome (shard_index b topic prt) (ProduceCmd topic prt rs) s r1 s'"
    "Inr base = (case r1 of Inl e \<Rightarrow> Inl e | Inr v \<Rightarrow> fst (produced v s'))"
    using produce_law [OF assms] by auto
  then obtain v where v: "r1 = Inr v" "fst (produced v s') = Inr base" by (cases r1) auto
  then have "v = Produced base" by (cases v) (auto simp: creturn_def cfail_def)
  then show ?thesis using r1 v by simp
qed

lemma fetch_ok:
  assumes "good s" and "broker_fetch_with_isolation tr b topic prt off n m rc s = (Inr w, s')"
  shows "call_outcome (shard_index b topic prt) (FetchCmd topic prt off n m rc) s (Inr (Fetched w)) s'"
proof -
  obtain r1 where r1: "call_outcome (shard_index b topic prt) (FetchCmd topic prt off n m rc) s r1 s'"
    "Inr w = (case r1 of Inl e \<Rightarrow> Inl e | Inr v \<Rightarrow> fst (fetched v s'))"
    using fetch_law [OF assms] by auto
  then obtain v where v: "r1 = Inr v" "fst (fetched v s') = Inr w" by (cases r1) auto
  then have "v = Fetched w" by (cases v) (auto simp: creturn_def cfail_def)
  then show ?thesis using r1 v by simp
qed

lemma produce_extends_history:
  assumes "good s" and "broker_produce tr b topic prt rs s = (Inr base, s')"
    and "int (length (partition_history cat (shard_index b topic prt) (topic, prt) (executed s'))) \<le> max_signed 64"
  shows "good s' \<and> check_partition cat topic prt = Inr () \<and> (\<exists>H ys. base = int (length H)
    \<and> partition_history cat (shard_index b topic prt) (topic, prt) (executed s') = H @ rs @ ys)"
proof -
  let ?i = "shard_index b topic prt" and ?c = "ProduceCmd topic prt rs"
  note o = produce_ok [OF assms(1,2)]
  then have g: "good s'" by (simp add: call_outcome_def keeps_def)
  obtain pre post where e: "executed s' = executed s @ pre @ (?i, ?c, chan s') # post"
    and r: "Produced base = reply_after cat mb ?i (executed s @ pre) ?c"
    using o by (auto simp: call_outcome_def)
  have ck: "check_partition cat topic prt = Inr ()" using r by (auto simp: reply_after_produce split: sum.splits)
  have e': "executed s' = (executed s @ pre) @ [(?i, ?c, chan s')] @ post" using e by simp
  have "int (length (partition_history cat ?i (topic, prt) (executed s @ pre))) \<le> max_signed 64"
    using assms(3) partition_history_mono [of cat ?i "(topic, prt)" "executed s @ pre" "[(?i, ?c, chan s')] @ post"] e'
    by simp
  note h = produced_history [OF r [symmetric] this, of "chan s'"]
  show ?thesis
    using g ck h partition_history_extends [of cat ?i "(topic, prt)" "(executed s @ pre) @ [(?i, ?c, chan s')]" post]
    by (auto simp: e)
qed

text \<open>
  The fetch of a partition, at a state whose executed commands extend those of an acknowledged
  produce: the shard fetches from a log that represents the produced records.
\<close>

lemma acknowledged_committed:
  assumes "good s" and "broker_produce tr b topic prt rs s = (Inr base, s1)" and "i = shard_index b topic prt"
    and "int (length (partition_history cat i (topic, prt) (executed s1 @ ys))) \<le> max_signed 64"
  shows "stamped base (base + int (length rs)) None (\<lambda>s. s = Committed)
    (log_at mb (shard_after cat mb i (executed s1 @ ys)) (topic, prt))"
proof -
  let ?c = "ProduceCmd topic prt rs"
  obtain pre post where e: "executed s1 = executed s @ pre @ (i, ?c, chan s1) # post"
    and r: "reply_after cat mb i (executed s @ pre) ?c = Produced base"
    using produce_ok [OF assms(1,2)] assms(3) by (auto simp: call_outcome_def)
  have "executed s1 @ ys = ((executed s @ pre) @ [(i, ?c, chan s1)]) @ (post @ ys)" using e by simp
  then show ?thesis using produced_committed [OF r, of "chan s1" "post @ ys"] assms(4) by simp
qed

lemma acknowledged_represented:
  assumes "good s" and "broker_produce tr b topic prt rs s = (Inr base, s1)"
    and "good s2" and "executed s2 = executed s1 @ xs"
    and "call_outcome (shard_index b topic prt) (FetchCmd topic prt off n m rc) s2 (Inr v) s3"
    and "int (length (partition_history cat (shard_index b topic prt) (topic, prt) (executed s3))) \<le> max_signed 64"
  shows "\<exists>H us l. base = int (length H) \<and> represents (H @ rs @ us) l \<and> (mb = None \<longrightarrow> start_offset l = 0)
    \<and> stamped base (base + int (length rs)) None (\<lambda>s. s = Committed) l
    \<and> v = (case fetch_with_isolation l off n m rc of Inl e \<Rightarrow> Failed e | Inr w \<Rightarrow> Fetched w)"
proof -
  let ?i = "shard_index b topic prt" and ?c = "FetchCmd topic prt off n m rc"
  let ?h = "partition_history cat ?i (topic, prt)"
  obtain pre post where e: "executed s3 = executed s2 @ pre @ (?i, ?c, chan s3) # post"
    and r: "v = reply_after cat mb ?i (executed s2 @ pre) ?c"
    using assms(5) by (auto simp: call_outcome_def)
  have e': "executed s3 = executed s1 @ xs @ pre @ (?i, ?c, chan s3) # post" using e assms(4) by simp
  have "length (?h (executed s1)) \<le> length (?h (executed s3))" using partition_history_mono e' by metis
  then have "int (length (?h (executed s1))) \<le> max_signed 64" using assms(6) by simp
  then obtain H ys where H: "base = int (length H)" "?h (executed s1) = H @ rs @ ys"
    and ck: "check_partition cat topic prt = Inr ()"
    using produce_extends_history [OF assms(1,2)] by blast
  let ?l = "log_at mb (shard_after cat mb ?i (executed s2 @ pre)) (topic, prt)"
  have "length (?h (executed s2 @ pre)) \<le> length (?h (executed s3))"
    using partition_history_mono [of cat ?i "(topic, prt)" "executed s2 @ pre" "(?i, ?c, chan s3) # post"] e by simp
  then have hp: "int (length (?h (executed s2 @ pre))) \<le> max_signed 64" using assms(6) by simp
  then have rep: "represents (?h (executed s2 @ pre)) ?l" by (rule shard_represents_history)
  have com: "stamped base (base + int (length rs)) None (\<lambda>s. s = Committed) ?l"
    using acknowledged_committed [OF assms(1,2) refl, of "xs @ pre"] hp assms(4) by simp
  obtain us where "?h (executed s2 @ pre) = H @ rs @ us"
    using H(2) partition_history_extends [of cat ?i "(topic, prt)" "executed s1" "xs @ pre"] assms(4) by auto
  then show ?thesis
    using H(1) rep com r ck by (intro exI [of _ H] exI [of _ us] exI [of _ ?l]) (auto simp: reply_after_fetch unlimited_log_starts_at_zero)
qed

lemma acknowledged_law:
  assumes "good s" and "broker_produce tr b topic prt rs s = (Inr base, s1)"
    and "good s2" and "executed s2 = executed s1 @ xs"
    and "broker_fetch_with_isolation tr b topic prt off n m rc s2 = (Inr w, s3)"
    and "int (length (partition_history cat (shard_index b topic prt) (topic, prt) (executed s3))) \<le> max_signed 64"
  shows "base + int (length rs) \<le> fw_high_watermark w
    \<and> (\<forall>rd \<in> set (fw_records w). base \<le> rec_offset rd \<and> rec_offset rd < base + int (length rs)
         \<longrightarrow> data_from_record rd = rs ! nat (rec_offset rd - base))
    \<and> (0 < n \<and> base \<le> off \<and> off < base + int (length rs)
         \<longrightarrow> fw_records w \<noteq> [] \<and> rec_offset (hd (fw_records w)) = off)"
proof -
  obtain H us l where H: "base = int (length H)" and rep: "represents (H @ rs @ us) l"
    and com: "stamped base (base + int (length rs)) None (\<lambda>s. s = Committed) l"
    and l: "fetch_with_isolation l off n m rc = Inr w"
    using acknowledged_represented [OF assms(1-4) fetch_ok [OF assms(3,5)] assms(6)] unfolding fetch_reply_iff by blast
  have "log_wf l" using rep by (simp add: represents_def)
  from committed_first [OF this com] represented_window [OF rep H l] l show ?thesis by (cases rc) auto
qed

lemma refused_fetch:
  assumes "good s" and "broker_produce tr b topic prt rs s = (Inr base, s1)"
    and "good s2" and "executed s2 = executed s1 @ xs"
    and "broker_fetch_with_isolation tr b topic prt off n m rc s2 = (Inl (Core e), s3)"
    and "int (length (partition_history cat (shard_index b topic prt) (topic, prt) (executed s3))) \<le> max_signed 64"
    and "base \<le> off" and "off \<le> base + int (length rs)"
  shows "e = OffsetOutOfRange \<and> mb \<noteq> None"
proof -
  have "check_partition (br_catalog b) topic prt = Inr ()" using produce_law [OF assms(1,2)] by auto
  then obtain r1 where r1: "call_outcome (shard_index b topic prt) (FetchCmd topic prt off n m rc) s2 r1 s3"
    "Inl (Core e) = (case r1 of Inl e \<Rightarrow> Inl e | Inr v \<Rightarrow> fst (fetched v s3))"
    using fetch_law [OF assms(3,5)] by auto
  then obtain v where v: "r1 = Inr v" by (cases r1) (auto simp: call_outcome_def)
  then obtain H us l where H: "base = int (length H)" and rep: "represents (H @ rs @ us) l"
    and st: "mb = None \<longrightarrow> start_offset l = 0"
    and w: "v = (case fetch_with_isolation l off n m rc of Inl e \<Rightarrow> Failed e | Inr w \<Rightarrow> Fetched w)"
    using acknowledged_represented [OF assms(1-4) _ assms(6)] r1(1) by blast
  have f: "fetch_with_isolation l off n m rc = Inl e"
    using w r1(2) v by (auto simp: cfail_def creturn_def split: sum.splits)
  from represented_refusal [OF rep H st this assms(7,8)] show ?thesis .
qed

end

section \<open>Startup and placement\<close>

definition valid_topics :: "TopicSpec list \<Rightarrow> bool" where
  "valid_topics topics \<longleftrightarrow> distinct (map ts_name topics) \<and> (\<forall>t \<in> set topics. ts_name t \<noteq> [] \<and> 0 < ts_partitions t)"

definition spec_map :: "TopicSpec list \<Rightarrow> bytes \<Rightarrow> int option" where
  "spec_map topics = map_of (map (\<lambda>t. (ts_name t, ts_partitions t)) topics)"

lemma create_topics_ok:
  "create_topics topics c = Inr c' \<Longrightarrow> catalog_reach c \<Longrightarrow>
     catalog_reach c' \<and> valid_topics topics \<and> (\<forall>t \<in> set topics. partition_count c (ts_name t) = None)
     \<and> (\<forall>name. partition_count c' name = (case spec_map topics name of Some n \<Rightarrow> Some n | None \<Rightarrow> partition_count c name))"
proof (induction topics arbitrary: c)
  case Nil
  then show ?case by (simp add: valid_topics_def spec_map_def)
next
  case (Cons t topics)
  then obtain c1 where c1: "catalog_create c (ts_name t) (ts_partitions t) = Inr c1" "create_topics topics c1 = Inr c'"
    by (auto split: sum.splits)
  have r1: "catalog_reach c1" by (rule reach_create [OF Cons.prems(2) c1(1)])
  note ih = Cons.IH [OF c1(2) r1] and cc = catalog_create_cases [OF c1(1)] and pc = partition_count_create [OF c1(1)]
  have new: "ts_name u \<noteq> ts_name t \<and> partition_count c (ts_name u) = None" if "u \<in> set topics" for u
    using ih that pc [of "ts_name u"] by (auto split: if_splits)
  then have "spec_map topics (ts_name t) = None"
    by (force simp: spec_map_def map_of_eq_None_iff)
  then have "partition_count c' name = (case spec_map (t # topics) name of Some n \<Rightarrow> Some n | None \<Rightarrow> partition_count c name)" for name
    using ih pc [of name] by (auto simp: spec_map_def split: option.splits)
  then show ?case using ih cc new by (force simp: valid_topics_def)
qed

lemma create_topics_error:
  "create_topics topics c = Inl e \<Longrightarrow> e \<in> {InvalidTopic, DuplicateTopic}
     \<and> \<not> (valid_topics topics \<and> (\<forall>t \<in> set topics. partition_count c (ts_name t) = None))"
proof (induction topics arbitrary: c)
  case (Cons t topics)
  show ?case
  proof (cases "catalog_create c (ts_name t) (ts_partitions t)")
    case (Inl e')
    then show ?thesis using Cons.prems
      by (auto simp: catalog_create_def valid_topics_def partition_count_def split: if_splits)
  next
    case (Inr c1)
    note ih = Cons.IH [of c1] and pc = partition_count_create [OF Inr]
    have "create_topics topics c1 = Inl e" using Cons.prems Inr by simp
    moreover have "valid_topics topics \<and> (\<forall>u \<in> set topics. partition_count c1 (ts_name u) = None)"
      if "valid_topics (t # topics)" "\<forall>u \<in> set (t # topics). partition_count c (ts_name u) = None"
      using that by (auto simp: valid_topics_def pc rev_image_eqI)
    ultimately show ?thesis using ih by blast
  qed
qed simp

lemma create_topics_valid:
  assumes "valid_topics topics"
  shows "\<exists>c. create_topics topics catalog_new = Inr c"
proof (cases "create_topics topics catalog_new")
  case (Inl e)
  then show ?thesis
    using create_topics_error [OF Inl] assms by (simp add: partition_count_def catalog_new_def)
qed simp

lemma spawn_shards_errors: "fst (spawn_shards tr config catalog is s) \<in> {Inr (), Inl InvalidConfig}"
proof (induction "is" arbitrary: s)
  case (Cons i "is")
  then show ?case by (auto simp: cbind_def cconfig_def split: prod.splits)
qed (simp add: creturn_def)

lemma spawn_shards_ok: "(\<And>n s. fst (tp_mailbox tr n s)) \<Longrightarrow> fst (spawn_shards tr config catalog is s) = Inr ()"
proof (induction "is" arbitrary: s)
  case (Cons i "is")
  then show ?case by (simp add: cbind_def cconfig_def split: prod.splits) (metis fst_conv)
qed (simp add: creturn_def)

lemma word_mod_less:
  fixes x :: "64 word"
  assumes "0 < n"
  shows "unat (x mod of_nat n) < n"
proof -
  have "unat (x mod of_nat n) = unat x mod (n mod 2 ^ 64)" by (simp add: unat_mod_distrib unsigned_of_nat take_bit_eq_mod)
  moreover have "unat x mod (n mod 2 ^ 64) < n"
  proof (cases "n mod 2 ^ 64 = 0")
    case True
    then have "2 ^ 64 \<le> n" using assms by (auto intro: dvd_imp_le simp: mod_eq_0_iff_dvd)
    then show ?thesis using True unsigned_less [of x, where 'a = nat] by (simp add: mod_eq_0_iff_dvd)
  next
    case False
    then have "unat x mod (n mod 2 ^ 64) < n mod 2 ^ 64" by simp
    then show ?thesis by (rule less_le_trans) simp
  qed
  ultimately show ?thesis by simp
qed

lemma shard_index_less: "0 < br_shards b \<Longrightarrow> shard_index b topic prt < br_shards b"
  unfolding shard_index_def shard_index_of_def by (rule word_mod_less)

lemma shard_for_range:
  "first \<le> shard_for (layout_new first n) session \<and> shard_for (layout_new first n) session < first + max n 1"
  by (simp add: shard_for_def layout_new_def)

section \<open>A concrete broker\<close>

text \<open>One shard, one topic with one partition, and a transport that gives the shard a turn at every park.\<close>

definition demo_catalog :: TopicCatalog where
  "demo_catalog = \<lparr>tc_topics = [([116], 1)]\<rparr>"

definition demo_broker :: Broker where
  "demo_broker = \<lparr>br_shards = 1, br_catalog = demo_catalog, br_park_timeout = 1, br_max_retries = 2\<rparr>"

definition demo_transport :: "Sim Transport" where
  "demo_transport = sim_transport demo_catalog None 4 (\<lambda>k. [Turn 0])"

lemma demo_is_transport:
  "shard_transport demo_transport demo_catalog None (sim_good demo_catalog None) sm_executed sm_chan sm_posted sm_taken"
  unfolding demo_transport_def by (rule sim.shard_transport_axioms)

lemma demo_step:
  assumes "shard_transport.sound (sim_good demo_catalog None) sm_executed f" and "sim_good demo_catalog None s"
  shows "sim_good demo_catalog None (snd (f s))"
  using shard_transport.soundD [OF demo_is_transport assms, of "fst (f s)" "snd (f s)"]
  by (simp add: shard_transport.keeps_def [OF demo_is_transport])

lemma demo_shard [simp]: "shard_index demo_broker topic prt = 0"
  by (simp add: shard_index_def shard_index_of_def demo_broker_def)

lemma demo_broker_simps [simp]:
  "br_shards demo_broker = 1" "br_catalog demo_broker = demo_catalog" "br_park_timeout demo_broker = 1"
  "br_max_retries demo_broker = 2"
  by (simp_all add: demo_broker_def)

lemmas demo_eval = broker_produce_def broker_call_def broker_fetch_def broker_fetch_with_isolation_def
  broker_coordinate_def send_with_retry_def send_coordination_with_retry_def wait_reply_def
  cbind_def ccore_def cconfig_def creturn_def cfail_def
  demo_transport_def sim_transport_def sim_new_def halted_def mailbox_full_def sim_enqueue_def sim_turn_def
  reply_after_def shard_after_def commands_of_def shard_run_def with_log_def append_result_def
  new_log_def shard_new_def check_partition_def partition_count_def numeral_2_eq_2

definition demo_record :: Record where
  "demo_record = \<lparr>rec_offset = 0, rec_timestamp_ms = 0, rec_key = None, rec_value = Some [7]\<rparr>"

definition demo_produced :: Sim where
  "demo_produced = snd (broker_produce demo_transport demo_broker [116] 0 [datum 7] sim_new)"

lemma demo_produced_eq:
  "demo_produced = \<lparr>sm_executed = [(0, ProduceCmd [116] 0 [datum 7], 2)], sm_pending = [], sm_chan = 2,
     sm_posted = [(0, ProduceCmd [116] 0 [datum 7])], sm_inbox = [], sm_taken = 1, sm_clock = 1\<rparr>"
  by (simp add: demo_produced_def demo_eval demo_catalog_def datum_def log_eval)

lemma demo_produce:
  "broker_produce demo_transport demo_broker [116] 0 [datum 7] sim_new = (Inr 0, demo_produced)"
  by (simp add: demo_produced_eq demo_eval demo_catalog_def datum_def log_eval)

section \<open>Properties\<close>

text \<open>
  C3: a produce through the facade takes effect at most once, and the caller knows when. If it
  returns a base offset, the partition's shard executed exactly this command once on the
  caller's channel, at one point between call and return, and the append to the partition's log
  as it was at that point gave that base. A core error means that the catalog refused the
  partition before anything was sent, or that the shard executed the command and the log
  refused it at that point. A full mailbox means that it was never executed; only after
  a reply timeout it may or may not have been, and then still at most once.
\<close>

theorem produce_at_most_once:
  assumes "shard_transport tr cat mb good executed chan posted taken" and "good s" and "br_catalog b = cat"
    and "i = shard_index b topic prt" and "c = ProduceCmd topic prt rs"
    and "broker_produce tr b topic prt rs s = (r, s')"
  shows "good s' \<and> (\<exists>xs. executed s' = executed s @ xs) \<and>
    (case r of
       Inr base \<Rightarrow> \<exists>pre post. executed s' = executed s @ pre @ (i, c, chan s') # post
           \<and> own (chan s') (executed s') = [(i, c)]
           \<and> fst (append_data (log_at mb (shard_after cat mb i (executed s @ pre)) (topic, prt)) rs) = Inr base
     | Inl (Core e) \<Rightarrow> check_partition cat topic prt = Inl e \<and> s' = s
         \<or> (\<exists>pre post. executed s' = executed s @ pre @ (i, c, chan s') # post
             \<and> append_data (log_at mb (shard_after cat mb i (executed s @ pre)) (topic, prt)) rs
                 = (Inl e, log_at mb (shard_after cat mb i (executed s @ pre)) (topic, prt)))
     | Inl e \<Rightarrow> e = InvalidConfig
         \<or> e = MailboxUnavailable \<and> own (chan s') (executed s') = []
         \<or> e = ReplyTimeout \<and> own (chan s') (executed s') \<in> {[], [(i, c)]})"
proof -
  have keep: "good s' \<and> (\<exists>xs. executed s' = executed s @ xs)"
    using shard_transport.soundD [OF assms(1) shard_transport.sound_data_ops(1) [OF assms(1)] assms(2,6)]
    by (simp add: shard_transport.keeps_def [OF assms(1)])
  consider (refused) e where "check_partition cat topic prt = Inl e" "r = Inl (Core e)" "s' = s"
    | (called) r1 where "check_partition cat topic prt = Inr ()" "shard_transport.call_outcome cat mb good executed chan i c s r1 s'"
        "r = (case r1 of Inl e \<Rightarrow> Inl e | Inr v \<Rightarrow> fst (produced v s'))"
    using shard_transport.produce_law [OF assms(1,2,6)] assms(3-5) by blast
  then show ?thesis
  proof cases
    case refused
    then show ?thesis using keep by simp
  next
    case called
    then show ?thesis
    proof (cases r1)
      case (Inl e)
      then show ?thesis using called keep
        by (auto simp: shard_transport.call_outcome_def [OF assms(1)])
    next
      case (Inr v)
      then obtain pre post where e: "executed s' = executed s @ pre @ (i, c, chan s') # post"
        "v = reply_after cat mb i (executed s @ pre) c" "own (chan s') (executed s') = [(i, c)]"
        using called by (auto simp: shard_transport.call_outcome_def [OF assms(1)])
      show ?thesis
      proof (cases "fst (append_data (log_at mb (shard_after cat mb i (executed s @ pre)) (topic, prt)) rs)")
        case (Inl e')
        then have "r = Inl (Core e')" using called Inr e(2) assms(5) by (simp add: reply_after_produce cfail_def)
        then show ?thesis using keep e(1) plain.app_error [OF Inl] Inl by (auto simp: prod_eq_iff)
      next
        case (Inr base)
        then have "r = Inr base" using called \<open>r1 = Inr v\<close> e(2) assms(5) by (simp add: reply_after_produce creturn_def)
        then show ?thesis using keep e Inr by auto
      qed
    qed
  qed
qed

theorem produce_at_most_once_witness:
  "broker_produce demo_transport demo_broker [116] 0 [datum 7] sim_new = (Inr 0, demo_produced)
   \<and> own (sm_chan demo_produced) (sm_executed demo_produced) = [(0, ProduceCmd [116] 0 [datum 7])]"
  using produce_at_most_once [OF demo_is_transport sim_new_good demo_broker_simps(2) demo_shard [symmetric] refl demo_produce]
    demo_produce by auto

text \<open>
  C4: an acknowledged produce is read back. Once a produce returned a base offset, every later
  successful fetch of that partition, after any further commands of any clients, reports a
  high watermark at or past the end of the produced records; each record it returns at an
  offset of the produced range has the produced timestamp, key and value; and a
  fetch from an offset inside the range, under either isolation level, returns the record at that
  offset first.
  A fetch from the range is refused only as out of range, and only under a byte budget, which
  may have evicted the records. The offsets of the partition have not run past the 64-bit range.
\<close>

theorem acknowledged_records_are_read:
  assumes "shard_transport tr cat mb good executed chan posted taken" and "good s"
    and "broker_produce tr b topic prt rs s = (Inr base, s1)"
    and "good s2" and "executed s2 = executed s1 @ xs"
    and "broker_fetch_with_isolation tr b topic prt off n m rc s2 = (r, s3)"
    and "int (length (partition_history cat (shard_index b topic prt) (topic, prt) (executed s3))) \<le> max_signed 64"
  shows "case r of
      Inr w \<Rightarrow> base + int (length rs) \<le> fw_high_watermark w
        \<and> (\<forall>rd \<in> set (fw_records w). base \<le> rec_offset rd \<and> rec_offset rd < base + int (length rs)
             \<longrightarrow> data_from_record rd = rs ! nat (rec_offset rd - base))
        \<and> (0 < n \<and> base \<le> off \<and> off < base + int (length rs)
             \<longrightarrow> fw_records w \<noteq> [] \<and> rec_offset (hd (fw_records w)) = off)
    | Inl (Core e) \<Rightarrow> base \<le> off \<and> off \<le> base + int (length rs) \<longrightarrow> e = OffsetOutOfRange \<and> mb \<noteq> None
    | Inl _ \<Rightarrow> True"
proof (cases r)
  case (Inl e)
  then show ?thesis using shard_transport.refused_fetch [OF assms(1-5) _ assms(7)] assms(6) by (cases e) auto
next
  case (Inr w)
  then show ?thesis using shard_transport.acknowledged_law [OF assms(1-5) _ assms(7)] assms(6) by simp
qed

definition demo_fetched :: Sim where
  "demo_fetched = \<lparr>sm_executed = [(0, ProduceCmd [116] 0 [datum 7], 2), (0, FetchCmd [116] 0 0 10 4096 False, 3)],
     sm_pending = [], sm_chan = 3, sm_posted = [(0, FetchCmd [116] 0 0 10 4096 False)], sm_inbox = [], sm_taken = 1,
     sm_clock = 2\<rparr>"

lemma demo_fetch:
  "broker_fetch_with_isolation demo_transport demo_broker [116] 0 0 10 4096 False demo_produced
     = (Inr \<lparr>fw_high_watermark = 1, fw_last_stable_offset = 1, fw_records = [demo_record]\<rparr>, demo_fetched)"
  by (simp add: demo_produced_eq demo_fetched_def demo_eval demo_catalog_def datum_def demo_record_def log_eval fetch_eval)

theorem acknowledged_records_are_read_witness:
  "\<exists>w s3. broker_fetch_with_isolation demo_transport demo_broker [116] 0 0 10 4096 False demo_produced = (Inr w, s3)
     \<and> fw_records w \<noteq> [] \<and> (\<forall>rd \<in> set (fw_records w). data_from_record rd = [datum 7] ! nat (rec_offset rd))"
proof -
  have g: "sim_good demo_catalog None demo_produced"
    unfolding demo_produced_def by (intro demo_step shard_transport.sound_data_ops [OF demo_is_transport] sim_new_good)
  have h: "int (length (partition_history demo_catalog (shard_index demo_broker [116] 0) ([116], 0) (sm_executed demo_fetched)))
      \<le> max_signed 64"
    by (simp add: partition_history_def demo_fetched_def commands_of_def hist_run_def check_partition_def
        partition_count_def demo_catalog_def accepted_def MAX_APPEND_RECORDS_def max_signed_def)
  show ?thesis
    using acknowledged_records_are_read [OF demo_is_transport sim_new_good demo_produce g _ demo_fetch h] demo_fetch
    by (auto simp: demo_record_def)
qed

text \<open>
  Every facade call gets an answer of its own kind. No operation ever reports
  \<^verbatim>\<open>UnexpectedReply\<close>, also not the operations made of several calls, like ending a transaction over
  many partitions and offsets, however replies of concurrent callers interleave.
\<close>

lemma facade_replies_expected:
  assumes "shard_transport tr cat mb good executed chan posted taken" and "good s"
  shows "fst (broker_produce tr b topic prt rs s) \<noteq> Inl UnexpectedReply
    \<and> fst (broker_fetch_with_isolation tr b topic prt off n m rc s) \<noteq> Inl UnexpectedReply
    \<and> fst (broker_list_offset tr b topic prt earliest s) \<noteq> Inl UnexpectedReply
    \<and> fst (produce_transactional tr b tid p topic prt rs s) \<noteq> Inl UnexpectedReply
    \<and> fst (broker_init_producer tr b tid s) \<noteq> Inl UnexpectedReply
    \<and> fst (add_transaction_partition tr b tid p topic prt s) \<noteq> Inl UnexpectedReply
    \<and> fst (add_transaction_offset tr b tid p toff s) \<noteq> Inl UnexpectedReply
    \<and> fst (broker_end_transaction tr b tid p commit s) \<noteq> Inl UnexpectedReply
    \<and> fst (broker_join_group tr b gid mid subs s) \<noteq> Inl UnexpectedReply
    \<and> fst (heartbeat_group tr b gid mid gen s) \<noteq> Inl UnexpectedReply
    \<and> fst (leave_group_any tr b gid mid s) \<noteq> Inl UnexpectedReply
    \<and> fst (commit_group_offset tr b gid gen topic prt off s) \<noteq> Inl UnexpectedReply
    \<and> fst (broker_group_offset tr b gid topic prt s) \<noteq> Inl UnexpectedReply"
  by (intro conjI; rule shard_transport.sound_expected [OF assms(1) _ assms(2)];
      rule shard_transport.sound_data_ops [OF assms(1)] shard_transport.sound_coordination_ops [OF assms(1)]
        shard_transport.sound_produce_transactional [OF assms(1)] shard_transport.sound_end_transaction [OF assms(1)])

lemma facade_replies_expected_example:
  "fst (broker_end_transaction demo_transport demo_broker [120] \<lparr>pi_id = 1, pi_epoch = 0\<rparr> True sim_new) \<noteq> Inl UnexpectedReply"
  using facade_replies_expected [OF demo_is_transport sim_new_good] by blast

text \<open>
  C39: shutdown. When it returns without error, every shard has executed a shutdown command and
  nothing after it, since its task returned there. However it returns, the broker counts as stopped from then on,
  and each further shutdown returns without error and without sending anything.
\<close>

theorem shutdown_stops_every_shard:
  assumes "shard_transport tr cat mb good executed chan posted taken" and "good s"
    and "broker_shutdown tr b (False, s) = (r, flag, s')"
  shows "flag \<and> broker_shutdown tr b (flag, s'') = (Inr (), True, s'')
    \<and> (r = Inr () \<longrightarrow> (\<forall>i < br_shards b. \<exists>pre t post.
          executed s' = pre @ (i, ShutdownCmd, t) # post \<and> commands_of i post = []))"
proof -
  have "flag" using assms(3) by (auto simp: broker_shutdown_def Let_def split: prod.splits)
  moreover have "\<exists>pre t post. executed s' = pre @ (i, ShutdownCmd, t) # post \<and> commands_of i post = []"
    if "r = Inr ()" "i < br_shards b" for i
    using shard_transport.shutdown_law [OF assms(1,2), of b flag s' i] assms(3) that by blast
  ultimately show ?thesis by (auto simp: broker_shutdown_def)
qed

theorem shutdown_stops_every_shard_witness:
  "\<exists>s'. broker_shutdown demo_transport demo_broker (False, sim_new) = (Inr (), True, s')
     \<and> (\<exists>pre t post. sm_executed s' = pre @ (0, ShutdownCmd, t) # post \<and> commands_of 0 post = [])"
proof -
  have e: "\<exists>s'. broker_shutdown demo_transport demo_broker (False, sim_new) = (Inr (), True, s')"
    by (simp add: broker_shutdown_def demo_eval)
  then show ?thesis
    using shutdown_stops_every_shard [OF demo_is_transport sim_new_good] by fastforce
qed

text \<open>
  A shutdown that failed is not repeated: with a shard that gets no turn the first call times out,
  and the second one returns without error although no shard has executed a shutdown.
\<close>

lemma retried_shutdown_reports_success:
  "\<exists>s'. broker_shutdown (sim_transport demo_catalog None 4 (\<lambda>k. [])) demo_broker (False, sim_new) = (Inl ReplyTimeout, True, s')
     \<and> broker_shutdown (sim_transport demo_catalog None 4 (\<lambda>k. [])) demo_broker (True, s') = (Inr (), True, s')
     \<and> sm_executed s' = []"
  by (simp add: broker_shutdown_def demo_eval)

text \<open>
  A rejected list of topics is reported with the catalog's error, and nothing is started. The
  documentation of \<^verbatim>\<open>Broker::start\<close> has \<open>InvalidConfig\<close> here.
\<close>

lemma rejected_topics:
  assumes "0 < bc_shard_count config" and "bc_topics config \<noteq> []" and "2 \<le> bc_mailbox_capacity config"
    and "\<not> valid_topics (bc_topics config)"
  shows "\<exists>e \<in> {InvalidTopic, DuplicateTopic}. broker_start tr config s = (Inl (Core e), s)"
proof (cases "create_topics (bc_topics config) catalog_new")
  case (Inl e)
  then show ?thesis using assms create_topics_error [OF Inl] by (auto simp: broker_start_def cbind_def ccore_def)
next
  case (Inr c)
  then show ?thesis using assms create_topics_ok [OF Inr reach_new] by simp
qed

text \<open>
  C40: starting a broker. Without shards, topics or room in the mailboxes it is refused with
  \<open>InvalidConfig\<close> before anything is started. A list of topics with an empty or repeated name or a count
  below one is refused with an error, also before anything is started. Otherwise it starts when no
  mailbox is refused, and the only error is \<open>InvalidConfig\<close>, for a refused mailbox; and a
  started broker has the configured shards, knows exactly the configured topics with their counts,
  and places every partition on one of its shards.
\<close>

theorem broker_start_outcome:
  shows "(bc_shard_count config = 0 \<or> bc_topics config = [] \<or> bc_mailbox_capacity config < 2
      \<longrightarrow> broker_start tr config s = (Inl InvalidConfig, s))
    \<and> (0 < bc_shard_count config \<and> bc_topics config \<noteq> [] \<and> 2 \<le> bc_mailbox_capacity config \<longrightarrow>
        (\<not> valid_topics (bc_topics config) \<longrightarrow> (\<exists>e. broker_start tr config s = (Inl e, s)))
      \<and> (valid_topics (bc_topics config) \<and> (\<forall>n s. fst (tp_mailbox tr n s)) \<longrightarrow>
            (\<exists>b s'. broker_start tr config s = (Inr b, s')))
      \<and> (valid_topics (bc_topics config) \<longrightarrow> fst (broker_start tr config s) \<in> range Inr \<union> {Inl InvalidConfig}))
    \<and> (\<forall>b s'. broker_start tr config s = (Inr b, s') \<longrightarrow>
        br_shards b = bc_shard_count config
      \<and> (\<forall>topic. broker_partition_count b topic = spec_map (bc_topics config) topic)
      \<and> (\<forall>topic prt. shard_index b topic prt < br_shards b))"
proof -
  let ?ok = "0 < bc_shard_count config \<and> bc_topics config \<noteq> [] \<and> 2 \<le> bc_mailbox_capacity config"
  have bad: "broker_start tr config s = (Inl InvalidConfig, s)" if "\<not> ?ok"
    using that by (auto simp: broker_start_def cfail_def)
  have topics: "\<exists>e. broker_start tr config s = (Inl e, s)" if "?ok" "\<not> valid_topics (bc_topics config)"
  proof -
    have "\<exists>e \<in> {InvalidTopic, DuplicateTopic}. broker_start tr config s = (Inl (Core e), s)"
      by (rule rejected_topics) (use that in simp_all)
    then show ?thesis by blast
  qed
  have mailboxes: "fst (broker_start tr config s) \<in> range Inr \<union> {Inl InvalidConfig}" if ok: "?ok" "valid_topics (bc_topics config)"
  proof -
    obtain c where c: "create_topics (bc_topics config) catalog_new = Inr c"
      using create_topics_valid [OF ok(2)] by blast
    show ?thesis
      using ok c spawn_shards_errors [of tr config c "[0..<bc_shard_count config]" s]
      by (cases "spawn_shards tr config c [0..<bc_shard_count config] s") (auto simp: broker_start_def cbind_def ccore_def creturn_def)
  qed
  have started: "\<exists>b s'. broker_start tr config s = (Inr b, s')"
    if ok: "?ok" "valid_topics (bc_topics config)" "\<forall>n s. fst (tp_mailbox tr n s)"
  proof -
    obtain c where c: "create_topics (bc_topics config) catalog_new = Inr c"
      using create_topics_valid [OF ok(2)] by blast
    have "fst (spawn_shards tr config c [0..<bc_shard_count config] s) = Inr ()"
      by (rule spawn_shards_ok) (use ok in simp)
    then show ?thesis using ok c
      by (cases "spawn_shards tr config c [0..<bc_shard_count config] s") (auto simp: broker_start_def cbind_def ccore_def creturn_def)
  qed
  have result: "br_shards b = bc_shard_count config \<and> 0 < br_shards b
      \<and> (\<forall>topic. broker_partition_count b topic = spec_map (bc_topics config) topic)"
    if st: "broker_start tr config s = (Inr b, s')" for b s'
  proof -
    have ?ok using st bad by fastforce
    then obtain c where c: "create_topics (bc_topics config) catalog_new = Inr c" "br_catalog b = c"
      "br_shards b = bc_shard_count config"
      using st by (auto simp: broker_start_def cbind_def ccore_def creturn_def split: sum.splits prod.splits)
    then show ?thesis
      using create_topics_ok [OF c(1) reach_new] \<open>?ok\<close>
      by (auto simp: broker_partition_count_def partition_count_def catalog_new_def split: option.splits)
  qed
  show ?thesis using bad topics started mailboxes result shard_index_less by (metis not_gr_zero not_le)
qed

theorem broker_start_outcome_witness:
  "(\<exists>b s'. broker_start demo_transport (config_new 3 [\<lparr>ts_name = [116], ts_partitions = 2\<rparr>]) sim_new = (Inr b, s')
      \<and> br_shards b = 3 \<and> shard_index b [116] 1 < 3)
   \<and> broker_start demo_transport (config_new 0 [\<lparr>ts_name = [116], ts_partitions = 2\<rparr>]) sim_new = (Inl InvalidConfig, sim_new)"
proof -
  let ?c = "config_new 3 [\<lparr>ts_name = [116], ts_partitions = 2\<rparr>]"
  have "\<exists>b s'. broker_start demo_transport ?c sim_new = (Inr b, s')"
    by (simp add: broker_start_def config_new_def DEFAULT_MAILBOX_CAPACITY_def catalog_create_def catalog_new_def demo_eval
        numeral_3_eq_3)
  then show ?thesis
    using broker_start_outcome [of ?c demo_transport sim_new]
      broker_start_outcome [of "config_new 0 [\<lparr>ts_name = [116], ts_partitions = 2\<rparr>]" demo_transport sim_new]
    by (auto simp: config_new_def)
qed

section \<open>A fenced transaction\<close>

text \<open>
  Re-initialising a transactional id fences the old epoch but keeps the producer id and leaves the
  old epoch's pending records in the log. The commit of the new epoch's transaction then commits
  them too: here nothing was produced under the new epoch, and the fenced record is read.
\<close>

lemma fenced_records_committed:
  "\<exists>replies st. partition_task demo_catalog None
      [CoordinateCmd (InitProducer [112]),
       CoordinateCmd (AddPartition [112] \<lparr>pi_id = 1, pi_epoch = 0\<rparr> [116] 0),
       ProduceTransactionalCmd [116] 0 [datum 7] 1,
       CoordinateCmd (InitProducer [112]),
       CoordinateCmd (AddPartition [112] \<lparr>pi_id = 1, pi_epoch = 1\<rparr> [116] 0),
       CoordinateCmd (EndTransaction [112] \<lparr>pi_id = 1, pi_epoch = 1\<rparr> True),
       ResolveTransactionCmd 1 True,
       FetchCmd [116] 0 0 10 4096 True] shard_new = (replies, st)
    \<and> replies ! 3 = Coordination (Inr (Producer \<lparr>pi_id = 1, pi_epoch = 1\<rparr>))
    \<and> replies ! 7 = Fetched \<lparr>fw_high_watermark = 1, fw_last_stable_offset = 1, fw_records = [demo_record]\<rparr>"
  by (simp add: demo_catalog_def shard_new_def txn_new_def group_new_def on_transactions_def txn_init_def add_partition_def
      txn_end_def transaction_mut_def put_transaction_def with_log_def check_partition_def partition_count_def
      append_result_def new_log_def datum_def demo_record_def log_eval fetch_eval sat_add_def saturate_def max_signed_def min_signed_def)

end
