(* ===== verification/Transaction_Facade.thy ===== *)
theory Transaction_Facade
  imports Broker_Properties
begin

text \<open>
  Ending a transaction through the facade: one command to the coordinator, then one resolution per
  enlisted partition and, on commit, one offset commit per enlisted offset, each to the shard
  that owns it and each at its own point of the execution.
\<close>

section \<open>Resolved logs\<close>

definition settled :: "bool \<Rightarrow> int \<Rightarrow> PartitionLog \<Rightarrow> bool" where
  "settled commit pid l \<longleftrightarrow>
     list_all (\<lambda>b. sb_transaction b = Some pid \<longrightarrow> sb_state b = (if commit then Committed else Aborted)) (pl_batches l)"

definition commit_command :: "TransactionOffset \<Rightarrow> PartitionCommand" where
  "commit_command off =
     CoordinateCmd (CommitOffset (to_group_id off) (to_generation off) (to_topic off) (to_partition off) (to_offset off))"

lemma settled_commit_transaction: "settled commit pid (commit_transaction l pid commit)"
  by (auto simp: settled_def commit_transaction_def list_all_iff)

lemma shard_after_snoc:
  "shard_after cat mb i (ex @ [(i, c, t)]) = snd (handle_command cat mb c (shard_after cat mb i ex))"
  by (simp add: shard_after_def commands_of_def shard_run_def)

lemma resolved_settled:
  "settled commit pid (log_at mb (shard_after cat mb i (ex @ [(i, ResolveTransactionCmd pid commit, t)])) key)"
  unfolding shard_after_snoc command_log_at by (simp add: log_run_def settled_commit_transaction)

section \<open>Sequences of calls\<close>

context shard_transport
begin

text \<open>
  A command executed during one call of a sequence was executed during the whole sequence.
\<close>

lemma linearized_widen:
  assumes "linearized i c s1 v s2" and "keeps s s1" and "keeps s2 s'"
  shows "linearized i c s v s'"
proof -
  obtain pre post t where e: "executed s2 = executed s1 @ pre @ (i, c, t) # post" "v = reply_after cat mb i (executed s1 @ pre) c"
    using assms(1) by (auto simp: linearized_def)
  obtain xs ys where xs: "executed s1 = executed s @ xs" and ys: "executed s' = executed s2 @ ys"
    using assms(2,3) by (auto simp: keeps_def)
  have "executed s' = executed s @ (xs @ pre) @ (i, c, t) # (post @ ys)" "v = reply_after cat mb i (executed s @ xs @ pre) c"
    using e xs ys by simp_all
  moreover have "keeps s s'" using assms keeps_trans unfolding linearized_def by blast
  ultimately show ?thesis unfolding linearized_def by blast
qed

lemma bind_ok:
  assumes "cbind f g s = (Inr v, s')"
  shows "\<exists>u s1. f s = (Inr u, s1) \<and> g u s1 = (Inr v, s')"
  using assms by (auto simp: cbind_def split: prod.splits sum.splits)

lemma call_ok: "good s \<Longrightarrow> broker_call tr b topic prt c s = (Inr v, s') \<Longrightarrow> linearized (shard_index b topic prt) c s v s'"
  using call_law outcome_linearized by blast

lemma applied_ok:
  assumes "good s" and "cbind (broker_coordinate tr b rq) applied s = (Inr u, s')"
  shows "linearized 0 (CoordinateCmd rq) s (Coordination (Inr Applied)) s'"
proof -
  obtain v s1 where v: "broker_coordinate tr b rq s = (Inr v, s1)" "applied v s1 = (Inr u, s')"
    using bind_ok [OF assms(2)] by blast
  then have "v = Applied" "s1 = s'" by (cases v; simp add: creturn_def cfail_def)+
  then show ?thesis using coordinate_law [OF assms(1) v(1)] by blast
qed

lemma resolve_law:
  "good s \<Longrightarrow> resolve_partitions tr b pid commit ps s = (Inr (), s') \<Longrightarrow>
     keeps s s' \<and> (\<forall>(topic, prt) \<in> set ps. linearized (shard_index b topic prt) (ResolveTransactionCmd pid commit) s Resolved s')"
proof (induction ps arbitrary: s)
  case Nil
  then show ?case by (simp add: creturn_def keeps_refl)
next
  case (Cons p ps)
  obtain topic prt where p: "p = (topic, prt)" by fastforce
  obtain v s1 where v: "broker_call tr b topic prt (ResolveTransactionCmd pid commit) s = (Inr v, s1)"
    and rest: "(if v \<noteq> Resolved then cfail UnexpectedReply else resolve_partitions tr b pid commit ps) s1 = (Inr (), s')"
    using bind_ok [OF Cons.prems(2) [unfolded p resolve_partitions.simps]] by blast
  have l: "linearized (shard_index b topic prt) (ResolveTransactionCmd pid commit) s Resolved s1"
    and r: "resolve_partitions tr b pid commit ps s1 = (Inr (), s')"
    using call_ok [OF Cons.prems(1) v] rest by (auto simp: cfail_def split: if_splits)
  have k: "keeps s s1" using l by (simp add: linearized_def)
  then have g: "good s1" by (simp add: keeps_def)
  note ih = Cons.IH [OF g r]
  show ?case
    using ih p linearized_widen [OF l keeps_refl [OF Cons.prems(1)]] linearized_widen [OF _ k] keeps_trans [OF k]
      keeps_refl [of s'] by (auto simp: keeps_def)
qed

lemma commit_offsets_law:
  "good s \<Longrightarrow> commit_offsets tr b offs s = (Inr (), s') \<Longrightarrow>
     keeps s s' \<and> (\<forall>off \<in> set offs. linearized 0
       (commit_command off)
       s (Coordination (Inr Applied)) s')"
proof (induction offs arbitrary: s)
  case Nil
  then show ?case by (simp add: creturn_def keeps_refl)
next
  case (Cons off offs)
  let ?rq = "CommitOffset (to_group_id off) (to_generation off) (to_topic off) (to_partition off) (to_offset off)"
  obtain u s1 where v: "cbind (broker_coordinate tr b ?rq) applied s = (Inr u, s1)" and r: "commit_offsets tr b offs s1 = (Inr (), s')"
    using bind_ok [OF Cons.prems(2) [unfolded commit_offsets.simps commit_group_offset_def]] by blast
  have l: "linearized 0 (commit_command off) s (Coordination (Inr Applied)) s1"
    unfolding commit_command_def by (rule applied_ok [OF Cons.prems(1) v])
  have k: "keeps s s1" using l by (simp add: linearized_def)
  then have g: "good s1" by (simp add: keeps_def)
  note ih = Cons.IH [OF g r]
  show ?case
    using ih linearized_widen [OF l keeps_refl [OF Cons.prems(1)]] linearized_widen [OF _ k] keeps_trans [OF k]
      keeps_refl [of s'] by (auto simp: keeps_def)
qed

lemma end_transaction_law:
  assumes "good s" and "broker_end_transaction tr b tid p commit s = (Inr (), s')"
  shows "\<exists>completion s1. linearized 0 (CoordinateCmd (EndTransaction tid p commit)) s (Coordination (Inr (TransactionCompleted completion))) s1
    \<and> keeps s1 s'
    \<and> (\<forall>(topic, prt) \<in> set (co_partitions completion).
         linearized (shard_index b topic prt) (ResolveTransactionCmd (pi_id p) commit) s1 Resolved s')
    \<and> (commit \<longrightarrow> (\<forall>off \<in> set (co_offsets completion). linearized 0
         (commit_command off)
         s1 (Coordination (Inr Applied)) s'))"
proof -
  obtain v s1 where v: "broker_coordinate tr b (EndTransaction tid p commit) s = (Inr v, s1)"
    and k: "(case v of TransactionCompleted completion \<Rightarrow>
           cbind (resolve_partitions tr b (pi_id p) commit (co_partitions completion)) (\<lambda>_.
             if commit then commit_offsets tr b (co_offsets completion) else creturn ())
       | _ \<Rightarrow> cfail UnexpectedReply) s1 = (Inr (), s')"
    using bind_ok [OF assms(2) [unfolded broker_end_transaction_def]] by blast
  note c = coordinate_law [OF assms(1) v]
  obtain completion where tc: "v = TransactionCompleted completion" using c by auto
  have l: "linearized 0 (CoordinateCmd (EndTransaction tid p commit)) s (Coordination (Inr (TransactionCompleted completion))) s1"
    using c tc by blast
  have g1: "good s1" using c by (simp add: keeps_def)
  obtain s2 where r: "resolve_partitions tr b (pi_id p) commit (co_partitions completion) s1 = (Inr (), s2)"
    and o: "(if commit then commit_offsets tr b (co_offsets completion) else creturn ()) s2 = (Inr (), s')"
    using bind_ok [OF k [unfolded tc CoordinationResult.case]] by auto
  note rl = resolve_law [OF g1 r]
  have g2: "good s2" using rl by (simp add: keeps_def)
  have k2: "keeps s2 s'" and ol: "commit \<longrightarrow> (\<forall>off \<in> set (co_offsets completion). linearized 0
         (commit_command off)
         s2 (Coordination (Inr Applied)) s')"
    using commit_offsets_law [OF g2, of b "co_offsets completion" s'] o keeps_refl [OF g2]
    by (auto simp: creturn_def split: if_splits)
  have k12: "keeps s1 s2" and g': "good s'" using rl k2 by (auto simp: keeps_def)
  have "\<forall>(topic, prt) \<in> set (co_partitions completion).
         linearized (shard_index b topic prt) (ResolveTransactionCmd (pi_id p) commit) s1 Resolved s'"
    using rl linearized_widen [OF _ keeps_refl [OF g1] k2] by auto
  moreover have "commit \<longrightarrow> (\<forall>off \<in> set (co_offsets completion).
         linearized 0 (commit_command off) s1 (Coordination (Inr Applied)) s')"
    using ol linearized_widen [OF _ k12 keeps_refl [OF g']] by auto
  ultimately show ?thesis using l keeps_trans [OF k12 k2] by (intro exI [of _ completion] exI [of _ s1]) simp
qed

text \<open>The same with the positions in the execution.\<close>

lemma end_transaction_positions:
  assumes "good s" and "broker_end_transaction tr b tid p commit s = (Inr (), s')"
  shows "\<exists>pre t post completion. executed s' = executed s @ pre @ (0, CoordinateCmd (EndTransaction tid p commit), t) # post
    \<and> reply_after cat mb 0 (executed s @ pre) (CoordinateCmd (EndTransaction tid p commit))
        = Coordination (Inr (TransactionCompleted completion))
    \<and> (\<forall>(topic, prt) \<in> set (co_partitions completion). \<exists>pre' t' post'.
         post = pre' @ (shard_index b topic prt, ResolveTransactionCmd (pi_id p) commit, t') # post')
    \<and> (commit \<longrightarrow> (\<forall>off \<in> set (co_offsets completion). \<exists>pre' t' post'.
         post = pre' @ (0, commit_command off, t') # post'
         \<and> reply_after cat mb 0 (executed s @ pre @ (0, CoordinateCmd (EndTransaction tid p commit), t) # pre')
             (commit_command off)
           = Coordination (Inr Applied)))"
proof -
  obtain completion s1 where l: "linearized 0 (CoordinateCmd (EndTransaction tid p commit)) s
      (Coordination (Inr (TransactionCompleted completion))) s1" and k: "keeps s1 s'"
    and rs: "\<forall>(topic, prt) \<in> set (co_partitions completion).
         linearized (shard_index b topic prt) (ResolveTransactionCmd (pi_id p) commit) s1 Resolved s'"
    and os: "commit \<longrightarrow> (\<forall>off \<in> set (co_offsets completion). linearized 0
         (commit_command off)
         s1 (Coordination (Inr Applied)) s')"
    using end_transaction_law [OF assms] by blast
  let ?E = "CoordinateCmd (EndTransaction tid p commit)"
  obtain pre t post1 where e1: "executed s1 = executed s @ pre @ (0, ?E, t) # post1"
    and rep: "Coordination (Inr (TransactionCompleted completion)) = reply_after cat mb 0 (executed s @ pre) ?E"
    using l by (auto simp: linearized_def)
  obtain post2 where e2: "executed s' = executed s1 @ post2" using k by (auto simp: keeps_def)
  have later: "\<exists>pre' t' post'. post1 @ post2 = pre' @ (i, c, t') # post' \<and> reply_after cat mb i (executed s @ pre @ (0, ?E, t) # pre') c = v"
    if lin: "linearized i c s1 v s'" for i c v
  proof -
    obtain pre2 post' t' where "executed s' = executed s1 @ pre2 @ (i, c, t') # post'" "v = reply_after cat mb i (executed s1 @ pre2) c"
      using lin by (auto simp: linearized_def)
    then have "post1 @ post2 = (post1 @ pre2) @ (i, c, t') # post'" "reply_after cat mb i (executed s @ pre @ (0, ?E, t) # (post1 @ pre2)) c = v"
      using e1 e2 by simp_all
    then show ?thesis by blast
  qed
  have "executed s' = executed s @ pre @ (0, ?E, t) # (post1 @ post2)" using e1 e2 by simp
  moreover have "\<forall>(topic, prt) \<in> set (co_partitions completion). \<exists>pre' t' post'.
         post1 @ post2 = pre' @ (shard_index b topic prt, ResolveTransactionCmd (pi_id p) commit, t') # post'"
    using rs later by fast
  moreover have "commit \<longrightarrow> (\<forall>off \<in> set (co_offsets completion). \<exists>pre' t' post'.
         post1 @ post2 = pre' @ (0, commit_command off, t') # post'
         \<and> reply_after cat mb 0 (executed s @ pre @ (0, ?E, t) # pre') (commit_command off) = Coordination (Inr Applied))"
    using os later by blast
  ultimately show ?thesis using rep [symmetric] by (intro exI [of _ pre] exI [of _ t] exI [of _ "post1 @ post2"] exI [of _ completion]) simp
qed

end

section \<open>Properties\<close>

text \<open>
  C20: ending a transaction through the facade. When it succeeds, the coordinator ended the transaction
  at one point of the execution; after that point the owning shard of every partition
  enlisted in it executed its resolution, which leaves no batch of the producer pending in that
  partition's log: all are committed, or all aborted; and on commit the coordinator accepted
  every offset enlisted in it.
\<close>

theorem end_transaction_resolves:
  assumes "shard_transport tr cat mb good executed chan posted taken" and "good s"
    and "broker_end_transaction tr b tid p commit s = (Inr (), s')"
  shows "\<exists>pre t post completion. executed s' = executed s @ pre @ (0, CoordinateCmd (EndTransaction tid p commit), t) # post
    \<and> reply_after cat mb 0 (executed s @ pre) (CoordinateCmd (EndTransaction tid p commit))
        = Coordination (Inr (TransactionCompleted completion))
    \<and> (\<forall>(topic, prt) \<in> set (co_partitions completion). \<exists>pre' t' post'.
         post = pre' @ (shard_index b topic prt, ResolveTransactionCmd (pi_id p) commit, t') # post'
         \<and> settled commit (pi_id p) (log_at mb (shard_after cat mb (shard_index b topic prt)
               ((executed s @ pre @ (0, CoordinateCmd (EndTransaction tid p commit), t) # pre')
                @ [(shard_index b topic prt, ResolveTransactionCmd (pi_id p) commit, t')])) (topic, prt)))
    \<and> (commit \<longrightarrow> (\<forall>off \<in> set (co_offsets completion). \<exists>pre' t' post'.
         post = pre' @ (0, commit_command off, t') # post'
         \<and> reply_after cat mb 0 (executed s @ pre @ (0, CoordinateCmd (EndTransaction tid p commit), t) # pre')
             (commit_command off)
           = Coordination (Inr Applied)))"
proof -
  note r = resolved_settled [of commit "pi_id p" mb cat]
  from shard_transport.end_transaction_positions [OF assms] show ?thesis
    using r by (elim exE conjE) (intro exI conjI, assumption, assumption, fast, assumption)
qed

definition demo_producer :: ProducerIdentity where
  "demo_producer = \<lparr>pi_id = 1, pi_epoch = 0\<rparr>"

text \<open>A transaction that enlists and writes one partition of the concrete broker.\<close>

definition demo_enlisted :: Sim where
  "demo_enlisted = snd (produce_transactional demo_transport demo_broker [112] demo_producer [116] 0 [datum 7]
     (snd (add_transaction_partition demo_transport demo_broker [112] demo_producer [116] 0
       (snd (broker_init_producer demo_transport demo_broker [112] sim_new)))))"

lemmas transaction_eval = demo_eval demo_producer_def demo_catalog_def broker_init_producer_def add_transaction_partition_def
  validate_transactional_produce_def produce_transactional_def broker_end_transaction_def
  on_transactions_def txn_new_def group_new_def txn_init_def add_partition_def validate_produce_def txn_end_def
  transaction_mut_def put_transaction_def bs_insert_def bt_keys_def datum_def log_eval sat_add_def saturate_def max_signed_def min_signed_def

lemma demo_enlisted_eq:
  "demo_enlisted = \<lparr>sm_executed =
     [(0, CoordinateCmd (InitProducer [112]), 2), (0, CoordinateCmd (AddPartition [112] demo_producer [116] 0), 3),
      (0, CoordinateCmd (ValidateProduce [112] demo_producer [116] 0), 4),
      (0, ProduceTransactionalCmd [116] 0 [datum 7] 1, 5)], sm_pending = [], sm_chan = 5,
     sm_posted = [(0, ProduceTransactionalCmd [116] 0 [datum 7] 1)], sm_inbox = [], sm_taken = 1, sm_clock = 4\<rparr>"
  by (simp add: demo_enlisted_def transaction_eval)

lemma demo_enlisted_good: "sim_good demo_catalog None demo_enlisted"
  unfolding demo_enlisted_def
  by (intro demo_step shard_transport.sound_produce_transactional [OF demo_is_transport]
      shard_transport.sound_coordination_ops [OF demo_is_transport] sim_new_good)

lemma demo_end:
  "\<exists>s'. broker_end_transaction demo_transport demo_broker [112] demo_producer True demo_enlisted = (Inr (), s')
     \<and> sm_executed s' = sm_executed demo_enlisted @
        [(0, CoordinateCmd (EndTransaction [112] demo_producer True), 6), (0, ResolveTransactionCmd 1 True, 7)]"
  by (simp add: demo_enlisted_eq transaction_eval)

theorem end_transaction_resolves_witness:
  "\<exists>s'. broker_end_transaction demo_transport demo_broker [112] demo_producer True demo_enlisted = (Inr (), s')
     \<and> (\<exists>pre t post completion. sm_executed s'
           = sm_executed demo_enlisted @ pre @ (0, CoordinateCmd (EndTransaction [112] demo_producer True), t) # post
         \<and> reply_after demo_catalog None 0 (sm_executed demo_enlisted @ pre) (CoordinateCmd (EndTransaction [112] demo_producer True))
             = Coordination (Inr (TransactionCompleted completion)))"
proof -
  obtain s' where e: "broker_end_transaction demo_transport demo_broker [112] demo_producer True demo_enlisted = (Inr (), s')"
    using demo_end by blast
  show ?thesis
    using end_transaction_resolves [OF demo_is_transport demo_enlisted_good e] e by blast
qed

end
