(* ===== verification/Transaction_Isolation.thy ===== *)
theory Transaction_Isolation
  imports Transaction_Facade Log_Isolation
begin

text \<open>
  Isolation of transactions across clients and shards: what read-committed fetches through the facade
  return of the records of a transactional produce, before and after its producer is resolved.
\<close>

section \<open>A transactional produce\<close>

lemma reply_after_transactional:
  "reply_after cat mb i ex (ProduceTransactionalCmd topic prt rs p) =
     (case check_partition cat topic prt of
        Inl e \<Rightarrow> Failed e
      | Inr _ \<Rightarrow> case fst (append_transactional (log_at mb (shard_after cat mb i ex) (topic, prt)) rs p) of
                   Inl e \<Rightarrow> Failed e | Inr base \<Rightarrow> Produced base)"
  by (auto simp: reply_after_def with_log_eq append_result_def case_prod_beta split: sum.splits)

text \<open>The state right after a transactional produce that was answered with a base offset.\<close>

lemma transactional_produced:
  assumes "reply_after cat mb i ex (ProduceTransactionalCmd topic prt rs p) = Produced base"
    and "int (length (partition_history cat i (topic, prt) (ex @ [(i, ProduceTransactionalCmd topic prt rs p, t)]))) \<le> max_signed 64"
  shows "check_partition cat topic prt = Inr () \<and> base = int (length (partition_history cat i (topic, prt) ex))
    \<and> partition_history cat i (topic, prt) (ex @ [(i, ProduceTransactionalCmd topic prt rs p, t)]) = partition_history cat i (topic, prt) ex @ rs
    \<and> stamped base (base + int (length rs)) (Some p) (\<lambda>s. s = Pending)
        (log_at mb (shard_after cat mb i (ex @ [(i, ProduceTransactionalCmd topic prt rs p, t)])) (topic, prt))"
proof -
  let ?H = "partition_history cat i (topic, prt) ex" and ?l = "log_at mb (shard_after cat mb i ex) (topic, prt)"
  have "int (length ?H) \<le> max_signed 64" 
    using assms(2) partition_history_mono [of cat i "(topic, prt)" ex "[(i, ProduceTransactionalCmd topic prt rs p, t)]"] by linarith
  then have rep: "represents ?H ?l" by (rule shard_represents_history)
  have ck: "check_partition cat topic prt = Inr ()" and app: "fst (append_transactional ?l rs p) = Inr base"
    using assms(1) by (auto simp: reply_after_transactional split: sum.splits)
  have rs: "length rs \<le> MAX_APPEND_RECORDS" "base = pl_next_offset ?l"
    using app by (auto simp: append_transactional_def Let_def split: if_splits)
  have h: "partition_history cat i (topic, prt) (ex @ [(i, ProduceTransactionalCmd topic prt rs p, t)]) = ?H @ rs"
    using ck rs(1) by (simp add: partition_history_append commands_of_def hist_run_def accepted_def)
  have "stamped base (base + int (length rs)) (Some p) (\<lambda>s. s = Pending) (snd (append_transactional ?l rs p))"
    using txn.app_stamps [OF rep _ app] assms(2) h rs(1) by (simp add: accepted_def)
  then show ?thesis using ck rs rep h by (simp add: log_at_later commands_of_def log_run_def represents_def)
qed

section \<open>Fetches after a transactional produce\<close>

context shard_transport
begin

lemma transactional_ok:
  assumes "good s" and "produce_transactional tr b tid p topic prt rs s = (Inr base, s1)"
  shows "linearized (shard_index b topic prt) (ProduceTransactionalCmd topic prt rs (pi_id p)) s (Produced base) s1"
    and "check_partition (br_catalog b) topic prt = Inr ()"
proof -
  obtain u s0 where v: "validate_transactional_produce tr b tid p topic prt s = (Inr u, s0)"
    and r: "cbind (ccore (check_partition (br_catalog b) topic prt)) (\<lambda>_.
       cbind (broker_call tr b topic prt (ProduceTransactionalCmd topic prt rs (pi_id p))) produced) s0 = (Inr base, s1)"
    using bind_ok [OF assms(2) [unfolded produce_transactional_def]] by blast
  have k: "keeps s s0" using soundD [OF sound_coordination_ops(3) assms(1) v] by simp
  then have g0: "good s0" by (simp add: keeps_def)
  obtain w s2 where w: "ccore (check_partition (br_catalog b) topic prt) s0 = (Inr w, s2)"
    and r': "cbind (broker_call tr b topic prt (ProduceTransactionalCmd topic prt rs (pi_id p))) produced s2 = (Inr base, s1)"
    using bind_ok [OF r] by blast
  have "s2 = s0" and "check_partition (br_catalog b) topic prt = Inr ()" using w by (auto simp: ccore_def split: sum.splits)
  then obtain v s3 where c: "broker_call tr b topic prt (ProduceTransactionalCmd topic prt rs (pi_id p)) s0 = (Inr v, s3)"
    and d: "produced v s3 = (Inr base, s1)"
    using bind_ok [OF r'] by blast
  then have "v = Produced base" "s3 = s1" by (cases v; simp add: creturn_def cfail_def)+
  then have l: "linearized (shard_index b topic prt) (ProduceTransactionalCmd topic prt rs (pi_id p)) s0 (Produced base) s1"
    using call_ok [OF g0 c] by simp
  then have "good s1" by (simp add: linearized_def keeps_def)
  from linearized_widen [OF l k keeps_refl [OF this]]
  show "linearized (shard_index b topic prt) (ProduceTransactionalCmd topic prt rs (pi_id p)) s (Produced base) s1" .
  show "check_partition (br_catalog b) topic prt = Inr ()" by fact
qed

text \<open>
  A later read-committed fetch reads the partition's log at a point of the execution after the produce.
\<close>

lemma later_fetch_point:
  assumes "good s" and "produce_transactional tr b tid p topic prt rs s = (Inr base, s1)"
    and "good s2" and "executed s2 = executed s1 @ xs"
    and "broker_fetch_with_isolation tr b topic prt off n m rc s2 = (Inr w, s3)"
    and "i = shard_index b topic prt" and "c = ProduceTransactionalCmd topic prt rs (pi_id p)"
    and "int (length (partition_history cat i (topic, prt) (executed s3))) \<le> max_signed 64"
  shows "\<exists>pre t post rd rest. executed s1 = (executed s @ pre) @ [(i, c, t)] @ post \<and> executed s3 = (executed s2 @ rd) @ rest
    \<and> reply_after cat mb i (executed s @ pre) c = Produced base
    \<and> int (length (partition_history cat i (topic, prt) (executed s2 @ rd))) \<le> max_signed 64
    \<and> fetch_with_isolation (log_at mb (shard_after cat mb i (executed s2 @ rd)) (topic, prt)) off n m rc = Inr w"
proof -
  obtain pre t post where p: "executed s1 = executed s @ pre @ (i, c, t) # post" "Produced base = reply_after cat mb i (executed s @ pre) c"
    using transactional_ok(1) [OF assms(1,2)] assms(6,7) by (auto simp: linearized_def)
  let ?f = "FetchCmd topic prt off n m rc"
  obtain rd post' where f: "executed s3 = executed s2 @ rd @ (i, ?f, chan s3) # post'"
    "Fetched w = reply_after cat mb i (executed s2 @ rd) ?f"
    using fetch_ok [OF assms(3,5)] assms(6) by (auto simp: call_outcome_def)
  have "fetch_with_isolation (log_at mb (shard_after cat mb i (executed s2 @ rd)) (topic, prt)) off n m rc = Inr w"
    using f(2) by (auto simp: reply_after_fetch split: sum.splits)
  moreover have "int (length (partition_history cat i (topic, prt) (executed s2 @ rd))) \<le> max_signed 64"
    using partition_history_mono [of cat i "(topic, prt)" "executed s2 @ rd" "(i, ?f, chan s3) # post'"] f(1) assms(8) by simp
  ultimately show ?thesis
    using p f(1)
    by (intro exI [of _ pre] exI [of _ t] exI [of _ post] exI [of _ rd] exI [of _ "(i, ?f, chan s3) # post'"]) simp
qed

end

text \<open>The history after the produce continues with its records.\<close>

lemma transactional_history:
  assumes "reply_after cat mb i ex (ProduceTransactionalCmd topic prt rs p) = Produced base"
    and "int (length (partition_history cat i (topic, prt) (ex @ [(i, ProduceTransactionalCmd topic prt rs p, t)] @ ys))) \<le> max_signed 64"
  shows "\<exists>H us. base = int (length H)
    \<and> partition_history cat i (topic, prt) (ex @ [(i, ProduceTransactionalCmd topic prt rs p, t)] @ ys) = H @ rs @ us"
proof -
  let ?ex = "ex @ [(i, ProduceTransactionalCmd topic prt rs p, t)]"
  have "int (length (partition_history cat i (topic, prt) ?ex)) \<le> max_signed 64"
    using partition_history_mono [of cat i "(topic, prt)" ?ex ys] assms(2) by simp
  from transactional_produced [OF assms(1) this] show ?thesis
    using partition_history_extends [of cat i "(topic, prt)" ?ex ys] by auto
qed

lemma uncommitted_at:
  assumes "reply_after cat mb i ex (ProduceTransactionalCmd topic prt rs p) = Produced base"
    and "int (length (partition_history cat i (topic, prt) (ex @ [(i, ProduceTransactionalCmd topic prt rs p, t)] @ ys))) \<le> max_signed 64"
    and "\<And>u. (i, ResolveTransactionCmd p True, u) \<notin> set ys"
  shows "stamped base (base + int (length rs)) (Some p) (\<lambda>s. s \<noteq> Committed)
    (log_at mb (shard_after cat mb i (ex @ [(i, ProduceTransactionalCmd topic prt rs p, t)] @ ys)) (topic, prt))"
proof -
  let ?ex = "ex @ [(i, ProduceTransactionalCmd topic prt rs p, t)]"
  have h: "int (length (partition_history cat i (topic, prt) (?ex @ ys))) \<le> max_signed 64" using assms(2) by simp
  then have "int (length (partition_history cat i (topic, prt) ?ex)) \<le> max_signed 64"
    using partition_history_mono [of cat i "(topic, prt)" ?ex ys] by linarith
  note st = transactional_produced [OF assms(1) this, THEN conjunct2, THEN conjunct2, THEN conjunct2]
  have "stamped base (base + int (length rs)) (Some p) (\<lambda>s. s \<noteq> Committed) (log_at mb (shard_after cat mb i (?ex @ ys)) (topic, prt))"
    by (rule stamped_later [OF h stamped_mono [OF st]]) (use assms(3) in \<open>auto split: if_splits\<close>)
  then show ?thesis by simp
qed

lemma committed_at:
  assumes "reply_after cat mb i ex (ProduceTransactionalCmd topic prt rs p) = Produced base"
    and "int (length (partition_history cat i (topic, prt)
           (ex @ [(i, ProduceTransactionalCmd topic prt rs p, t)] @ ys @ [(i, ResolveTransactionCmd p True, u)] @ zs))) \<le> max_signed 64"
    and "\<And>u. (i, ResolveTransactionCmd p False, u) \<notin> set zs"
  shows "stamped base (base + int (length rs)) (Some p) (\<lambda>s. s = Committed)
    (log_at mb (shard_after cat mb i (ex @ [(i, ProduceTransactionalCmd topic prt rs p, t)] @ ys @ [(i, ResolveTransactionCmd p True, u)] @ zs)) (topic, prt))"
proof -
  let ?ex = "ex @ [(i, ProduceTransactionalCmd topic prt rs p, t)]" and ?r = "[(i, ResolveTransactionCmd p True, u)]"
  let ?h = "\<lambda>ex. int (length (partition_history cat i (topic, prt) ex))"
  have h2: "?h (((?ex @ ys) @ ?r) @ zs) \<le> max_signed 64" using assms(2) by simp
  then have h1: "?h (?ex @ ys) \<le> max_signed 64" "?h ?ex \<le> max_signed 64"
    using partition_history_mono [of cat i "(topic, prt)" "?ex @ ys" "?r @ zs"] partition_history_mono [of cat i "(topic, prt)" ?ex ys]
    by simp_all
  note st = transactional_produced [OF assms(1) h1(2), THEN conjunct2, THEN conjunct2, THEN conjunct2]
  have "stamped base (base + int (length rs)) (Some p) (\<lambda>_. True) (log_at mb (shard_after cat mb i (?ex @ ys)) (topic, prt))"
    by (rule stamped_later [OF h1(1) stamped_mono [OF st]]) simp_all
  from commit_stamps [OF this, of True]
  have "stamped base (base + int (length rs)) (Some p) (\<lambda>s. s = Committed) (log_at mb (shard_after cat mb i ((?ex @ ys) @ ?r)) (topic, prt))"
    unfolding log_at_later [of mb cat i "?ex @ ys" ?r] by (simp add: commands_of_def log_run_def)
  then have "stamped base (base + int (length rs)) (Some p) (\<lambda>s. s = Committed) (log_at mb (shard_after cat mb i (((?ex @ ys) @ ?r) @ zs)) (topic, prt))"
  proof (rule stamped_later [OF h2])
    show "(if c then Committed else Aborted) = Committed" if "(i, ResolveTransactionCmd q c, v) \<in> set zs" "Some p = Some q" for q c v
      using assms(3) [of v] that by (cases c) simp_all
  qed
  then show ?thesis by simp
qed

section \<open>Acknowledged records, transactional or not\<close>

context shard_transport
begin

definition acknowledged :: "Broker \<Rightarrow> bytes \<Rightarrow> int \<Rightarrow> RecordData list \<Rightarrow> bool \<Rightarrow> int \<Rightarrow> 's \<Rightarrow> 's \<Rightarrow> bool" where
  "acknowledged b topic prt rs tx base s s1 \<longleftrightarrow>
     (if tx then \<exists>tid p. produce_transactional tr b tid p topic prt rs s = (Inr base, s1)
      else broker_produce tr b topic prt rs s = (Inr base, s1))"

lemma transactional_represented:
  assumes "good s" and "produce_transactional tr b tid p topic prt rs s = (Inr base, s1)"
    and "good s2" and "executed s2 = executed s1 @ xs"
    and "call_outcome (shard_index b topic prt) (FetchCmd topic prt off n m rc) s2 (Inr v) s3"
    and "int (length (partition_history cat (shard_index b topic prt) (topic, prt) (executed s3))) \<le> max_signed 64"
  shows "\<exists>H us l. base = int (length H) \<and> represents (H @ rs @ us) l \<and> (mb = None \<longrightarrow> start_offset l = 0)
    \<and> v = (case fetch_with_isolation l off n m rc of Inl e \<Rightarrow> Failed e | Inr w \<Rightarrow> Fetched w)"
proof -
  let ?i = "shard_index b topic prt" and ?f = "FetchCmd topic prt off n m rc" and ?c = "ProduceTransactionalCmd topic prt rs (pi_id p)"
  let ?h = "partition_history cat ?i (topic, prt)"
  obtain pre t post where p: "executed s1 = executed s @ pre @ (?i, ?c, t) # post"
    and r: "reply_after cat mb ?i (executed s @ pre) ?c = Produced base"
    using transactional_ok(1) [OF assms(1,2)] by (auto simp: linearized_def)
  obtain rd post' where f: "executed s3 = executed s2 @ rd @ (?i, ?f, chan s3) # post'" "v = reply_after cat mb ?i (executed s2 @ rd) ?f"
    using assms(5) by (auto simp: call_outcome_def)
  let ?l = "log_at mb (shard_after cat mb ?i (executed s2 @ rd)) (topic, prt)"
  have h: "int (length (?h (executed s2 @ rd))) \<le> max_signed 64"
    using partition_history_mono [of cat ?i "(topic, prt)" "executed s2 @ rd" "(?i, ?f, chan s3) # post'"] f(1) assms(6) by simp
  have e: "executed s2 @ rd = (executed s @ pre) @ [(?i, ?c, t)] @ (post @ xs @ rd)" using p assms(4) by simp
  obtain H us where H: "base = int (length H)" "?h (executed s2 @ rd) = H @ rs @ us"
    using transactional_history [OF r, of t "post @ xs @ rd"] h e by auto
  have "represents (H @ rs @ us) ?l" using shard_represents_history [OF h] H(2) by simp
  moreover have "check_partition cat topic prt = Inr ()" using r by (auto simp: reply_after_transactional split: sum.splits)
  ultimately show ?thesis
    using H(1) f(2) by (intro exI [of _ H] exI [of _ us] exI [of _ ?l]) (auto simp: reply_after_fetch unlimited_log_starts_at_zero)
qed

lemma acknowledged_fetched:
  assumes "good s" and "acknowledged b topic prt rs tx base s s1" and "good s2" and "executed s2 = executed s1 @ xs"
    and "broker_fetch_with_isolation tr b topic prt off n m rc s2 = (Inr w, s3)"
    and "int (length (partition_history cat (shard_index b topic prt) (topic, prt) (executed s3))) \<le> max_signed 64"
  shows "base + int (length rs) \<le> fw_high_watermark w
    \<and> (\<forall>rd \<in> set (fw_records w). base \<le> rec_offset rd \<and> rec_offset rd < base + int (length rs)
         \<longrightarrow> data_from_record rd = rs ! nat (rec_offset rd - base))
    \<and> (\<not> (tx \<and> rc) \<and> 0 < n \<and> base \<le> off \<and> off < base + int (length rs)
         \<longrightarrow> fw_records w \<noteq> [] \<and> rec_offset (hd (fw_records w)) = off)"
proof (cases tx)
  case True
  then obtain tid p where t: "produce_transactional tr b tid p topic prt rs s = (Inr base, s1)" using assms(2) by (auto simp: acknowledged_def)
  obtain H us l where "base = int (length H)" "represents (H @ rs @ us) l" "fetch_with_isolation l off n m rc = Inr w"
    using transactional_represented [OF assms(1) t assms(3,4) fetch_ok [OF assms(3,5)] assms(6)] unfolding fetch_reply_iff by blast
  then show ?thesis using represented_window [of H rs us l base off n m rc w] True by simp
next
  case False
  then show ?thesis using acknowledged_law [OF assms(1) _ assms(3-6)] assms(2) by (simp add: acknowledged_def)
qed

lemma acknowledged_refused:
  assumes "good s" and "acknowledged b topic prt rs tx base s s1" and "good s2" and "executed s2 = executed s1 @ xs"
    and "broker_fetch_with_isolation tr b topic prt off n m rc s2 = (Inl (Core e), s3)"
    and "int (length (partition_history cat (shard_index b topic prt) (topic, prt) (executed s3))) \<le> max_signed 64"
    and "base \<le> off" and "off \<le> base + int (length rs)"
  shows "e = OffsetOutOfRange \<and> mb \<noteq> None"
proof (cases tx)
  case True
  then obtain tid p where t: "produce_transactional tr b tid p topic prt rs s = (Inr base, s1)" using assms(2) by (auto simp: acknowledged_def)
  obtain r1 where r1: "call_outcome (shard_index b topic prt) (FetchCmd topic prt off n m rc) s2 r1 s3"
    "Inl (Core e) = (case r1 of Inl e \<Rightarrow> Inl e | Inr v \<Rightarrow> fst (fetched v s3))"
    using fetch_law [OF assms(3,5)] transactional_ok(2) [OF assms(1) t] by auto
  then obtain v where v: "r1 = Inr v" by (cases r1) (auto simp: call_outcome_def)
  then obtain H us l where H: "base = int (length H)" "represents (H @ rs @ us) l" "mb = None \<longrightarrow> start_offset l = 0"
    and w: "v = (case fetch_with_isolation l off n m rc of Inl e \<Rightarrow> Failed e | Inr w \<Rightarrow> Fetched w)"
    using transactional_represented [OF assms(1) t assms(3,4) _ assms(6)] r1(1) by blast
  have "fetch_with_isolation l off n m rc = Inl e"
    using w r1(2) v by (auto simp: cfail_def creturn_def split: sum.splits)
  from represented_refusal [OF H(2,1,3) this assms(7,8)] show ?thesis .
next
  case False
  then show ?thesis using refused_fetch [OF assms(1) _ assms(3-8)] assms(2) by (simp add: acknowledged_def)
qed

end

section \<open>Properties\<close>

text \<open>
  C5: transactional records are isolated, by producer id. After a transactional produce returned a base
  offset, a read-committed fetch of that partition, by any client and after any other traffic, returns none of its
  records as long as the partition's shard has not executed a commit of that producer id. Once it has, and no abort of the
  producer id after it, the fetch returns them: what it returns at their offsets is what was produced, and a
  fetch from one of their offsets begins with that record. The log resolves all batches of a producer id
  together and does not tell its transactions apart, so a commit or an abort of a later transaction, or one under a
  later epoch, counts as well (\<open>fenced_records_committed\<close>, \<open>later_abort_hides_committed\<close>).
\<close>

theorem transactional_records_isolated:
  assumes "shard_transport tr cat mb good executed chan posted taken" and "good s"
    and "produce_transactional tr b tid p topic prt rs s = (Inr base, s1)"
    and "good s2" and "executed s2 = executed s1 @ xs"
    and "broker_fetch_with_isolation tr b topic prt off n m True s2 = (Inr w, s3)"
    and "i = shard_index b topic prt"
    and "int (length (partition_history cat i (topic, prt) (executed s3))) \<le> max_signed 64"
  shows "((\<forall>t. (i, ResolveTransactionCmd (pi_id p) True, t) \<notin> set (drop (length (executed s)) (executed s3))) \<longrightarrow>
        (\<forall>rd \<in> set (fw_records w). \<not> (base \<le> rec_offset rd \<and> rec_offset rd < base + int (length rs))))
    \<and> (\<forall>ys t zs. xs = ys @ (i, ResolveTransactionCmd (pi_id p) True, t) # zs
          \<and> (\<forall>u. (i, ResolveTransactionCmd (pi_id p) False, u) \<notin> set (drop (length (executed s1 @ ys)) (executed s3))) \<longrightarrow>
        (\<forall>rd \<in> set (fw_records w). base \<le> rec_offset rd \<and> rec_offset rd < base + int (length rs)
           \<longrightarrow> data_from_record rd = rs ! nat (rec_offset rd - base))
      \<and> (0 < n \<and> base \<le> off \<and> off < base + int (length rs) \<longrightarrow> fw_records w \<noteq> [] \<and> rec_offset (hd (fw_records w)) = off))"
proof -
  let ?c = "ProduceTransactionalCmd topic prt rs (pi_id p)"
  obtain pre t post rd rest where e1: "executed s1 = (executed s @ pre) @ [(i, ?c, t)] @ post"
    and e3: "executed s3 = (executed s2 @ rd) @ rest"
    and r: "reply_after cat mb i (executed s @ pre) ?c = Produced base"
    and h: "int (length (partition_history cat i (topic, prt) (executed s2 @ rd))) \<le> max_signed 64"
    and f: "fetch_with_isolation (log_at mb (shard_after cat mb i (executed s2 @ rd)) (topic, prt)) off n m True = Inr w"
    using shard_transport.later_fetch_point [OF assms(1-7) refl assms(8)] by blast
  let ?l = "log_at mb (shard_after cat mb i (executed s2 @ rd)) (topic, prt)" and ?hi = "base + int (length rs)"
  have e2: "executed s2 @ rd = (executed s @ pre) @ [(i, ?c, t)] @ (post @ xs @ rd)" using e1 assms(5) by simp
  have rep: "represents (partition_history cat i (topic, prt) (executed s2 @ rd)) ?l" by (rule shard_represents_history [OF h])
  then have wf: "log_wf ?l" by (simp add: represents_def)
  have hidden: "\<not> (base \<le> rec_offset x \<and> rec_offset x < ?hi)"
    if no: "\<forall>t. (i, ResolveTransactionCmd (pi_id p) True, t) \<notin> set (drop (length (executed s)) (executed s3))"
      and x: "x \<in> set (fw_records w)" for x
  proof -
    have "(i, ResolveTransactionCmd (pi_id p) True, u) \<notin> set (post @ xs @ rd)" for u using no e1 e3 assms(5) by auto
    then have "stamped base ?hi (Some (pi_id p)) (\<lambda>s. s \<noteq> Committed) ?l" using uncommitted_at [OF r, of t "post @ xs @ rd"] h e2 by simp
    from uncommitted_hidden [OF wf this f x] show ?thesis .
  qed
  have visible: "stamped base ?hi (Some (pi_id p)) (\<lambda>s. s = Committed) ?l"
    if "xs = ys @ (i, ResolveTransactionCmd (pi_id p) True, u) # zs"
      "\<forall>u. (i, ResolveTransactionCmd (pi_id p) False, u) \<notin> set (drop (length (executed s1 @ ys)) (executed s3))" for ys u zs
  proof -
    have "(i, ResolveTransactionCmd (pi_id p) False, v) \<notin> set (zs @ rd)" for v using that e3 assms(5) by auto
    then show ?thesis using committed_at [OF r, of t "post @ ys" u "zs @ rd"] h e2 that(1) by simp
  qed
  have data: "data_from_record x = rs ! nat (rec_offset x - base)"
    if "x \<in> set (fw_records w)" "base \<le> rec_offset x" "rec_offset x < ?hi" for x
    using fetched_history [OF rep f] that transactional_history [OF r, of t "post @ xs @ rd"] h e2
    by (auto simp: nth_append nat_diff_distrib)
  show ?thesis
  proof (intro conjI allI impI ballI, goal_cases)
    case (1 x)
    then show ?case using hidden by blast
  next
    case (2 ys t zs x)
    then show ?case using data by blast
  next
    case (3 ys t zs)
    then show ?case using committed_first [OF wf visible f] by blast
  next
    case (4 ys t zs)
    then show ?case using committed_first [OF wf visible f] by blast
  qed
qed

text \<open>The concrete transaction: enlisted, written, committed, and read.\<close>

definition demo_begun :: Sim where
  "demo_begun = snd (add_transaction_partition demo_transport demo_broker [112] demo_producer [116] 0
     (snd (broker_init_producer demo_transport demo_broker [112] sim_new)))"

definition demo_committed :: Sim where
  "demo_committed = snd (broker_end_transaction demo_transport demo_broker [112] demo_producer True demo_enlisted)"

lemma demo_begun_produce:
  "produce_transactional demo_transport demo_broker [112] demo_producer [116] 0 [datum 7] demo_begun = (Inr 0, demo_enlisted)"
proof -
  have "fst (produce_transactional demo_transport demo_broker [112] demo_producer [116] 0 [datum 7] demo_begun) = Inr 0"
    by (simp add: demo_begun_def transaction_eval)
  then show ?thesis by (simp add: demo_begun_def demo_enlisted_def prod_eq_iff)
qed

lemma demo_good: "sim_good demo_catalog None demo_begun" "sim_good demo_catalog None demo_committed"
  unfolding demo_begun_def demo_committed_def
  by (intro demo_step shard_transport.sound_coordination_ops [OF demo_is_transport]
      shard_transport.sound_end_transaction [OF demo_is_transport] demo_enlisted_good sim_new_good)+

lemma demo_committed_executed:
  "sm_executed demo_committed = sm_executed demo_enlisted @
     [(0, CoordinateCmd (EndTransaction [112] demo_producer True), 6), (0, ResolveTransactionCmd 1 True, 7)]"
  using demo_end by (auto simp: demo_committed_def)

lemma demo_committed_fetch:
  "\<exists>w s3. broker_fetch_with_isolation demo_transport demo_broker [116] 0 0 10 4096 True demo_committed = (Inr w, s3)
     \<and> sm_executed s3 = sm_executed demo_committed @ [(0, FetchCmd [116] 0 0 10 4096 True, 8)]"
  by (simp add: demo_committed_def demo_enlisted_eq transaction_eval fetch_eval)

theorem transactional_records_isolated_witness:
  "\<exists>w s3. broker_fetch_with_isolation demo_transport demo_broker [116] 0 0 10 4096 True demo_committed = (Inr w, s3)
     \<and> fw_records w \<noteq> [] \<and> rec_offset (hd (fw_records w)) = 0"
proof -
  obtain w s3 where f: "broker_fetch_with_isolation demo_transport demo_broker [116] 0 0 10 4096 True demo_committed = (Inr w, s3)"
    and e: "sm_executed s3 = sm_executed demo_committed @ [(0, FetchCmd [116] 0 0 10 4096 True, 8)]"
    using demo_committed_fetch by blast
  have h: "int (length (partition_history demo_catalog 0 ([116], 0) (sm_executed s3))) \<le> max_signed 64"
    by (simp add: e demo_committed_executed demo_enlisted_eq partition_history_def commands_of_def hist_run_def check_partition_def
        partition_count_def demo_catalog_def accepted_def MAX_APPEND_RECORDS_def max_signed_def)
  note iso = transactional_records_isolated [OF demo_is_transport demo_good(1) demo_begun_produce demo_good(2) demo_committed_executed
      f demo_shard [symmetric] h]
  show ?thesis
    using f iso [THEN conjunct2, rule_format, of "[(0, CoordinateCmd (EndTransaction [112] demo_producer True), 6)]" 7 "[]"]
    by (auto simp: e demo_committed_executed demo_producer_def)
qed

end
