(* ===== verification/Coordination_Facade.thy ===== *)
theory Coordination_Facade
  imports Transaction_Facade
begin

text \<open>
  Coordination through the facade. The coordinators live on shard zero, which executes the coordination
  requests of all clients in one order. So fencing and committed offsets, shown for the
  coordinators, hold for clients that know nothing of each other.
\<close>

section \<open>The coordinators along an execution\<close>

lemma txn_trace_append:
  assumes "txn_trace c ops d" and "txn_trace d ops' e"
  shows "\<exists>ops. txn_trace c ops e"
  using assms(2,1) by (induction rule: txn_trace.induct) (auto intro: trace_snoc)

lemma command_transactions:
  "\<exists>ops. txn_trace (sh_transactions st) ops (sh_transactions (snd (handle_command cat mb c st)))"
proof -
  have step: "\<exists>ops. txn_trace (sh_transactions st) ops (sh_transactions (snd (on_transactions res f st)))"
    if "\<And>v d. f (sh_transactions st) = Inr (v, d) \<Longrightarrow> \<exists>op. txn_step (sh_transactions st) op d" for res f
    using that trace_nil trace_snoc [OF trace_nil] by (fastforce simp: on_transactions_def split: sum.splits)
  have same: "sh_transactions (snd (on_groups res g st)) = sh_transactions st" for res and g :: "GroupCoordinator \<Rightarrow> CoordinationError + 'a \<times> GroupCoordinator"
    by (auto simp: on_groups_def split: sum.splits)
  show ?thesis
  proof (cases c)
    case (CoordinateCmd rq)
    then show ?thesis
      by (cases rq) (auto simp: case_prod_beta same
          intro!: step intro: trace_nil step_init step_add_partition step_validate step_add_offset step_end)
  qed (auto simp: with_log_def Let_def case_prod_beta intro: trace_nil split: sum.splits)
qed

lemma shard_transactions_trace:
  "\<exists>ops. txn_trace (sh_transactions (shard_after cat mb i ex)) ops (sh_transactions (shard_after cat mb i (ex @ ex')))"
proof -
  have "\<exists>ops. txn_trace (sh_transactions st) ops (sh_transactions (shard_run cat mb cmds st))" for cmds st
  proof (induction cmds arbitrary: st)
    case Nil
    then show ?case using trace_nil by (auto simp: shard_run_def)
  next
    case (Cons c cmds)
    then show ?case
      using command_transactions [of st cat mb c] txn_trace_append by (fastforce simp: shard_run_def)
  qed
  then show ?thesis by (simp add: shard_after_def shard_run_def)
qed

lemma shard_transactions_wf: "txn_wf (sh_transactions (shard_after cat mb i ex))"
proof -
  have "sh_transactions (shard_after cat mb i []) = txn_new" by (simp add: shard_after_def commands_of_def shard_run_def shard_new_def)
  then show ?thesis using shard_transactions_trace [of cat mb i "[]" ex] txn_wf_trace txn_wf_new by (metis append_Nil)
qed

section \<open>Fencing\<close>

definition identity_at :: "TopicCatalog \<Rightarrow> nat option \<Rightarrow> exec \<Rightarrow> bytes \<Rightarrow> ProducerIdentity option" where
  "identity_at cat mb ex tid = current_identity (sh_transactions (shard_after cat mb 0 ex)) tid"

lemma identity_mono:
  assumes "identity_at cat mb ex tid = Some i"
  shows "\<exists>j. identity_at cat mb (ex @ ex') tid = Some j \<and> pi_epoch i \<le> pi_epoch j"
  using shard_transactions_trace [of cat mb 0 ex ex'] trace_epoch_mono shard_transactions_wf assms
  unfolding identity_at_def by metis

lemma init_reply:
  assumes "reply_after cat mb 0 ex (CoordinateCmd (InitProducer tid)) = Coordination (Inr (Producer i))"
  shows "identity_at cat mb (ex @ [(0, CoordinateCmd (InitProducer tid), t)]) tid = Some i"
    and "identity_at cat mb ex tid = Some k \<Longrightarrow> pi_epoch i = sat_add 16 (pi_epoch k) 1"
proof -
  let ?c = "sh_transactions (shard_after cat mb 0 ex)"
  obtain c' where c: "txn_init ?c tid = Inr (i, c')"
    using assms by (auto simp: reply_after_def on_transactions_def split: sum.splits)
  show "identity_at cat mb (ex @ [(0, CoordinateCmd (InitProducer tid), t)]) tid = Some i"
    using init_identity [OF c] c by (simp add: identity_at_def shard_after_snoc on_transactions_def)
  show "identity_at cat mb ex tid = Some k \<Longrightarrow> pi_epoch i = sat_add 16 (pi_epoch k) 1"
    using c by (cases rule: txn_init_cases) (auto simp: identity_at_def current_identity_def)
qed

text \<open>A second initialisation leaves a greater epoch than any the first one handed out, unless that was the last one.\<close>

lemma reinit_epoch:
  assumes "identity_at cat mb ex tid = Some i" and "pi_epoch i < max_signed 16"
    and "reply_after cat mb 0 (ex @ xs) (CoordinateCmd (InitProducer tid)) = Coordination (Inr (Producer j))"
  shows "pi_epoch i < pi_epoch j"
proof -
  obtain k where k: "identity_at cat mb (ex @ xs) tid = Some k" "pi_epoch i \<le> pi_epoch k" using identity_mono [OF assms(1)] by blast
  have "in_i16 (pi_epoch k)"
    using k(1) shard_transactions_wf [of cat mb 0 "ex @ xs"] txn_wf_lookup
    by (fastforce simp: identity_at_def current_identity_def txn_ok_def)
  then show ?thesis
    using init_reply(2) [OF assms(3) k(1)] k(2) assms(2)
    by (auto simp: sat_add_def saturate_def in_signed_def min_signed_def max_signed_def)
qed

lemma fenced_replies:
  assumes "identity_at cat mb ex tid = Some k" and "k \<noteq> i"
  shows "reply_after cat mb 0 ex (CoordinateCmd (ValidateProduce tid i topic prt)) = Coordination (Inl ProducerFenced)"
    and "reply_after cat mb 0 ex (CoordinateCmd (EndTransaction tid i commit)) = Coordination (Inl ProducerFenced)"
proof -
  have "transaction_mut (sh_transactions (shard_after cat mb 0 ex)) tid i = Inl ProducerFenced"
    using assms by (auto simp: transaction_mut_Inl identity_at_def current_identity_def)
  then show "reply_after cat mb 0 ex (CoordinateCmd (ValidateProduce tid i topic prt)) = Coordination (Inl ProducerFenced)"
    and "reply_after cat mb 0 ex (CoordinateCmd (EndTransaction tid i commit)) = Coordination (Inl ProducerFenced)"
    by (simp_all add: reply_after_def on_transactions_def validate_produce_def txn_end_def)
qed

context shard_transport
begin

lemma init_ok:
  assumes "good s" and "broker_init_producer tr b tid s = (Inr i, s1)"
  shows "linearized 0 (CoordinateCmd (InitProducer tid)) s (Coordination (Inr (Producer i))) s1"
proof -
  obtain v s0 where v: "broker_coordinate tr b (InitProducer tid) s = (Inr v, s0)"
    and r: "(case v of Producer identity \<Rightarrow> creturn identity | _ \<Rightarrow> cfail UnexpectedReply) s0 = (Inr i, s1)"
    using bind_ok [OF assms(2) [unfolded broker_init_producer_def]] by blast
  then have "v = Producer i" "s0 = s1" by (cases v; simp add: creturn_def cfail_def)+
  then show ?thesis using coordinate_law [OF assms(1) v] by simp
qed

text \<open>A request with the same reply at every point of the call: it returns that reply, or fails with an error of the transport.\<close>

lemma coordinate_answered:
  assumes "good s" and "broker_coordinate tr b rq s = (r, s')"
    and "\<And>pre rest. executed s' = executed s @ pre @ rest \<Longrightarrow>
          reply_after cat mb 0 (executed s @ pre) (CoordinateCmd rq) = Coordination w"
  shows "r = map_sum CoordinationErr (\<lambda>v. v) w \<or> r \<in> Inl ` {InvalidConfig, MailboxUnavailable, ReplyTimeout}"
proof -
  have w: "v = Coordination w" if "linearized 0 (CoordinateCmd rq) s v s'" for v
    using that assms(3) unfolding linearized_def by metis
  show ?thesis
  proof (cases r)
    case (Inl er)
    then show ?thesis using coordinate_law [OF assms(1,2)] w by fastforce
  next
    case (Inr v)
    then show ?thesis using coordinate_law [OF assms(1,2)] w by fastforce
  qed
qed

lemma coordinate_refused:
  assumes "good s" and "broker_coordinate tr b rq s = (r, s')"
    and "\<And>xs. reply_after cat mb 0 (executed s @ xs) (CoordinateCmd rq) = Coordination (Inl e)"
  shows "r \<in> Inl ` {CoordinationErr e, InvalidConfig, MailboxUnavailable, ReplyTimeout}"
  using coordinate_answered [OF assms(1,2), of "Inl e"] assms(3) by auto

text \<open>The commands a coordination request leaves on its channel: at most itself.\<close>

lemma coordinate_own:
  assumes "good s" and "broker_coordinate tr b rq s = (r, s')" and "r \<noteq> Inl InvalidConfig"
  shows "own (chan s') (executed s') \<in> {[], [(0, CoordinateCmd rq)]}"
proof -
  let ?rq = "cbind (cconfig (tp_channel tr (queue_capacity 1))) (\<lambda>_. cbind (send_coordination_with_retry tr b 0 (CoordinateCmd rq))
    (\<lambda>_. wait_reply tr b))"
  obtain r1 s1 where 1: "?rq s = (r1, s1)" by fastforce
  have o: "call_outcome 0 (CoordinateCmd rq) s r1 s1"
    using request_law [OF assms(1)] 1 unfolding send_coordination_with_retry_def wait_reply_def by blast
  have "s' = s1 \<and> (\<forall>e. r1 = Inl e \<longrightarrow> r = Inl e)"
    using assms(2) 1 unfolding broker_coordinate_def
    by (auto simp: cbind_def creturn_def cfail_def split: sum.splits prod.splits PartitionResult.splits)
  then show ?thesis using o assms(3) by (cases r1) (auto simp: call_outcome_def)
qed

text \<open>The identity a client was given is the current one when its call returns.\<close>

lemma init_identity_at:
  assumes "good s" and "broker_init_producer tr b tid s = (Inr i, s1)"
  shows "\<exists>pre t post. executed s1 = (executed s @ pre @ [(0, CoordinateCmd (InitProducer tid), t)]) @ post
    \<and> identity_at cat mb (executed s @ pre @ [(0, CoordinateCmd (InitProducer tid), t)]) tid = Some i
    \<and> reply_after cat mb 0 (executed s @ pre) (CoordinateCmd (InitProducer tid)) = Coordination (Inr (Producer i))"
proof -
  obtain pre t post where e: "executed s1 = executed s @ pre @ (0, CoordinateCmd (InitProducer tid), t) # post"
    and r: "reply_after cat mb 0 (executed s @ pre) (CoordinateCmd (InitProducer tid)) = Coordination (Inr (Producer i))"
    using init_ok [OF assms] by (auto simp: linearized_def)
  then show ?thesis using init_reply(1) [OF r, of t] by (intro exI [of _ pre] exI [of _ t] exI [of _ post]) simp
qed

lemma fenced_everywhere:
  assumes "good s" and "broker_init_producer tr b tid s = (Inr i, s1)" and "pi_epoch i < max_signed 16"
    and "good s2" and "executed s2 = executed s1 @ xs" and "broker_init_producer tr b tid s2 = (Inr j, s3)"
    and "executed s4 = executed s3 @ ys"
  shows "pi_epoch i < pi_epoch j \<and> (\<forall>zs. \<exists>k. identity_at cat mb (executed s4 @ zs) tid = Some k \<and> k \<noteq> i)"
proof -
  let ?I = "CoordinateCmd (InitProducer tid)"
  obtain pre t post where 1: "executed s1 = (executed s @ pre @ [(0, ?I, t)]) @ post"
    "identity_at cat mb (executed s @ pre @ [(0, ?I, t)]) tid = Some i"
    using init_identity_at [OF assms(1,2)] by blast
  obtain pre' t' post' where 2: "executed s3 = (executed s2 @ pre' @ [(0, ?I, t')]) @ post'"
    "identity_at cat mb (executed s2 @ pre' @ [(0, ?I, t')]) tid = Some j"
    "reply_after cat mb 0 (executed s2 @ pre') ?I = Coordination (Inr (Producer j))"
    using init_identity_at [OF assms(4,6)] by blast
  have "executed s2 @ pre' = (executed s @ pre @ [(0, ?I, t)]) @ (post @ xs @ pre')" using 1(1) assms(5) by simp
  then have lt: "pi_epoch i < pi_epoch j" using reinit_epoch [OF 1(2) assms(3)] 2(3) by metis
  have "\<exists>k. identity_at cat mb (executed s4 @ zs) tid = Some k \<and> k \<noteq> i" for zs
  proof -
    have "executed s4 @ zs = (executed s2 @ pre' @ [(0, ?I, t')]) @ (post' @ ys @ zs)" using 2(1) assms(7) by simp
    then show ?thesis using identity_mono [OF 2(2), of "post' @ ys @ zs"] lt by fastforce
  qed
  then show ?thesis using lt by blast
qed

lemma fenced_produce:
  assumes "good s" and "\<And>zs. \<exists>k. identity_at cat mb (executed s @ zs) tid = Some k \<and> k \<noteq> i"
    and "produce_transactional tr b tid i topic prt rs s = (r, s')"
  shows "r \<in> Inl ` {CoordinationErr ProducerFenced, InvalidConfig, MailboxUnavailable, ReplyTimeout}
    \<and> (r \<noteq> Inl InvalidConfig \<longrightarrow> set (own (chan s') (executed s')) \<subseteq> {(0, CoordinateCmd (ValidateProduce tid i topic prt))})"
proof -
  obtain r1 s1 where c: "broker_coordinate tr b (ValidateProduce tid i topic prt) s = (r1, s1)" by fastforce
  have 1: "r1 \<in> Inl ` {CoordinationErr ProducerFenced, InvalidConfig, MailboxUnavailable, ReplyTimeout}"
    by (rule coordinate_refused [OF assms(1) c]) (use assms(2) fenced_replies(1) in metis)
  then have "\<exists>e. r1 = Inl e \<and> r = Inl e \<and> s' = s1"
    using assms(3) c by (auto simp: produce_transactional_def validate_transactional_produce_def cbind_def)
  then show ?thesis using 1 coordinate_own [OF assms(1) c] by fastforce
qed

lemma fenced_end:
  assumes "good s" and "\<And>zs. \<exists>k. identity_at cat mb (executed s @ zs) tid = Some k \<and> k \<noteq> i"
    and "broker_end_transaction tr b tid i commit s = (r, s')"
  shows "r \<in> Inl ` {CoordinationErr ProducerFenced, InvalidConfig, MailboxUnavailable, ReplyTimeout}"
proof -
  obtain r1 s1 where c: "broker_coordinate tr b (EndTransaction tid i commit) s = (r1, s1)" by fastforce
  have "r1 \<in> Inl ` {CoordinationErr ProducerFenced, InvalidConfig, MailboxUnavailable, ReplyTimeout}"
    by (rule coordinate_refused [OF assms(1) c]) (use assms(2) fenced_replies(2) in metis)
  then show ?thesis using assms(3) c by (auto simp: broker_end_transaction_def cbind_def)
qed

end

section \<open>Committed offsets\<close>

definition offset_at :: "TopicCatalog \<Rightarrow> nat option \<Rightarrow> exec \<Rightarrow> bytes \<Rightarrow> bytes \<Rightarrow> int \<Rightarrow> int option" where
  "offset_at cat mb ex gid topic prt = stored_offset (sh_groups (shard_after cat mb 0 ex)) gid topic prt"

lemma command_groups:
  "sh_groups (snd (handle_command cat mb c st)) = sh_groups st
   \<or> (\<exists>op. group_step (sh_groups st) op (sh_groups (snd (handle_command cat mb c st)))
        \<and> (\<forall>gid n topic prt off. op = OpCommitOffset gid n topic prt off \<longrightarrow> c = CoordinateCmd (CommitOffset gid n topic prt off)))"
proof -
  have same: "sh_groups (snd (on_transactions res g st)) = sh_groups st"
    for res and g :: "TransactionCoordinator \<Rightarrow> CoordinationError + 'a \<times> TransactionCoordinator"
    by (auto simp: on_transactions_def split: sum.splits)
  show ?thesis
  proof (cases c)
    case (CoordinateCmd rq)
    show ?thesis
    proof (cases rq)
      case (CommitOffset gid n topic prt off)
      then show ?thesis
        using CoordinateCmd by (auto simp: on_groups_def split: sum.splits intro!: exI [of _ "OpCommitOffset gid n topic prt off"] gstep_commit)
    qed (use CoordinateCmd in \<open>auto simp: case_prod_beta same on_groups_def split: sum.splits
        intro: gstep_join gstep_heartbeat gstep_leave gstep_leave_any\<close>)
  qed (auto simp: with_log_def Let_def case_prod_beta split: sum.splits)
qed

lemma offset_kept:
  assumes "offset_at cat mb ex gid topic prt = Some off"
    and "\<And>n off' t. (0, CoordinateCmd (CommitOffset gid n topic prt off'), t) \<in> set ex' \<Longrightarrow> off' = off"
  shows "offset_at cat mb (ex @ ex') gid topic prt = Some off"
  using assms(2)
proof (induction ex' rule: rev_induct)
  case Nil
  then show ?case using assms(1) by simp
next
  case (snoc x xs)
  have ih: "offset_at cat mb (ex @ xs) gid topic prt = Some off" by (rule snoc.IH) (use snoc.prems in auto)
  obtain j c t where x: "x = (j, c, t)" by (cases x)
  show ?case
  proof (cases "j = 0")
    case False
    then show ?thesis using ih x by (simp add: offset_at_def shard_after_def commands_of_def flip: append_assoc)
  next
    case True
    let ?st = "shard_after cat mb 0 (ex @ xs)"
    have st: "shard_after cat mb 0 (ex @ xs @ [x]) = snd (handle_command cat mb c ?st)"
      using shard_after_snoc [of cat mb 0 "ex @ xs" c t] x True by simp
    consider "sh_groups (snd (handle_command cat mb c ?st)) = sh_groups ?st"
      | op where "group_step (sh_groups ?st) op (sh_groups (snd (handle_command cat mb c ?st)))"
        "\<forall>gid n topic prt off. op = OpCommitOffset gid n topic prt off \<longrightarrow> c = CoordinateCmd (CommitOffset gid n topic prt off)"
      using command_groups by blast
    then show ?thesis
    proof cases
      case 1
      then show ?thesis using ih by (simp add: offset_at_def st)
    next
      case (2 op)
      then have "last_commit gid topic prt (Some off) op = Some off" using snoc.prems x True by (cases op) auto
      then show ?thesis using step_stored [OF 2(1), of gid topic prt] ih by (simp add: offset_at_def st)
    qed
  qed
qed

lemma commit_reply:
  assumes "reply_after cat mb 0 ex (CoordinateCmd (CommitOffset gid n topic prt off)) = Coordination (Inr v)"
  shows "offset_at cat mb (ex @ [(0, CoordinateCmd (CommitOffset gid n topic prt off), t)]) gid topic prt = Some off"
  using assms
  by (auto simp: reply_after_def offset_at_def shard_after_snoc on_groups_def commit_offset_cases stored_offset_put bt_get_insert
      split: sum.splits)

lemma offset_reply_at:
  assumes "offset_at cat mb ex gid topic prt = Some off"
  shows "reply_after cat mb 0 ex (CoordinateCmd (FetchOffset gid topic prt)) = Coordination (Inr (OffsetValue (Some off)))"
  using assms by (auto simp: reply_after_def offset_at_def stored_offset_def on_groups_def group_offset_def split: option.splits)

context shard_transport
begin

lemma group_commit_ok:
  assumes "good s" and "commit_group_offset tr b gid n topic prt off s = (Inr (), s1)"
  shows "\<exists>v. linearized 0 (CoordinateCmd (CommitOffset gid n topic prt off)) s (Coordination (Inr v)) s1"
proof -
  obtain v s0 where v: "broker_coordinate tr b (CommitOffset gid n topic prt off) s = (Inr v, s0)" and r: "applied v s0 = (Inr (), s1)"
    using bind_ok [OF assms(2) [unfolded commit_group_offset_def]] by blast
  then have "s0 = s1" by (cases v) (simp_all add: creturn_def cfail_def)
  then show ?thesis using coordinate_law [OF assms(1) v] by auto
qed

lemma committed_offset_at:
  assumes "good s" and "commit_group_offset tr b gid n topic prt off s = (Inr (), s1)"
    and "executed s2 = executed s1 @ xs"
    and "\<And>m off' t. (0, CoordinateCmd (CommitOffset gid m topic prt off'), t)
          \<in> set (drop (length (executed s)) (executed s2 @ ys)) \<Longrightarrow> off' = off"
  shows "offset_at cat mb (executed s2 @ ys) gid topic prt = Some off"
proof -
  let ?c = "CoordinateCmd (CommitOffset gid n topic prt off)"
  obtain pre t post v where e: "executed s1 = executed s @ pre @ (0, ?c, t) # post"
    and r: "reply_after cat mb 0 (executed s @ pre) ?c = Coordination (Inr v)"
    using group_commit_ok [OF assms(1,2)] unfolding linearized_def by metis
  have "offset_at cat mb (((executed s @ pre) @ [(0, ?c, t)]) @ (post @ xs @ ys)) gid topic prt = Some off"
    by (rule offset_kept [OF commit_reply [OF r]]) (use e assms(3,4) in auto)
  then show ?thesis using e assms(3) by simp
qed

end

section \<open>What a client is promised\<close>

text \<open>C6: A zombie producer is fenced.  Once a second client has initialised a transactional id that a first client holds
  an identity for, with whatever other commands executed in between and since, the second identity has the higher epoch, and
  every transactional produce and every end of a transaction that still presents the first identity is refused: with
  \<^const>\<open>ProducerFenced\<close> unless the transport fails.  A refused produce never reaches a partition: the validation is the only
  command it leaves on its channel.  The first epoch is below the 16-bit maximum, where the increment saturates and the two identities coincide.\<close>

theorem old_producers_fenced:
  assumes "shard_transport tr cat mb good executed chan posted taken"
    and "good s" and "broker_init_producer tr b tid s = (Inr i, s1)" and "pi_epoch i < max_signed 16"
    and "good s2" and "executed s2 = executed s1 @ xs" and "broker_init_producer tr b tid s2 = (Inr j, s3)"
    and "good s4" and "executed s4 = executed s3 @ ys"
  shows "pi_epoch i < pi_epoch j
    \<and> (\<forall>topic prt rs r s'. produce_transactional tr b tid i topic prt rs s4 = (r, s') \<longrightarrow>
         r \<in> Inl ` {CoordinationErr ProducerFenced, InvalidConfig, MailboxUnavailable, ReplyTimeout}
         \<and> (r \<noteq> Inl InvalidConfig \<longrightarrow>
              set (own (chan s') (executed s')) \<subseteq> {(0, CoordinateCmd (ValidateProduce tid i topic prt))}))
    \<and> (\<forall>commit r s'. broker_end_transaction tr b tid i commit s4 = (r, s') \<longrightarrow>
         r \<in> Inl ` {CoordinationErr ProducerFenced, InvalidConfig, MailboxUnavailable, ReplyTimeout})"
proof -
  note f = shard_transport.fenced_everywhere [OF assms(1-7,9)]
  then have k: "\<exists>k. identity_at cat mb (executed s4 @ zs) tid = Some k \<and> k \<noteq> i" for zs by blast
  show ?thesis
    using f shard_transport.fenced_produce [OF assms(1,8) k] shard_transport.fenced_end [OF assms(1,8) k] by blast
qed

text \<open>C24: A committed group offset is read back.  After a commit that returned, a read of the same group, topic and
  partition in any later state answers the committed offset, or fails with an error of the transport; the answer changes only
  if a commit of a different offset for the same group and partition was executed on the coordinator's shard in between.  In
  particular no join, leave, heartbeat or commit for another partition loses it.\<close>

theorem group_offset_read_back:
  assumes "shard_transport tr cat mb good executed chan posted taken"
    and "good s" and "commit_group_offset tr b gid n topic prt off s = (Inr (), s1)"
    and "good s2" and "executed s2 = executed s1 @ xs" and "broker_group_offset tr b gid topic prt s2 = (r, s3)"
    and "\<And>m off' t. (0, CoordinateCmd (CommitOffset gid m topic prt off'), t)
          \<in> set (drop (length (executed s)) (executed s3)) \<Longrightarrow> off' = off"
  shows "r \<in> {Inr (Some off), Inl InvalidConfig, Inl MailboxUnavailable, Inl ReplyTimeout}"
proof -
  let ?F = "CoordinateCmd (FetchOffset gid topic prt)"
  obtain v sv where c: "broker_coordinate tr b (FetchOffset gid topic prt) s2 = (v, sv)" by fastforce
  have sv: "sv = s3"
    using assms(6) c by (auto simp: broker_group_offset_def cbind_def creturn_def cfail_def split: sum.splits CoordinationResult.splits)
  have at: "reply_after cat mb 0 (executed s2 @ pre) ?F = Coordination (Inr (OffsetValue (Some off)))"
    if "executed sv = executed s2 @ pre @ rest" for pre rest
    by (rule offset_reply_at, rule shard_transport.committed_offset_at [OF assms(1-3,5)])
      (use assms(7) that sv in auto)
  have "v = Inr (OffsetValue (Some off)) \<or> v \<in> Inl ` {InvalidConfig, MailboxUnavailable, ReplyTimeout}"
    using shard_transport.coordinate_answered [OF assms(1,4) c at] by auto
  then show ?thesis using sv c assms(6) by (auto simp: broker_group_offset_def cbind_def creturn_def cfail_def)
qed

text \<open>The concrete runs: two clients of one transactional id, and a consumer that commits and leaves.\<close>

definition demo_successor :: ProducerIdentity where
  "demo_successor = \<lparr>pi_id = 1, pi_epoch = 1\<rparr>"

definition demo_first :: Sim where
  "demo_first = snd (broker_init_producer demo_transport demo_broker [112] sim_new)"

definition demo_second :: Sim where
  "demo_second = snd (broker_init_producer demo_transport demo_broker [112] demo_first)"

lemma demo_inits:
  "broker_init_producer demo_transport demo_broker [112] sim_new = (Inr demo_producer, demo_first)"
  "broker_init_producer demo_transport demo_broker [112] demo_first = (Inr demo_successor, demo_second)"
  by (simp_all add: demo_second_def demo_first_def demo_successor_def transaction_eval)

lemma demo_inits_good: "sim_good demo_catalog None demo_first" "sim_good demo_catalog None demo_second"
  unfolding demo_first_def demo_second_def
  by (intro demo_step shard_transport.sound_coordination_ops [OF demo_is_transport] sim_new_good)+

theorem old_producers_fenced_witness:
  "\<exists>r s'. produce_transactional demo_transport demo_broker [112] demo_producer [116] 0 [datum 7] demo_second = (r, s')
     \<and> r \<in> Inl ` {CoordinationErr ProducerFenced, InvalidConfig, MailboxUnavailable, ReplyTimeout}"
proof -
  obtain r s' where p: "produce_transactional demo_transport demo_broker [112] demo_producer [116] 0 [datum 7] demo_second = (r, s')"
    by fastforce
  have "pi_epoch demo_producer < max_signed 16" by (simp add: demo_producer_def max_signed_def)
  from old_producers_fenced [OF demo_is_transport sim_new_good demo_inits(1) this demo_inits_good(1) _ demo_inits(2) demo_inits_good(2),
      of "[]" "[]"] show ?thesis
    using p by auto
qed

definition demo_joined :: Sim where
  "demo_joined = snd (broker_join_group demo_transport demo_broker [103] [109] [[116]] sim_new)"

definition demo_offset :: Sim where
  "demo_offset = snd (commit_group_offset demo_transport demo_broker [103] 1 [116] 0 5 demo_joined)"

definition demo_left :: Sim where
  "demo_left = snd (leave_group_any demo_transport demo_broker [103] [109] demo_offset)"

lemma demo_partitions: "all_partitions \<lparr>tc_topics = [([116], 1)]\<rparr> = [([116], 0)]"
  by (simp add: all_partitions_def catalog_metadata_def)

definition demo_group :: "(bytes \<times> GroupMember) list \<Rightarrow> int \<Rightarrow> ((bytes \<times> int) \<times> int) list \<Rightarrow> GroupCoordinator" where
  "demo_group members generation offs = \<lparr>gc_groups = [([103], \<lparr>gr_generation = generation, gr_members = members,
     gr_assignments = [\<lparr>ga_member_id = [109], ga_partitions = [([116], 0)]\<rparr>], gr_offsets = offs\<rparr>)]\<rparr>"

definition demo_member :: GroupMember where
  "demo_member = \<lparr>gm_subscriptions = [[116]], gm_generation = 1, gm_alive = True\<rparr>"

lemma demo_group_run:
  "group_join \<lparr>gc_groups = []\<rparr> [103] [109] [[116]] [([116], 0)]
     = Inr ((1, [\<lparr>ga_member_id = [109], ga_partitions = [([116], 0)]\<rparr>]), demo_group [([109], demo_member)] 1 [])"
  "commit_offset (demo_group [([109], demo_member)] 1 []) [103] 1 [116] 0 5
     = Inr ((), demo_group [([109], demo_member)] 1 [(([116], 0), 5)])"
  "leave_any (demo_group [([109], demo_member)] 1 [(([116], 0), 5)]) [103] [109] = Inr ((), demo_group [] 2 [(([116], 0), 5)])"
  "group_offset (demo_group [] 2 [(([116], 0), 5)]) [103] [116] 0 = Inr (Some 5)"
  by (simp_all add: group_join_def commit_offset_def leave_any_def group_offset_def put_group_def empty_group_def next_generation_def
      sat_add_def saturate_def min_signed_def max_signed_def assign_partitions_def assign_one_def eligible_def bt_keys_def
      bt_values_def Let_def demo_group_def demo_member_def)

lemmas group_eval = demo_eval demo_catalog_def txn_new_def group_new_def broker_join_group_def commit_group_offset_def
  leave_group_any_def broker_group_offset_def on_groups_def demo_partitions demo_group_run

lemma demo_joined_eq:
  "demo_joined = \<lparr>sm_executed = [(0, CoordinateCmd (JoinGroupReq [103] [109] [[116]] [([116], 0)]), 2)], sm_pending = [], sm_chan = 2,
     sm_posted = [(0, CoordinateCmd (JoinGroupReq [103] [109] [[116]] [([116], 0)]))], sm_inbox = [], sm_taken = 1, sm_clock = 1\<rparr>"
  by (simp add: demo_joined_def group_eval)

lemma demo_commit: "commit_group_offset demo_transport demo_broker [103] 1 [116] 0 5 demo_joined = (Inr (), demo_offset)"
proof -
  have "fst (commit_group_offset demo_transport demo_broker [103] 1 [116] 0 5 demo_joined) = Inr ()"
    by (simp add: demo_joined_eq group_eval)
  then show ?thesis by (simp add: demo_offset_def prod_eq_iff)
qed

lemma demo_offset_good: "sim_good demo_catalog None demo_joined" "sim_good demo_catalog None demo_left"
  unfolding demo_joined_def demo_left_def demo_offset_def
  by (intro demo_step shard_transport.sound_coordination_ops [OF demo_is_transport] sim_new_good)+

lemma demo_left_run:
  "sm_executed demo_left = sm_executed demo_offset @ [(0, CoordinateCmd (LeaveGroupAny [103] [109]), 4)]"
  "\<exists>s'. broker_group_offset demo_transport demo_broker [103] [116] 0 demo_left = (Inr (Some 5), s')
     \<and> sm_executed s' = sm_executed demo_joined @ [(0, CoordinateCmd (CommitOffset [103] 1 [116] 0 5), 3),
         (0, CoordinateCmd (LeaveGroupAny [103] [109]), 4), (0, CoordinateCmd (FetchOffset [103] [116] 0), 5)]"
  by (simp_all add: demo_left_def demo_offset_def demo_joined_eq group_eval)

theorem group_offset_read_back_witness:
  "\<exists>r s'. broker_group_offset demo_transport demo_broker [103] [116] 0 demo_left = (r, s')
     \<and> r \<in> {Inr (Some 5), Inl InvalidConfig, Inl MailboxUnavailable, Inl ReplyTimeout}"
proof -
  obtain r s' where f: "broker_group_offset demo_transport demo_broker [103] [116] 0 demo_left = (r, s')"
    and e: "sm_executed s' = sm_executed demo_joined @ [(0, CoordinateCmd (CommitOffset [103] 1 [116] 0 5), 3),
         (0, CoordinateCmd (LeaveGroupAny [103] [109]), 4), (0, CoordinateCmd (FetchOffset [103] [116] 0), 5)]"
    using demo_left_run(2) by blast
  have "r \<in> {Inr (Some 5), Inl InvalidConfig, Inl MailboxUnavailable, Inl ReplyTimeout}"
    by (rule group_offset_read_back [OF demo_is_transport demo_offset_good(1) demo_commit demo_offset_good(2) demo_left_run(1) f])
      (auto simp: e)
  then show ?thesis using f by blast
qed

end
