(* ===== verification/Broker_Liveness.thy ===== *)
theory Broker_Liveness
  imports Broker_Properties
begin

text \<open>
  When facade calls return a result. The laws of \<open>shard_transport\<close> also hold of a transport that never
  delivers anything; a responsive transport in addition takes a command after a bounded number of
  parks and answers it after a bounded number of further ones, as long as the shard runs. On
  such a transport a call whose retry budget covers these bounds completes.

  \<open>fair_transport\<close> is one: the scheduled transport that gives every shard a turn at every park.
\<close>

section \<open>Responsive transports\<close>

text \<open>
  \<open>ready n m i s\<close>: within \<open>n\<close> parks shard \<open>i\<close> has room for a command, and it answers one within \<open>m\<close>
  parks after taking it. \<open>due m s\<close>: a reply arrives within \<open>m\<close> parks.
\<close>

locale responsive_transport =
  shard_transport tr cat mb good executed chan posted taken
  for tr :: "'s Transport" and cat mb good executed chan posted taken +
  fixes ready :: "nat \<Rightarrow> nat \<Rightarrow> nat \<Rightarrow> 's \<Rightarrow> bool" and due :: "nat \<Rightarrow> 's \<Rightarrow> bool"
  assumes opens: "good s \<Longrightarrow> ready n m i s \<Longrightarrow> 2 \<le> k \<Longrightarrow> \<exists>s'. tp_channel tr k s = (True, s') \<and> ready n m i s'"
    and admits: "good s \<Longrightarrow> ready 0 m i s \<Longrightarrow> fst (tp_try_send tr i c s)"
    and drains: "good s \<Longrightarrow> ready (Suc n) m i s \<Longrightarrow> tp_try_send tr i c s = (False, s') \<Longrightarrow> ready n m i (tp_park tr k s')"
    and takes: "good s \<Longrightarrow> ready n m i s \<Longrightarrow> posted s = [] \<Longrightarrow> tp_try_send tr i c s = (True, s') \<Longrightarrow> due m s'"
    and arrives: "good s \<Longrightarrow> due 0 s \<Longrightarrow> fst (tp_try_recv tr s) \<noteq> None"
    and nears: "good s \<Longrightarrow> due (Suc m) s \<Longrightarrow> tp_try_recv tr s = (None, s') \<Longrightarrow> due m (tp_park tr k s')"
begin

lemma send_completes:
  "good s \<Longrightarrow> ready n m i s \<Longrightarrow> posted s = [] \<Longrightarrow> n < q \<Longrightarrow> \<exists>s'. send_loop q tr k i c s = (Inr (), s') \<and> due m s'"
proof (induction q arbitrary: n s)
  case (Suc q)
  obtain ok s1 where s1: "tp_try_send tr i c s = (ok, s1)" by fastforce
  show ?case
  proof (cases ok)
    case True
    then show ?thesis using takes [OF Suc.prems(1-3)] s1 by simp
  next
    case False
    have "n \<noteq> 0" using admits [OF Suc.prems(1), of m i c] Suc.prems(2) s1 False by (intro notI) simp
    then obtain n' where n: "n = Suc n'" using not0_implies_Suc by blast
    have f: "good s1" "posted s1 = posted s" using send_fail [OF Suc.prems(1), of i c s1] s1 False by simp_all
    have g: "good (tp_park tr k s1)" "posted (tp_park tr k s1) = []" using f parked [of s1 k] Suc.prems(3) by simp_all
    have "ready n' m i (tp_park tr k s1)" using drains [OF Suc.prems(1), of n' m i c s1] Suc.prems(2) n s1 False by simp
    from Suc.IH [OF g(1) this g(2)] show ?thesis using Suc.prems(4) n s1 False by simp
  qed
qed simp

lemma reply_arrives: "good s \<Longrightarrow> due m s \<Longrightarrow> m < q \<Longrightarrow> \<exists>v s'. reply_loop q tr k s = (Inr v, s')"
proof (induction q arbitrary: m s)
  case (Suc q)
  obtain a s1 where s1: "tp_try_recv tr s = (a, s1)" by fastforce
  show ?case
  proof (cases a)
    case None
    have "m \<noteq> 0" using arrives [OF Suc.prems(1)] Suc.prems(2) s1 None by (intro notI) simp
    then obtain m' where m: "m = Suc m'" using not0_implies_Suc by blast
    have g: "good (tp_park tr k s1)" using recv_none [OF Suc.prems(1)] parked [of s1 k] s1 None by simp
    have "due m' (tp_park tr k s1)" using nears [OF Suc.prems(1), of m' s1] Suc.prems(2) m s1 None by simp
    from Suc.IH [OF g this] show ?thesis using Suc.prems(3) m s1 None by simp
  qed (use s1 in simp)
qed simp

lemma request_completes:
  assumes "good s" and "ready n m i s" and "n < q" and "m < q" and "2 \<le> k"
  shows "\<exists>v s'. cbind (cconfig (tp_channel tr k)) (\<lambda>_. cbind (send_loop q tr pk i c) (\<lambda>_. reply_loop q tr pk)) s = (Inr v, s')"
proof -
  obtain s1 where s1: "tp_channel tr k s = (True, s1)" "ready n m i s1" using opens [OF assms(1,2,5)] by blast
  have g1: "good s1" "posted s1 = []" using channel_ok [OF assms(1) s1(1)] by simp_all
  obtain s2 where s2: "send_loop q tr pk i c s1 = (Inr (), s2)" "due m s2"
    using send_completes [OF g1(1) s1(2) g1(2) assms(3)] by blast
  have "good s2" using send_loop_law [OF g1(1) s2(1)] by (simp add: same_channel_def keeps_def)
  from reply_arrives [OF this s2(2) assms(4)] show ?thesis using s1 s2 by (auto simp: cbind_def cconfig_def)
qed

text \<open>A completed call returns the reply of the shard at the point where it executed the command.\<close>

lemma call_completes:
  assumes "good s" and "ready n m (shard_index b topic prt) s"
    and "n < max (br_max_retries b) 1" and "m < max (br_max_retries b) 1"
  shows "\<exists>pre post s'. executed s' = executed s @ pre @ (shard_index b topic prt, c, chan s') # post
    \<and> broker_call tr b topic prt c s = (Inr (reply_after cat mb (shard_index b topic prt) (executed s @ pre) c), s')"
proof -
  obtain v s' where v: "broker_call tr b topic prt c s = (Inr v, s')"
    using request_completes [OF assms] unfolding broker_call_def send_with_retry_def wait_reply_def
    by (fastforce)
  then show ?thesis using call_law [OF assms(1) v] by (auto simp: call_outcome_def)
qed

lemma coordinate_completes:
  assumes "good s" and "ready n m 0 s" and "n < max (br_max_retries b) 1" and "m < max (br_max_retries b) 1"
  shows "\<exists>pre post s'. executed s' = executed s @ pre @ (0, CoordinateCmd request, chan s') # post
    \<and> broker_coordinate tr b request s
        = (map_sum CoordinationErr id (fst (shard_coordinate request (shard_after cat mb 0 (executed s @ pre)))), s')"
proof -
  let ?f = "cbind (cconfig (tp_channel tr (queue_capacity 1))) (\<lambda>_.
    cbind (send_loop (max (br_max_retries b) 1) tr (br_park_timeout b) 0 (CoordinateCmd request))
      (\<lambda>_. reply_loop (max (br_max_retries b) 1) tr (br_park_timeout b)))"
  obtain v s' where v: "?f s = (Inr v, s')"
    using request_completes [OF assms] by (fastforce)
  obtain pre post where e: "executed s' = executed s @ pre @ (0, CoordinateCmd request, chan s') # post"
    and r: "v = reply_after cat mb 0 (executed s @ pre) (CoordinateCmd request)"
    using request_law [OF assms(1) v] by (auto simp: call_outcome_def)
  have "v = Coordination (fst (shard_coordinate request (shard_after cat mb 0 (executed s @ pre))))"
    using r by (simp add: reply_after_def case_prod_beta)
  then have "broker_coordinate tr b request s
      = (map_sum CoordinationErr id (fst (shard_coordinate request (shard_after cat mb 0 (executed s @ pre)))), s')"
    using v unfolding broker_coordinate_def send_coordination_with_retry_def wait_reply_def
    by (auto simp: cbind_def creturn_def cfail_def split: sum.splits prod.splits)
  then show ?thesis using e by blast
qed

end

section \<open>Fair rounds\<close>

text \<open>The scheduled transport with mailboxes for \<open>Suc cap\<close> commands in which a park gives each of \<open>n\<close> shards one turn.\<close>

definition fair_transport :: "TopicCatalog \<Rightarrow> nat option \<Rightarrow> nat \<Rightarrow> nat \<Rightarrow> Sim Transport" where
  "fair_transport cat mb cap n = sim_transport cat mb (Suc cap) (\<lambda>_. map Turn [0..<n])"

definition queue :: "nat \<Rightarrow> Sim \<Rightarrow> exec" where
  "queue i s = filter (\<lambda>(j, c, t). j = i) (sm_pending s)"

lemma find_filter: "find P xs = (case filter P xs of [] \<Rightarrow> None | x # _ \<Rightarrow> Some x)"
  by (induction xs) auto

lemma queue_shard: "x \<in> set (queue i s) \<Longrightarrow> fst x = i"
  by (auto simp: queue_def)

lemma turn_eq:
  "sim_turn cat mb i s =
     (if halted i s then s
      else case queue i s of [] \<Rightarrow> s
      | (j, c, t) # _ \<Rightarrow> s\<lparr>sm_executed := sm_executed s @ [(i, c, t)], sm_pending := remove1 (i, c, t) (sm_pending s),
          sm_inbox := (if t = sm_chan s then sm_inbox s @ [reply_after cat mb i (sm_executed s) c] else sm_inbox s)\<rparr>)"
  by (auto simp: sim_turn_def find_filter queue_def split: list.splits)

lemma turn_chan [simp]: "sm_chan (sim_turn cat mb i s) = sm_chan s"
  by (simp add: turn_eq split: list.splits)

lemma turn_queue: "queue j (sim_turn cat mb i s) = (if j = i \<and> \<not> halted i s then tl (queue i s) else queue j s)"
proof (cases "halted i s \<or> queue i s = []")
  case True
  then show ?thesis by (auto simp: turn_eq)
next
  case False
  then obtain c t q where q: "queue i s = (i, c, t) # q" using queue_shard by (metis fst_conv list.exhaust list.set_intros(1) surj_pair)
  have "queue j (sim_turn cat mb i s) = remove1 (i, c, t) (queue j s)"
    using q False by (simp add: turn_eq queue_def filter_remove1)
  moreover have "(i, c, t) \<notin> set (queue j s)" if "j \<noteq> i" using that queue_shard by fastforce
  ultimately show ?thesis using q False by (auto simp: remove1_idem)
qed

lemma turn_halted:
  "halted j (sim_turn cat mb i s) \<longleftrightarrow>
     halted j s \<or> j = i \<and> queue i s \<noteq> [] \<and> \<not> halted i s \<and> fst (snd (hd (queue i s))) = ShutdownCmd"
  by (auto simp: turn_eq halted_def split: list.splits)

lemma turn_inbox: "sm_inbox s \<noteq> [] \<Longrightarrow> sm_inbox (sim_turn cat mb i s) \<noteq> []"
  by (simp add: turn_eq split: list.splits)

lemma turn_replies:
  "\<not> halted i s \<Longrightarrow> queue i s = (j, c, sm_chan s) # q \<Longrightarrow> sm_inbox (sim_turn cat mb i s) \<noteq> []"
  by (simp add: turn_eq)

lemma rounds_keep:
  "sm_chan (fold (sim_turn cat mb) xs s) = sm_chan s"
  "sm_inbox s \<noteq> [] \<Longrightarrow> sm_inbox (fold (sim_turn cat mb) xs s) \<noteq> []"
  "i \<notin> set xs \<Longrightarrow> queue i (fold (sim_turn cat mb) xs s) = queue i s"
  "i \<notin> set xs \<Longrightarrow> halted i (fold (sim_turn cat mb) xs s) = halted i s"
  by (induction xs arbitrary: s) (auto simp: turn_queue turn_halted turn_inbox)

text \<open>In a whole round a running shard takes exactly the first command of its mailbox.\<close>

lemma round_of:
  assumes "i < n" and "\<not> halted i s"
  shows "queue i (fold (sim_turn cat mb) [0..<n] s) = tl (queue i s)"
    and "halted i (fold (sim_turn cat mb) [0..<n] s) \<longleftrightarrow> queue i s \<noteq> [] \<and> fst (snd (hd (queue i s))) = ShutdownCmd"
    and "queue i s = (i, c, sm_chan s) # q \<Longrightarrow> sm_inbox (fold (sim_turn cat mb) [0..<n] s) \<noteq> []"
proof -
  have xs: "[0..<n] = [0..<i] @ i # [Suc i..<n]"
    using upt_add_eq_append [of 0 i "n - i"] upt_conv_Cons [OF assms(1)] assms(1) by simp
  let ?s = "fold (sim_turn cat mb) [0..<i] s"
  have pre: "queue i ?s = queue i s" "halted i ?s = halted i s" "sm_chan ?s = sm_chan s" by (simp_all add: rounds_keep)
  show "queue i (fold (sim_turn cat mb) [0..<n] s) = tl (queue i s)"
    using pre assms(2) by (simp add: xs rounds_keep turn_queue)
  show "halted i (fold (sim_turn cat mb) [0..<n] s) \<longleftrightarrow> queue i s \<noteq> [] \<and> fst (snd (hd (queue i s))) = ShutdownCmd"
    using pre assms(2) by (simp add: xs rounds_keep turn_halted)
  show "sm_inbox (fold (sim_turn cat mb) [0..<n] s) \<noteq> []" if "queue i s = (i, c, sm_chan s) # q"
    using pre assms(2) turn_replies [of i ?s] that by (simp add: xs rounds_keep)
qed

text \<open>
  A shard is ready when it runs and no shutdown waits in its mailbox; a reply is due when it is in the
  inbox, or when its command has a place in the mailbox of a running shard.
\<close>

definition serving :: "exec \<Rightarrow> bool" where
  "serving q \<longleftrightarrow> list_all (\<lambda>(i, c, t). c \<noteq> ShutdownCmd) q"

definition fair_ready :: "nat \<Rightarrow> nat \<Rightarrow> nat \<Rightarrow> nat \<Rightarrow> nat \<Rightarrow> Sim \<Rightarrow> bool" where
  "fair_ready shards cap n m i s \<longleftrightarrow> i < shards \<and> \<not> halted i s \<and> serving (queue i s)
     \<and> length (queue i s) \<le> n + cap \<and> cap < m"

definition fair_due :: "nat \<Rightarrow> nat \<Rightarrow> Sim \<Rightarrow> bool" where
  "fair_due shards m s \<longleftrightarrow> sm_inbox s \<noteq> [] \<or>
     (\<exists>i k. i < shards \<and> k < m \<and> \<not> halted i s \<and> k < length (queue i s) \<and> snd (snd (queue i s ! k)) = sm_chan s
        \<and> serving (take k (queue i s)))"

lemma fair_park:
  "tp_park (fair_transport cat mb cap n) k s = (fold (sim_turn cat mb) [0..<n] s)\<lparr>sm_clock := Suc (sm_clock s)\<rparr>"
proof -
  have "(\<lambda>i. sim_act cat mb (Suc cap) (Turn i)) = sim_turn cat mb" by (rule ext) (rule ext, simp)
  then show ?thesis by (simp add: fair_transport_def sim_transport_def fold_map comp_def)
qed

lemma clock_irrelevant [simp]:
  "queue i (s\<lparr>sm_clock := k\<rparr>) = queue i s" "halted i (s\<lparr>sm_clock := k\<rparr>) = halted i s"
  by (simp_all add: queue_def halted_def)

lemma due_nears:
  assumes "fair_due n (Suc m) s" and "sm_inbox s = []"
  shows "fair_due n m ((fold (sim_turn cat mb) [0..<n] s)\<lparr>sm_clock := k\<rparr>)"
proof -
  obtain i p where i: "i < n" "p < Suc m" "\<not> halted i s" "p < length (queue i s)" "snd (snd (queue i s ! p)) = sm_chan s"
    "serving (take p (queue i s))"
    using assms by (auto simp: fair_due_def)
  then obtain c t q where q: "queue i s = (i, c, t) # q" using queue_shard [of _ i s] by (cases "queue i s") fastforce+
  let ?r = "fold (sim_turn cat mb) [0..<n] s"
  show ?thesis
  proof (cases p)
    case 0
    then have "sm_inbox ?r \<noteq> []" using round_of(3) [OF i(1,3), of c q] q i(5) by simp
    then show ?thesis by (simp add: fair_due_def)
  next
    case (Suc p')
    then have "\<not> halted i ?r" "queue i ?r = q" using round_of(1,2) [OF i(1,3)] q i(6) by (auto simp: serving_def)
    moreover have "snd (snd (q ! p')) = sm_chan ?r" "serving (take p' q)" "p' < length q"
      using q i(4-6) Suc by (auto simp: rounds_keep serving_def)
    ultimately show ?thesis using i(1,2) Suc by (auto simp: fair_due_def)
  qed
qed

interpretation fair: responsive_transport "fair_transport cat mb cap shards" cat mb "sim_good cat mb"
  sm_executed sm_chan sm_posted sm_taken "fair_ready shards cap" "fair_due shards" for cat mb cap shards
proof (intro responsive_transport.intro responsive_transport_axioms.intro)
  let ?tr = "fair_transport cat mb cap shards"
  show "shard_transport ?tr cat mb (sim_good cat mb) sm_executed sm_chan sm_posted sm_taken"
    unfolding fair_transport_def by (rule sim.shard_transport_axioms)
  fix s s' :: Sim and n m i k c
  show "fair_ready shards cap n m i s \<Longrightarrow> 2 \<le> k \<Longrightarrow> \<exists>s'. tp_channel ?tr k s = (True, s') \<and> fair_ready shards cap n m i s'"
    by (simp add: fair_transport_def sim_transport_def fair_ready_def queue_def halted_def)
  show "fair_ready shards cap 0 m i s \<Longrightarrow> fst (tp_try_send ?tr i c s)"
    by (simp add: fair_transport_def sim_transport_def fair_ready_def mailbox_full_def queue_def)
  show "fair_ready shards cap n m i (tp_park ?tr k s')"
    if r: "fair_ready shards cap (Suc n) m i s" and f: "tp_try_send ?tr i c s = (False, s')"
  proof -
    have s': "s' = s" and full: "queue i s \<noteq> []"
      using f r by (auto simp: fair_transport_def sim_transport_def fair_ready_def mailbox_full_def queue_def split: if_splits)
    have i: "i < shards" "\<not> halted i s" using r by (simp_all add: fair_ready_def)
    show ?thesis
      unfolding fair_park s' fair_ready_def clock_irrelevant round_of(1,2) [OF i]
      using r full by (cases "queue i s") (auto simp: fair_ready_def serving_def)
  qed
  show "fair_due shards m s'" if r: "fair_ready shards cap n m i s" and f: "tp_try_send ?tr i c s = (True, s')"
  proof -
    have s': "s' = sim_enqueue i c (sm_chan s) (s\<lparr>sm_posted := sm_posted s @ [(i, c)]\<rparr>)" and room: "length (queue i s) \<le> cap"
      using f by (auto simp: fair_transport_def sim_transport_def mailbox_full_def queue_def split: if_splits)
    have "queue i s' = queue i s @ [(i, c, sm_chan s')]" "halted i s' = halted i s"
      by (simp_all add: s' queue_def sim_enqueue_def halted_def)
    then show ?thesis
      using r room unfolding fair_due_def fair_ready_def
      by (intro disjI2 exI [of _ i] exI [of _ "length (queue i s)"]) simp
  qed
  show "fair_due shards 0 s \<Longrightarrow> fst (tp_try_recv ?tr s) \<noteq> None"
    by (auto simp: fair_due_def fair_transport_def sim_transport_def split: list.splits)
  show "fair_due shards m (tp_park ?tr k s')" if "fair_due shards (Suc m) s" and "tp_try_recv ?tr s = (None, s')"
  proof -
    have "s' = s" "sm_inbox s = []" using that(2) by (auto simp: fair_transport_def sim_transport_def split: list.splits)
    then show ?thesis using due_nears [OF that(1)] by (simp add: fair_park)
  qed
qed

section \<open>Answers of the data operations\<close>

lemma produce_answer:
  assumes "check_partition (br_catalog b) topic prt = Inr ()" and "br_catalog b = cat"
    and "broker_call tr b topic prt (ProduceCmd topic prt rs) s = (Inr (reply_after cat mb i ex (ProduceCmd topic prt rs)), s')"
  shows "broker_produce tr b topic prt rs s
    = (map_sum Core id (fst (append_data (log_at mb (shard_after cat mb i ex) (topic, prt)) rs)), s')"
  using assms by (auto simp: broker_produce_def cbind_def ccore_def reply_after_produce creturn_def cfail_def split: sum.splits)

lemma fetch_answer:
  assumes "check_partition (br_catalog b) topic prt = Inr ()" and "br_catalog b = cat"
    and "broker_call tr b topic prt (FetchCmd topic prt off k l rc) s
      = (Inr (reply_after cat mb i ex (FetchCmd topic prt off k l rc)), s')"
  shows "broker_fetch_with_isolation tr b topic prt off k l rc s
    = (map_sum Core id (fetch_with_isolation (log_at mb (shard_after cat mb i ex) (topic, prt)) off k l rc), s')"
  using assms by (auto simp: broker_fetch_with_isolation_def cbind_def ccore_def reply_after_fetch creturn_def cfail_def split: sum.splits)

section \<open>Properties\<close>

text \<open>
  C8: calls complete. On a transport that takes a command within \<open>n\<close> parks and answers it within \<open>m\<close>
  more, with a retry budget above both, a produce and a fetch of a partition of the catalog and
  every coordination request return: not with a full mailbox or a timeout, but with exactly the
  result, or the error, that the log or the coordinator gives at the point
  between call and return where the shard executed the command.
\<close>

theorem ready_calls_complete:
  assumes "responsive_transport tr cat mb good executed chan posted taken ready due" and "good s"
    and "br_catalog b = cat" and "n < max (br_max_retries b) 1" and "m < max (br_max_retries b) 1"
  shows "(ready n m (shard_index b topic prt) s \<and> check_partition cat topic prt = Inr () \<longrightarrow>
      (\<exists>pre post s'. executed s' = executed s @ pre @ (shard_index b topic prt, ProduceCmd topic prt rs, chan s') # post
         \<and> broker_produce tr b topic prt rs s
             = (map_sum Core id (fst (append_data (log_at mb (shard_after cat mb (shard_index b topic prt) (executed s @ pre)) (topic, prt)) rs)), s'))
    \<and> (\<exists>pre post s'. executed s' = executed s @ pre @ (shard_index b topic prt, FetchCmd topic prt off k l rc, chan s') # post
         \<and> broker_fetch_with_isolation tr b topic prt off k l rc s
             = (map_sum Core id (fetch_with_isolation (log_at mb (shard_after cat mb (shard_index b topic prt) (executed s @ pre)) (topic, prt)) off k l rc), s')))
    \<and> (ready n m 0 s \<longrightarrow>
      (\<exists>pre post s'. executed s' = executed s @ pre @ (0, CoordinateCmd request, chan s') # post
         \<and> broker_coordinate tr b request s
             = (map_sum CoordinationErr id (fst (shard_coordinate request (shard_after cat mb 0 (executed s @ pre)))), s')))"
proof -
  note call = responsive_transport.call_completes [OF assms(1,2) _ assms(4,5)]
  show ?thesis
    using call [where c = "ProduceCmd topic prt rs"] call [where c = "FetchCmd topic prt off k l rc"]
      produce_answer [OF _ assms(3), of topic prt] fetch_answer [OF _ assms(3), of topic prt]
      responsive_transport.coordinate_completes [OF assms(1,2) _ assms(4,5)] assms(3)
    by metis
qed

theorem ready_calls_complete_witness:
  "\<exists>base s'. broker_produce (fair_transport demo_catalog None 0 1) demo_broker [116] 0 [datum 7] sim_new = (Inr base, s')"
proof -
  have r: "fair_ready 1 0 0 1 (shard_index demo_broker [116] 0) sim_new"
    by (simp add: fair_ready_def queue_def halted_def serving_def sim_new_def)
  have ck: "check_partition demo_catalog [116] 0 = Inr ()"
    by (simp add: check_partition_def partition_count_def demo_catalog_def)
  have app: "fst (append_data l [datum 7]) = Inr (pl_next_offset l)" for l
    by (simp add: append_data_def log_append_def MAX_APPEND_RECORDS_def Let_def)
  have n: "0 < max (br_max_retries demo_broker) 1" "1 < max (br_max_retries demo_broker) 1" by simp_all
  note complete = ready_calls_complete [OF fair.responsive_transport_axioms sim_new_good demo_broker_simps(2) n]
  show ?thesis using complete [where rs = "[datum 7]" and topic = "[116]" and prt = 0] r ck unfolding app by fastforce
qed

end
