(* ===== verification/Broker_Engine.thy ===== *)
theory Broker_Engine
  imports Broker_Runtime Wire_Request Wire_Response
begin

text \<open>
  The protocol engine, \<^verbatim>\<open>crates/broker-engine/src/engine.rs\<close>: one handler per request, and the
  dispatch of a frame. A handler calls the broker facade, turns failures into error codes
  inside the response, and encodes the response; it threads the transport state of the facade.
\<close>

section \<open>Configuration\<close>

definition DEFAULT_MAX_FETCH_RECORDS :: nat where "DEFAULT_MAX_FETCH_RECORDS = 1024"
definition DEFAULT_MAX_FETCH_BYTES :: nat where "DEFAULT_MAX_FETCH_BYTES = 1024 * 1024"

record BrokerIdentity =
  bi_node_id :: int
  bi_host :: bytes
  bi_port :: int

definition identity_new :: "int \<Rightarrow> bytes \<Rightarrow> int \<Rightarrow> BrokerIdentity" where
  "identity_new node_id host port = \<lparr>bi_node_id = node_id, bi_host = host, bi_port = port\<rparr>"

record EngineConfig =
  ec_identity :: BrokerIdentity
  ec_max_fetch_records :: nat
  ec_max_fetch_bytes :: nat

record GroupOffsetCommit =
  gc_group_id :: bytes
  gc_generation :: int
  gc_topic :: bytes
  gc_partition :: int
  gc_offset :: int

definition engine_config_new :: "BrokerIdentity \<Rightarrow> EngineConfig" where
  "engine_config_new identity =
     \<lparr>ec_identity = identity, ec_max_fetch_records = DEFAULT_MAX_FETCH_RECORDS,
      ec_max_fetch_bytes = DEFAULT_MAX_FETCH_BYTES\<rparr>"

record Engine =
  en_broker :: Broker
  en_identity :: BrokerIdentity
  en_max_fetch_records :: nat
  en_max_fetch_bytes :: nat

definition engine_new :: "Broker \<Rightarrow> EngineConfig \<Rightarrow> Engine" where
  "engine_new broker config =
     \<lparr>en_broker = broker, en_identity = ec_identity config,
      en_max_fetch_records = ec_max_fetch_records config, en_max_fetch_bytes = ec_max_fetch_bytes config\<rparr>"

section \<open>Error codes\<close>

definition error_code :: "BrokerError \<Rightarrow> int" where
  "error_code error =
     (case error of
        Core UnknownTopic \<Rightarrow> UNKNOWN_TOPIC_OR_PARTITION
      | Core UnknownPartition \<Rightarrow> UNKNOWN_TOPIC_OR_PARTITION
      | Core OffsetOutOfRange \<Rightarrow> OFFSET_OUT_OF_RANGE
      | _ \<Rightarrow> UNKNOWN_SERVER_ERROR)"

definition coordination_error_code :: "BrokerError \<Rightarrow> int" where
  "coordination_error_code error =
     (case error of
        CoordinationErr ProducerFenced \<Rightarrow> INVALID_PRODUCER_EPOCH
      | CoordinationErr InvalidTransactionState \<Rightarrow> INVALID_TXN_STATE
      | CoordinationErr _ \<Rightarrow> INVALID_REQUEST
      | other \<Rightarrow> error_code other)"

definition broker_error_code :: "BrokerError \<Rightarrow> int" where
  "broker_error_code error = coordination_error_code error"

text \<open>The error field of a call whose value is not reported, \<^verbatim>\<open>map_or_else(code, |_| NO_ERROR)\<close>.\<close>

definition code_of :: "(BrokerError \<Rightarrow> int) \<Rightarrow> BrokerError + unit \<Rightarrow> int" where
  "code_of code r = (case r of Inl e \<Rightarrow> code e | Inr _ \<Rightarrow> NO_ERROR)"

section \<open>Plumbing\<close>

text \<open>
  Mapping a function with effects over a vector, first element first, and turning the outcome of a
  facade call into a value.
\<close>

fun each :: "('x \<Rightarrow> 's \<Rightarrow> 'y \<times> 's) \<Rightarrow> 'x list \<Rightarrow> 's \<Rightarrow> 'y list \<times> 's" where
  "each f [] s = ([], s)"
| "each f (x # xs) s = (let (y, s1) = f x s; (ys, s2) = each f xs s1 in (y # ys, s2))"

definition settle :: "('s, 'a) call \<Rightarrow> (BrokerError + 'a \<Rightarrow> 'b) \<Rightarrow> 's \<Rightarrow> 'b \<times> 's" where
  "settle f g s = (let (r, s') = f s in (g r, s'))"

text \<open>Encoding what a mapping gave.\<close>

definition encoded :: "('s \<Rightarrow> 'a \<times> 's) \<Rightarrow> ('a \<Rightarrow> WireError + bytes) \<Rightarrow> 's \<Rightarrow> (WireError + bytes) \<times> 's" where
  "encoded f g s = (let (v, s') = f s in (g v, s'))"

fun collect_results :: "('e + 'a) list \<Rightarrow> 'e + 'a list" where
  "collect_results [] = Inr []"
| "collect_results (r # rs) =
     (case r of
        Inl e \<Rightarrow> Inl e
      | Inr v \<Rightarrow> case collect_results rs of Inl e \<Rightarrow> Inl e | Inr vs \<Rightarrow> Inr (v # vs))"

fun subscription_topics :: "bytes list \<Rightarrow> bytes \<Rightarrow> WireError + bytes" where
  "subscription_topics [] bs = Inr bs"
| "subscription_topics (topic # topics) bs =
     (if int (length topic) > max_signed 16 then Inl TooLarge
      else subscription_topics topics (bs @ be_bytes 2 (int (length topic)) @ topic))"

definition encode_subscription :: "bytes list \<Rightarrow> WireError + bytes" where
  "encode_subscription topics =
     (case subscription_topics topics (be_bytes 2 0 @ be_bytes 4 (wrap_signed 32 (int (length topics)))) of
        Inl e \<Rightarrow> Inl e
      | Inr bs \<Rightarrow> Inr (bs @ be_bytes 4 (- 1)))"

text \<open>The digits are written from the end of the buffer; the list is its used part.\<close>

fun digits_loop :: "nat \<Rightarrow> bytes \<Rightarrow> bytes" where
  "digits_loop v digits =
     (if v > 0 then digits_loop (v div 10) ((48 + of_nat (v mod 10)) # digits) else digits)"

declare digits_loop.simps [simp del]

definition generated_member_id :: "int \<Rightarrow> bytes" where
  "generated_member_id correlation_id =
     (let v = nat \<bar>correlation_id\<bar>;
          digits = (if v = 0 then [48] else digits_loop v [])
      in [109, 101, 109, 98, 101, 114, 45] @ digits)"

section \<open>Handlers\<close>

definition partitions_of :: "Engine \<Rightarrow> int \<Rightarrow> PartitionMetadata list" where
  "partitions_of e n =
     map (\<lambda>prt. \<lparr>pm_error = NO_ERROR, pm_partition = prt, pm_leader = bi_node_id (en_identity e),
                  pm_replicas = [bi_node_id (en_identity e)], pm_isr = [bi_node_id (en_identity e)]\<rparr>)
       [0..n - 1]"

definition response_topics :: "Engine \<Rightarrow> bytes list option \<Rightarrow> WireTopicMetadata list" where
  "response_topics e topics =
     (case topics of
        None \<Rightarrow> map (\<lambda>topic. \<lparr>wtm_error = NO_ERROR, wtm_name = tm_name topic, wtm_is_internal = False,
                               wtm_partitions = partitions_of e (tm_partitions topic)\<rparr>)
                 (broker_metadata (en_broker e))
      | Some names \<Rightarrow> map (\<lambda>name.
          case broker_partition_count (en_broker e) name of
            Some partitions \<Rightarrow> \<lparr>wtm_error = NO_ERROR, wtm_name = name, wtm_is_internal = False,
                                 wtm_partitions = partitions_of e partitions\<rparr>
          | None \<Rightarrow> \<lparr>wtm_error = UNKNOWN_TOPIC_OR_PARTITION, wtm_name = name, wtm_is_internal = False,
                      wtm_partitions = []\<rparr>) names)"

definition engine_metadata :: "Engine \<Rightarrow> int \<Rightarrow> bytes list option \<Rightarrow> WireError + bytes" where
  "engine_metadata e correlation_id topics =
     encode_metadata correlation_id
       \<lparr>mr_brokers = [\<lparr>bm_node_id = bi_node_id (en_identity e), bm_host = bi_host (en_identity e),
                       bm_port = bi_port (en_identity e)\<rparr>],
        mr_controller_id = bi_node_id (en_identity e),
        mr_topics = response_topics e topics\<rparr>"

definition engine_find_coordinator :: "Engine \<Rightarrow> int \<Rightarrow> WireError + bytes" where
  "engine_find_coordinator e correlation_id =
     encode_find_coordinator correlation_id
       \<lparr>fc_error = NO_ERROR, fc_node_id = bi_node_id (en_identity e), fc_host = bi_host (en_identity e),
        fc_port = bi_port (en_identity e)\<rparr>"

definition engine_init_producer ::
  "'s Transport \<Rightarrow> Engine \<Rightarrow> int \<Rightarrow> bytes option \<Rightarrow> 's \<Rightarrow> (WireError + bytes) \<times> 's" where
  "engine_init_producer tr e correlation_id transactional_id =
     encoded
       (case transactional_id of
          Some transactional_id \<Rightarrow>
            settle (broker_init_producer tr (en_broker e) transactional_id) (\<lambda>r. case r of
              Inr identity \<Rightarrow> \<lparr>ip_error = NO_ERROR, ip_producer_id = pi_id identity, ip_producer_epoch = pi_epoch identity\<rparr>
            | Inl _ \<Rightarrow> \<lparr>ip_error = UNKNOWN_SERVER_ERROR, ip_producer_id = - 1, ip_producer_epoch = - 1\<rparr>)
        | None \<Rightarrow> Pair \<lparr>ip_error = INVALID_REQUEST, ip_producer_id = - 1, ip_producer_epoch = - 1\<rparr>)
       (encode_init_producer_id correlation_id)"

text \<open>The protocol name is \<^verbatim>\<open>charlotte-fixed-v1\<close>.\<close>

definition PROTOCOL :: bytes where
  "PROTOCOL = [99, 104, 97, 114, 108, 111, 116, 116, 101, 45, 102, 105, 120, 101, 100, 45, 118, 49]"

definition join_response :: "int \<Rightarrow> bytes \<Rightarrow> bytes list \<Rightarrow> BrokerError + int \<times> GroupAssignment list \<Rightarrow> WireError + bytes" where
  "join_response correlation_id member_id subscriptions r =
     (case r of
        Inr (generation, assignments) \<Rightarrow>
          (case collect_results (map (\<lambda>assignment. case encode_subscription subscriptions of
                    Inl er \<Rightarrow> Inl er
                  | Inr metadata \<Rightarrow> Inr (ga_member_id assignment, metadata)) assignments) of
             Inl er \<Rightarrow> Inl er
           | Inr members \<Rightarrow> encode_join_group correlation_id
               \<lparr>jg_error = NO_ERROR, jg_generation = generation, jg_protocol = PROTOCOL, jg_leader = member_id,
                jg_member_id = member_id, jg_members = members\<rparr>)
      | Inl error \<Rightarrow> encode_join_group correlation_id
          \<lparr>jg_error = coordination_error_code error, jg_generation = - 1, jg_protocol = [], jg_leader = [],
           jg_member_id = member_id, jg_members = []\<rparr>)"

definition engine_join_group ::
  "'s Transport \<Rightarrow> Engine \<Rightarrow> int \<Rightarrow> bytes \<Rightarrow> bytes \<Rightarrow> bytes list \<Rightarrow> 's \<Rightarrow> (WireError + bytes) \<times> 's" where
  "engine_join_group tr e correlation_id group_id member_id subscriptions =
     (let member_id = (if member_id = [] then generated_member_id correlation_id else member_id) in
      settle (broker_join_group tr (en_broker e) group_id member_id subscriptions)
        (join_response correlation_id member_id subscriptions))"

definition engine_sync_group :: "int \<Rightarrow> bytes \<Rightarrow> WireError + bytes" where
  "engine_sync_group correlation_id assignment = encode_sync_group correlation_id NO_ERROR assignment"

definition engine_heartbeat ::
  "'s Transport \<Rightarrow> Engine \<Rightarrow> int \<Rightarrow> bytes \<Rightarrow> bytes \<Rightarrow> int \<Rightarrow> 's \<Rightarrow> (WireError + bytes) \<times> 's" where
  "engine_heartbeat tr e correlation_id group_id member_id generation =
     encoded (settle (heartbeat_group tr (en_broker e) group_id member_id generation) (code_of coordination_error_code))
       (encode_group_error correlation_id)"

definition engine_leave_group ::
  "'s Transport \<Rightarrow> Engine \<Rightarrow> int \<Rightarrow> bytes \<Rightarrow> bytes \<Rightarrow> 's \<Rightarrow> (WireError + bytes) \<times> 's" where
  "engine_leave_group tr e correlation_id group_id member_id =
     encoded (settle (leave_group_any tr (en_broker e) group_id member_id) (code_of coordination_error_code))
       (encode_group_error correlation_id)"

definition engine_offset_commit ::
  "'s Transport \<Rightarrow> Engine \<Rightarrow> int \<Rightarrow> GroupOffsetCommit \<Rightarrow> 's \<Rightarrow> (WireError + bytes) \<times> 's" where
  "engine_offset_commit tr e correlation_id commit =
     encoded
       (settle (commit_group_offset tr (en_broker e) (gc_group_id commit) (gc_generation commit) (gc_topic commit)
                  (gc_partition commit) (gc_offset commit)) (code_of coordination_error_code))
       (encode_offset_commit correlation_id (gc_topic commit) (gc_partition commit))"

definition engine_offset_fetch ::
  "'s Transport \<Rightarrow> Engine \<Rightarrow> int \<Rightarrow> bytes \<Rightarrow> bytes \<Rightarrow> int \<Rightarrow> 's \<Rightarrow> (WireError + bytes) \<times> 's" where
  "engine_offset_fetch tr e correlation_id group_id topic prt =
     settle (broker_group_offset tr (en_broker e) group_id topic prt) (\<lambda>r. case r of
       Inr (Some off) \<Rightarrow> encode_offset_fetch correlation_id topic prt off NO_ERROR
     | Inr None \<Rightarrow> encode_offset_fetch correlation_id topic prt (- 1) NO_ERROR
     | Inl error \<Rightarrow> encode_offset_fetch correlation_id topic prt (- 1) (coordination_error_code error))"

definition produce_result :: "int \<Rightarrow> BrokerError + int \<Rightarrow> ProducePartitionResult" where
  "produce_result prt r =
     (case r of
        Inr base_offset \<Rightarrow> \<lparr>ppr_partition = prt, ppr_error = NO_ERROR, ppr_base_offset = base_offset,
                              ppr_log_append_time_ms = - 1\<rparr>
      | Inl error \<Rightarrow> \<lparr>ppr_partition = prt, ppr_error = error_code error, ppr_base_offset = - 1,
                        ppr_log_append_time_ms = - 1\<rparr>)"

definition produce_one ::
  "'s Transport \<Rightarrow> Engine \<Rightarrow> bytes option \<Rightarrow> bytes \<Rightarrow> ProducePartition \<Rightarrow> 's \<Rightarrow> ProducePartitionResult \<times> 's" where
  "produce_one tr e transactional_id name p =
     (case (transactional_id, pp_producer p) of
        (Some _, None) \<Rightarrow> Pair \<lparr>ppr_partition = pp_partition p, ppr_error = UNSUPPORTED_VERSION, ppr_base_offset = - 1,
                                  ppr_log_append_time_ms = - 1\<rparr>
      | (Some tid, Some (producer_id, producer_epoch)) \<Rightarrow>
          settle (produce_transactional tr (en_broker e) tid \<lparr>pi_id = producer_id, pi_epoch = producer_epoch\<rparr>
                    name (pp_partition p) (pp_records p)) (produce_result (pp_partition p))
      | (None, _) \<Rightarrow>
          settle (broker_produce tr (en_broker e) name (pp_partition p) (pp_records p)) (produce_result (pp_partition p)))"

definition produce_topics ::
  "'s Transport \<Rightarrow> Engine \<Rightarrow> bytes option \<Rightarrow> ProduceTopic list \<Rightarrow> 's \<Rightarrow> ProduceTopicResult list \<times> 's" where
  "produce_topics tr e transactional_id =
     each (\<lambda>topic s. let (partitions, s') = each (produce_one tr e transactional_id (pt_name topic)) (pt_partitions topic) s
                      in (\<lparr>ptr_name = pt_name topic, ptr_partitions = partitions\<rparr>, s'))"

definition engine_produce ::
  "'s Transport \<Rightarrow> Engine \<Rightarrow> int \<Rightarrow> bytes option \<Rightarrow> ProduceTopic list \<Rightarrow> 's \<Rightarrow> (WireError + bytes) \<times> 's" where
  "engine_produce tr e correlation_id transactional_id topics =
     encoded (produce_topics tr e transactional_id topics)
       (\<lambda>ts. encode_produce correlation_id \<lparr>pr_topics = ts, pr_throttle_time_ms = 0\<rparr>)"

definition enlist_topics ::
  "'s Transport \<Rightarrow> Engine \<Rightarrow> bytes \<Rightarrow> ProducerIdentity \<Rightarrow> (bytes \<times> int list) list \<Rightarrow> 's \<Rightarrow> TransactionPartitionResult list \<times> 's" where
  "enlist_topics tr e transactional_id producer =
     each (\<lambda>(topic, partitions) s.
       let (results, s') = each (\<lambda>prt.
              settle (add_transaction_partition tr (en_broker e) transactional_id producer topic prt)
                (\<lambda>r. (prt, code_of coordination_error_code r))) partitions s
       in (\<lparr>tpr_topic = topic, tpr_partitions = results\<rparr>, s'))"

definition engine_add_partitions_to_txn ::
  "'s Transport \<Rightarrow> Engine \<Rightarrow> int \<Rightarrow> bytes \<Rightarrow> int \<Rightarrow> int \<Rightarrow> (bytes \<times> int list) list \<Rightarrow> 's \<Rightarrow> (WireError + bytes) \<times> 's" where
  "engine_add_partitions_to_txn tr e correlation_id transactional_id producer_id producer_epoch topics =
     encoded (enlist_topics tr e transactional_id \<lparr>pi_id = producer_id, pi_epoch = producer_epoch\<rparr> topics)
       (encode_add_partitions_to_txn correlation_id)"

definition engine_end_txn ::
  "'s Transport \<Rightarrow> Engine \<Rightarrow> int \<Rightarrow> bytes \<Rightarrow> int \<Rightarrow> int \<Rightarrow> bool \<Rightarrow> 's \<Rightarrow> (WireError + bytes) \<times> 's" where
  "engine_end_txn tr e correlation_id transactional_id producer_id producer_epoch commit =
     encoded
       (settle (broker_end_transaction tr (en_broker e) transactional_id
                  \<lparr>pi_id = producer_id, pi_epoch = producer_epoch\<rparr> commit) (code_of broker_error_code))
       (encode_end_txn correlation_id)"

definition fetch_limit :: "Engine \<Rightarrow> int \<Rightarrow> int \<Rightarrow> nat" where
  "fetch_limit e request_max_bytes partition_max_bytes =
     min (nat (max (min partition_max_bytes request_max_bytes) 0)) (en_max_fetch_bytes e)"

definition fetch_result :: "int \<Rightarrow> BrokerError + FetchWindow \<Rightarrow> FetchPartitionResult" where
  "fetch_result prt r =
     (case r of
        Inr window \<Rightarrow> \<lparr>fpr_partition = prt, fpr_error = NO_ERROR, fpr_high_watermark = fw_high_watermark window,
                         fpr_last_stable_offset = fw_last_stable_offset window, fpr_aborted_transactions = None,
                         fpr_records = fw_records window\<rparr>
      | Inl error \<Rightarrow> \<lparr>fpr_partition = prt, fpr_error = error_code error, fpr_high_watermark = - 1,
                        fpr_last_stable_offset = - 1, fpr_aborted_transactions = None, fpr_records = []\<rparr>)"

definition fetch_one ::
  "'s Transport \<Rightarrow> Engine \<Rightarrow> int \<Rightarrow> bool \<Rightarrow> bytes \<Rightarrow> FetchPartition \<Rightarrow> 's \<Rightarrow> FetchPartitionResult \<times> 's" where
  "fetch_one tr e request_max_bytes read_committed name p =
     settle (broker_fetch_with_isolation tr (en_broker e) name (fp_partition p) (fp_fetch_offset p)
               (en_max_fetch_records e) (fetch_limit e request_max_bytes (fp_partition_max_bytes p)) read_committed)
       (fetch_result (fp_partition p))"

definition fetch_topics ::
  "'s Transport \<Rightarrow> Engine \<Rightarrow> int \<Rightarrow> bool \<Rightarrow> FetchTopic list \<Rightarrow> 's \<Rightarrow> FetchTopicResult list \<times> 's" where
  "fetch_topics tr e request_max_bytes read_committed =
     each (\<lambda>topic s. let (partitions, s') =
              each (fetch_one tr e request_max_bytes read_committed (ft_name topic)) (ft_partitions topic) s
            in (\<lparr>ftr_name = ft_name topic, ftr_partitions = partitions\<rparr>, s'))"

definition engine_fetch ::
  "'s Transport \<Rightarrow> Engine \<Rightarrow> int \<Rightarrow> int \<Rightarrow> bool \<Rightarrow> FetchTopic list \<Rightarrow> 's \<Rightarrow> (WireError + bytes) \<times> 's" where
  "engine_fetch tr e correlation_id request_max_bytes read_committed topics =
     encoded (fetch_topics tr e request_max_bytes read_committed topics)
       (\<lambda>ts. encode_fetch correlation_id \<lparr>fr_throttle_time_ms = 0, fr_topics = ts\<rparr>)"

definition list_result :: "int \<Rightarrow> BrokerError + int \<Rightarrow> ListOffsetsPartitionResult" where
  "list_result prt r =
     (case r of
        Inr off \<Rightarrow> \<lparr>lpr_partition = prt, lpr_error = NO_ERROR, lpr_timestamp_ms = - 1, lpr_offset = off\<rparr>
      | Inl error \<Rightarrow> \<lparr>lpr_partition = prt, lpr_error = error_code error, lpr_timestamp_ms = - 1, lpr_offset = - 1\<rparr>)"

definition list_one ::
  "'s Transport \<Rightarrow> Engine \<Rightarrow> bytes \<Rightarrow> ListOffsetsPartition \<Rightarrow> 's \<Rightarrow> ListOffsetsPartitionResult \<times> 's" where
  "list_one tr e name p =
     (if lp_timestamp p = - 2 \<or> lp_timestamp p = - 1
      then settle (broker_list_offset tr (en_broker e) name (lp_partition p) (lp_timestamp p = - 2))
             (list_result (lp_partition p))
      else Pair \<lparr>lpr_partition = lp_partition p, lpr_error = UNSUPPORTED_VERSION, lpr_timestamp_ms = - 1, lpr_offset = - 1\<rparr>)"

definition list_topics ::
  "'s Transport \<Rightarrow> Engine \<Rightarrow> ListOffsetsTopic list \<Rightarrow> 's \<Rightarrow> ListOffsetsTopicResult list \<times> 's" where
  "list_topics tr e =
     each (\<lambda>topic s. let (partitions, s') = each (list_one tr e (lt_name topic)) (lt_partitions topic) s
                      in (\<lparr>ltr_name = lt_name topic, ltr_partitions = partitions\<rparr>, s'))"

definition engine_list_offsets ::
  "'s Transport \<Rightarrow> Engine \<Rightarrow> int \<Rightarrow> ListOffsetsTopic list \<Rightarrow> 's \<Rightarrow> (WireError + bytes) \<times> 's" where
  "engine_list_offsets tr e correlation_id topics =
     encoded (list_topics tr e topics) (\<lambda>ts. encode_list_offsets correlation_id \<lparr>lr_topics = ts\<rparr>)"

section \<open>Dispatch\<close>

definition handle_request :: "'s Transport \<Rightarrow> Engine \<Rightarrow> Request \<Rightarrow> 's \<Rightarrow> (WireError + bytes) \<times> 's" where
  "handle_request tr e request =
     (let correlation_id = hd_correlation_id (rq_header request) in
      case rq_body request of
        ApiVersions \<Rightarrow> Pair (encode_api_versions correlation_id SUPPORTED_VERSIONS)
      | FindCoordinator _ _ \<Rightarrow> Pair (engine_find_coordinator e correlation_id)
      | InitProducerId transactional_id _ \<Rightarrow> engine_init_producer tr e correlation_id transactional_id
      | AddPartitionsToTxn transactional_id producer_id producer_epoch topics \<Rightarrow>
          engine_add_partitions_to_txn tr e correlation_id transactional_id producer_id producer_epoch topics
      | EndTxn transactional_id producer_id producer_epoch commit \<Rightarrow>
          engine_end_txn tr e correlation_id transactional_id producer_id producer_epoch commit
      | JoinGroup group_id member_id subscriptions \<Rightarrow>
          engine_join_group tr e correlation_id group_id member_id subscriptions
      | SyncGroup _ _ _ assignment \<Rightarrow> Pair (engine_sync_group correlation_id assignment)
      | Heartbeat group_id generation member_id \<Rightarrow>
          engine_heartbeat tr e correlation_id group_id member_id generation
      | LeaveGroup group_id member_id \<Rightarrow> engine_leave_group tr e correlation_id group_id member_id
      | OffsetCommit group_id generation _ topic prt off \<Rightarrow>
          engine_offset_commit tr e correlation_id
            \<lparr>gc_group_id = group_id, gc_generation = generation, gc_topic = topic, gc_partition = prt, gc_offset = off\<rparr>
      | OffsetFetch group_id topic prt \<Rightarrow> engine_offset_fetch tr e correlation_id group_id topic prt
      | Metadata topics \<Rightarrow> Pair (engine_metadata e correlation_id topics)
      | Produce transactional_id _ _ topics \<Rightarrow> engine_produce tr e correlation_id transactional_id topics
      | Fetch _ _ _ max_bytes read_committed topics \<Rightarrow>
          engine_fetch tr e correlation_id max_bytes read_committed topics
      | ListOffsets _ topics \<Rightarrow> engine_list_offsets tr e correlation_id topics)"

definition handle_frame :: "'s Transport \<Rightarrow> Engine \<Rightarrow> bytes \<Rightarrow> 's \<Rightarrow> (WireError + bytes) \<times> 's" where
  "handle_frame tr e frame =
     (case decode_request frame of
        Inr request \<Rightarrow> handle_request tr e request
      | Inl UnsupportedVersion \<Rightarrow>
          Pair (case peek_header frame of
                  Inr header \<Rightarrow>
                    if hd_api_key header = API_API_VERSIONS
                    then encode_api_versions_error (hd_correlation_id header) UNSUPPORTED_VERSION SUPPORTED_VERSIONS
                    else Inl UnsupportedVersion
                | Inl _ \<Rightarrow> Inl UnsupportedVersion)
      | Inl error \<Rightarrow> Pair (Inl error))"

end
