(* ===== verification/Engine_Properties.thy ===== *)
theory Engine_Properties
  imports Broker_Engine Transaction_Isolation Topic_Catalog Wire_Request_Laws Wire_Response_Laws
begin

text \<open>
  Properties of the protocol engine, from request frame to response frame: every accepted request is
  answered under its own correlation id with a response of its own API, and what a client was
  told about a produce is what a later fetch returns.
\<close>

section \<open>Correlation ids\<close>

lemma be_bytes_cong: "x mod 256 ^ n = y mod 256 ^ n \<Longrightarrow> be_bytes n x = be_bytes n y"
proof (induction n arbitrary: x y)
  case (Suc n)
  have "a mod 256 ^ Suc n = 256 * (a div 256 mod 256 ^ n) + a mod 256" for a :: int
    using zmod_zmult2_eq [of "256 ^ n" a 256] by simp
  then have e: "256 * (x div 256 mod 256 ^ n) + x mod 256 = 256 * (y div 256 mod 256 ^ n) + y mod 256"
    using Suc.prems by simp
  have m: "x mod 256 = y mod 256" by (metis Suc.prems dvd_triv_left mod_mod_cancel power_Suc)
  then have "x div 256 mod 256 ^ n = y div 256 mod 256 ^ n" using e by simp
  moreover have "(word_of_int x :: byte) = word_of_int y"
    using m by (simp add: word_of_int_eq_iff take_bit_eq_mod)
  ultimately show ?case using Suc.IH [of "x div 256" "y div 256"] by simp
qed simp

lemma wrap_signed_cong: "0 < w \<Longrightarrow> wrap_signed w x mod 2 ^ w = x mod 2 ^ w"
  by (simp add: wrap_signed_def mod_simps)

lemma be_bytes_be_int: "length xs = n \<Longrightarrow> 0 < n \<Longrightarrow> be_bytes n (be_int n xs) = xs"
  using be_bytes_cong [of "be_int n xs" n "be_uint xs"] wrap_signed_cong [of "8 * n" "be_uint xs"] be_bytes_uint [of xs]
  by (simp add: be_int_def power_mult)

lemma echoed_correlation:
  assumes "peek_header frame = Inr h"
  shows "be_bytes 4 (hd_correlation_id h) = take 4 (drop 8 frame)"
  using assms be_bytes_be_int [of "take 4 (drop 8 frame)" 4] by (auto simp: peek_header_def split: if_splits)

section \<open>Responses of the handlers\<close>

text \<open>The outcome of a handler: the encoding of a response to the API, or the failure to encode one.\<close>

definition responds :: "int \<Rightarrow> int \<Rightarrow> WireError + bytes \<Rightarrow> bool" where
  "responds k cid r \<longleftrightarrow>
     (case r of
        Inr bs \<Rightarrow> \<exists>resp. answers resp k \<and> response_fits resp \<and> bs = response_frame cid (response_field resp)
      | Inl er \<Rightarrow> er = TooLarge \<or> er = Invalid)"

lemma responds_encode: "answers resp k \<Longrightarrow> responds k cid (encode_response cid resp)"
proof (cases "encode_response cid resp")
  case (Inl er)
  then show "answers resp k \<Longrightarrow> ?thesis" using encode_response_errors [OF Inl] by (auto simp: responds_def)
next
  case (Inr bs)
  then show "answers resp k \<Longrightarrow> ?thesis" using Inr [unfolded encode_response_Inr] by (auto simp: responds_def)
qed

lemma fst_encoded [simp]: "fst (encoded f g s) = g (fst (f s))"
  by (simp add: encoded_def case_prod_beta)

lemma fst_settle [simp]: "fst (settle f g s) = g (fst (f s))" "snd (settle f g s) = snd (f s)"
  by (simp_all add: settle_def case_prod_beta)

lemma subscription_error: "encode_subscription topics = Inl er \<Longrightarrow> er = TooLarge"
proof -
  have "subscription_topics topics bs = Inl er \<Longrightarrow> er = TooLarge" for bs
    by (induction topics bs rule: subscription_topics.induct) (auto split: if_splits)
  then show "encode_subscription topics = Inl er \<Longrightarrow> er = TooLarge"
    by (auto simp: encode_subscription_def split: sum.splits)
qed

lemma collect_results_error: "collect_results rs = Inl er \<Longrightarrow> Inl er \<in> set rs"
  by (induction rs) (auto split: sum.splits)

lemma join_responds: "responds API_JOIN_GROUP cid (join_response cid mid subs r)"
proof (cases r)
  case (Inl e)
  then show ?thesis
    using responds_encode [of "JoinGroupR _" API_JOIN_GROUP cid] by (simp add: join_response_def)
next
  case (Inr p)
  obtain g as where p: "p = (g, as)" by fastforce
  show ?thesis
  proof (cases "collect_results (map (\<lambda>a. case encode_subscription subs of Inl er \<Rightarrow> Inl er | Inr md \<Rightarrow> Inr (ga_member_id a, md)) as)")
    case (Inl er)
    then have "er = TooLarge"
      using collect_results_error [OF Inl] subscription_error by (auto split: sum.splits)
    then show ?thesis using \<open>r = Inr p\<close> p Inl by (simp add: join_response_def responds_def)
  next
    case (Inr ms)
    then show ?thesis
      using responds_encode [of "JoinGroupR _" API_JOIN_GROUP cid] \<open>r = Inr p\<close> p by (simp add: join_response_def)
  qed
qed

lemmas respond_as =
  responds_encode [of "ApiVersionsR _ _", simplified] responds_encode [of "MetadataR _", simplified]
  responds_encode [of "FindCoordinatorR _", simplified] responds_encode [of "InitProducerIdR _", simplified]
  responds_encode [of "AddPartitionsToTxnR _", simplified] responds_encode [of "EndTxnR _", simplified]
  responds_encode [of "SyncGroupR _ _", simplified] responds_encode [of "GroupErrorR _", simplified]
  responds_encode [of "OffsetFetchR _ _ _ _", simplified] responds_encode [of "OffsetCommitR _ _ _", simplified]
  responds_encode [of "ProduceR _", simplified] responds_encode [of "FetchR _", simplified]
  responds_encode [of "ListOffsetsR _", simplified]

lemma handler_responds:
  "responds (fst (api_of (rq_body rq))) (hd_correlation_id (rq_header rq)) (fst (handle_request tr e rq s))"
  by (cases "rq_body rq")
    (auto simp: handle_request_def encode_api_versions_def engine_find_coordinator_def engine_init_producer_def
      engine_add_partitions_to_txn_def engine_end_txn_def engine_join_group_def engine_sync_group_def engine_heartbeat_def
      engine_leave_group_def engine_offset_commit_def engine_offset_fetch_def engine_metadata_def engine_produce_def
      engine_fetch_def engine_list_offsets_def Let_def split: sum.splits option.splits
      intro: respond_as join_responds)

lemma versions_fit: "response_fits (ApiVersionsR er SUPPORTED_VERSIONS)"
  by (simp add: small_def SUPPORTED_VERSIONS_def MAX_ARRAY_LEN_def)

section \<open>Mapping over topics and partitions\<close>

context shard_transport
begin

definition steady :: "('s \<Rightarrow> 'a \<times> 's) \<Rightarrow> bool" where
  "steady f \<longleftrightarrow> (\<forall>s. good s \<longrightarrow> keeps s (snd (f s)))"

lemma steady_settle: "sound f \<Longrightarrow> steady (settle f g)"
  unfolding steady_def sound_def by (simp add: settle_def case_prod_beta) (metis prod.collapse)

lemma steady_Pair: "steady (Pair v)"
  by (simp add: steady_def keeps_refl)

text \<open>Each element of the result comes from its own call, between the start and the end of the mapping.\<close>

lemma each_reaches:
  assumes "\<And>x. steady (f x)" and "good s" and "each f xs s = (ys, s')"
  shows "keeps s s' \<and> length ys = length xs
    \<and> (\<forall>x y. (x, y) \<in> set (zip xs ys) \<longrightarrow> (\<exists>s1. keeps s s1 \<and> fst (f x s1) = y \<and> keeps (snd (f x s1)) s'))"
  using assms(2,3)
proof (induction xs arbitrary: s ys)
  case Nil
  then show ?case by (simp add: keeps_refl)
next
  case (Cons x xs)
  obtain zs where zs: "each f xs (snd (f x s)) = (zs, s')" "ys = fst (f x s) # zs"
    using Cons.prems(2) by (cases "each f xs (snd (f x s))") (auto simp: case_prod_beta Let_def)
  have k: "keeps s (snd (f x s))" using assms(1) Cons.prems(1) by (simp add: steady_def)
  then have g: "good (snd (f x s))" by (simp add: keeps_def)
  note ih = Cons.IH [OF g zs(1)]
  have "\<exists>s1. keeps s s1 \<and> fst (f u s1) = y \<and> keeps (snd (f u s1)) s'" if "(u, y) \<in> set (zip (x # xs) ys)" for u y
  proof (cases "(u, y) = (x, fst (f x s))")
    case True
    then show ?thesis using ih keeps_refl [OF Cons.prems(1)] by auto
  next
    case False
    then have "(u, y) \<in> set (zip xs zs)" using that zs(2) by auto
    then show ?thesis using ih keeps_trans [OF k] by metis
  qed
  then show ?case using ih zs(2) keeps_trans [OF k] by auto
qed

lemma steady_each: "(\<And>x. steady (f x)) \<Longrightarrow> steady (each f xs)"
  unfolding steady_def [of "each f xs"] using each_reaches by (metis prod.collapse)

lemma steady_after: "steady f \<Longrightarrow> steady (\<lambda>s. let (v, s') = f s in (g v, s'))"
  by (simp add: steady_def case_prod_beta)

lemma nested_reaches:
  assumes "\<And>t p. steady (f t p)" and "good s"
    and "each (\<lambda>t s. let (ps, s') = each (f t) (parts t) s in (mk t ps, s')) ts s = (rs, s')"
    and "(t, r) \<in> set (zip ts rs)"
  shows "\<exists>ps. r = mk t ps \<and> length ps = length (parts t) \<and> keeps s s' \<and> (\<forall>p y. (p, y) \<in> set (zip (parts t) ps) \<longrightarrow>
      (\<exists>s1. keeps s s1 \<and> fst (f t p s1) = y \<and> keeps (snd (f t p s1)) s'))"
proof -
  let ?g = "\<lambda>t s. let (ps, s') = each (f t) (parts t) s in (mk t ps, s')"
  have "steady (?g t)" for t by (intro steady_after steady_each assms(1))
  from each_reaches [of ?g, OF this assms(2,3)] assms(4)
  obtain s0 where s0: "keeps s s0" "fst (?g t s0) = r" "keeps (snd (?g t s0)) s'" and k: "keeps s s'" by blast
  obtain ps s2 where e: "each (f t) (parts t) s0 = (ps, s2)" by fastforce
  have "good s0" using s0(1) by (simp add: keeps_def)
  note er = each_reaches [of "f t", OF assms(1) this e]
  have m: "r = mk t ps" and k2: "keeps s2 s'" using s0 e by auto
  have "\<exists>s1. keeps s s1 \<and> fst (f t p s1) = y \<and> keeps (snd (f t p s1)) s'" if py: "(p, y) \<in> set (zip (parts t) ps)" for p y
  proof -
    obtain s1 where "keeps s0 s1" "fst (f t p s1) = y" "keeps (snd (f t p s1)) s2" using er py by blast
    then show ?thesis using keeps_trans [OF s0(1), of s1] keeps_trans [OF _ k2, of "snd (f t p s1)"] by blast
  qed
  then show ?thesis using er k m by (intro exI [of _ ps]) simp
qed

lemma steady_produce_one: "steady (produce_one tr e tid name p)"
  by (auto simp: produce_one_def split: option.splits
      intro!: steady_Pair steady_settle sound_data_ops sound_produce_transactional)

lemma steady_fetch_one: "steady (fetch_one tr e mx rc name p)"
  unfolding fetch_one_def by (intro steady_settle sound_data_ops)

lemma steady_list_one: "steady (list_one tr e name p)"
  by (auto simp: list_one_def intro!: steady_Pair steady_settle sound_data_ops)

lemma steady_encoded: "steady f \<Longrightarrow> steady (encoded f g)"
  by (simp add: steady_def encoded_def case_prod_beta)

lemma steady_nested: "(\<And>t p. steady (f t p)) \<Longrightarrow> steady (each (\<lambda>t s. let (ps, s') = each (f t) (parts t) s in (mk t ps, s')) ts)"
  by (intro steady_each steady_after)

lemma steady_enlist: "steady (enlist_topics tr e tid p ts)"
  using steady_nested [of "\<lambda>t prt. settle (add_transaction_partition tr (en_broker e) tid p (fst t) prt) (\<lambda>r. (prt, code_of coordination_error_code r))"
      snd "\<lambda>t rs. \<lparr>tpr_topic = fst t, tpr_partitions = rs\<rparr>" ts]
  by (simp add: enlist_topics_def case_prod_beta' steady_settle sound_coordination_ops)

text \<open>Whatever a client sends, the broker stays in a good state and no executed command is lost.\<close>

lemma steady_handle_request: "steady (handle_request tr e rq)"
proof -
  have data: "steady (produce_topics tr e tid pts)" "steady (fetch_topics tr e mx rc fts)" "steady (list_topics tr e lts)" for tid pts mx rc fts lts
    unfolding produce_topics_def fetch_topics_def list_topics_def
    by (intro steady_nested steady_produce_one steady_fetch_one steady_list_one)+
  show ?thesis
    by (cases "rq_body rq")
      (auto simp: handle_request_def engine_init_producer_def engine_add_partitions_to_txn_def engine_end_txn_def
        engine_join_group_def engine_heartbeat_def engine_leave_group_def engine_offset_commit_def engine_offset_fetch_def
        engine_produce_def engine_fetch_def engine_list_offsets_def Let_def split: option.splits
        intro!: steady_Pair steady_encoded steady_settle steady_enlist data sound_coordination_ops sound_end_transaction)
qed

lemma steady_handle_frame: "steady (handle_frame tr e frame)"
  by (auto simp: handle_frame_def split: sum.splits WireError.splits intro!: steady_Pair steady_handle_request)

lemma produce_one_ok:
  assumes "ppr_error (fst (produce_one tr e None name p s)) = NO_ERROR"
  shows "broker_produce tr (en_broker e) name (pp_partition p) (pp_records p) s
    = (Inr (ppr_base_offset (fst (produce_one tr e None name p s))), snd (produce_one tr e None name p s))"
  using assms
  by (auto simp: produce_one_def produce_result_def error_code_def prod_eq_iff
      split: sum.splits BrokerError.splits LogError.splits)

lemma produce_one_acknowledged:
  assumes "ppr_error (fst (produce_one tr e tid name p s)) = NO_ERROR"
  shows "acknowledged (en_broker e) name (pp_partition p) (pp_records p) (tid \<noteq> None)
    (ppr_base_offset (fst (produce_one tr e tid name p s))) s (snd (produce_one tr e tid name p s))"
proof (cases tid)
  case None
  then show ?thesis using produce_one_ok [of e name p s] assms by (simp add: acknowledged_def)
next
  case (Some t)
  obtain i k where "pp_producer p = Some (i, k)" using assms Some by (cases "pp_producer p") (auto simp: produce_one_def)
  then have "produce_transactional tr (en_broker e) t \<lparr>pi_id = i, pi_epoch = k\<rparr> name (pp_partition p) (pp_records p) s
      = (Inr (ppr_base_offset (fst (produce_one tr e tid name p s))), snd (produce_one tr e tid name p s))"
    using assms Some
    by (auto simp: produce_one_def produce_result_def error_code_def prod_eq_iff
        split: sum.splits BrokerError.splits LogError.splits CoordinationError.splits)
  then show ?thesis using Some by (auto simp: acknowledged_def)
qed

lemma produce_entry:
  assumes "good s" and "produce_topics tr e tid topics s = (results, s1)"
    and "(t, r) \<in> set (zip topics results)" and "(p, pr) \<in> set (zip (pt_partitions t) (ptr_partitions r))"
    and "ppr_error pr = NO_ERROR"
  shows "\<exists>sa sb. keeps s sa
    \<and> acknowledged (en_broker e) (pt_name t) (pp_partition p) (pp_records p) (tid \<noteq> None) (ppr_base_offset pr) sa sb \<and> keeps sb s1"
proof -
  let ?f = "\<lambda>t. produce_one tr e tid (pt_name t)"
  obtain ps where ps: "r = \<lparr>ptr_name = pt_name t, ptr_partitions = ps\<rparr>"
    "\<forall>p y. (p, y) \<in> set (zip (pt_partitions t) ps) \<longrightarrow> (\<exists>s1'. keeps s s1' \<and> fst (?f t p s1') = y \<and> keeps (snd (?f t p s1')) s1)"
    using nested_reaches [of ?f, OF steady_produce_one assms(1) assms(2) [unfolded produce_topics_def] assms(3)] by blast
  have "(p, pr) \<in> set (zip (pt_partitions t) ps)" using assms(4) ps(1) by simp
  then obtain sa where sa: "keeps s sa" "fst (?f t p sa) = pr" "keeps (snd (?f t p sa)) s1" using ps(2) by blast
  then have "ppr_error (fst (?f t p sa)) = NO_ERROR" using assms(5) by simp
  from produce_one_acknowledged [OF this] sa show ?thesis by auto
qed

lemma fetch_entry:
  assumes "good s" and "fetch_topics tr e mx rc topics s = (results, s1)"
    and "(t, r) \<in> set (zip topics results)" and "(p, pr) \<in> set (zip (ft_partitions t) (ftr_partitions r))"
  shows "\<exists>sa sb ro. keeps s sa
    \<and> broker_fetch_with_isolation tr (en_broker e) (ft_name t) (fp_partition p) (fp_fetch_offset p)
        (en_max_fetch_records e) (fetch_limit e mx (fp_partition_max_bytes p)) rc sa = (ro, sb) \<and> keeps sb s1
    \<and> pr = fetch_result (fp_partition p) ro"
proof -
  let ?f = "\<lambda>t. fetch_one tr e mx rc (ft_name t)"
  obtain ps where ps: "r = \<lparr>ftr_name = ft_name t, ftr_partitions = ps\<rparr>"
    "\<forall>p y. (p, y) \<in> set (zip (ft_partitions t) ps) \<longrightarrow> (\<exists>s1'. keeps s s1' \<and> fst (?f t p s1') = y \<and> keeps (snd (?f t p s1')) s1)"
    using nested_reaches [of ?f, OF steady_fetch_one assms(1) assms(2) [unfolded fetch_topics_def] assms(3)] by blast
  have "(p, pr) \<in> set (zip (ft_partitions t) ps)" using assms(4) ps(1) by simp
  then obtain sa where "keeps s sa" "fst (?f t p sa) = pr" "keeps (snd (?f t p sa)) s1" using ps(2) by blast
  then show ?thesis unfolding fetch_one_def fst_settle by (metis prod.collapse)
qed

end

section \<open>Frames\<close>

lemma response_frame_shape:
  assumes "peek_header frame = Inr h" and "bs = response_frame (hd_correlation_id h) xs"
  shows "take 4 (drop 4 bs) = take 4 (drop 8 frame) \<and> be_int 4 (take 4 bs) = wrap_signed 32 (int (length bs) - 4)"
proof -
  have "in_i32 (wrap_signed 32 (int (length xs) + 4))" by simp
  moreover have "12 \<le> length frame" using assms(1) by (simp add: peek_header_def split: if_splits)
  ultimately show ?thesis
    using assms echoed_correlation [OF assms(1)] by (simp add: response_frame_def be_int_bytes add.commute)
qed

text \<open>A decoded request is answered under the header its frame starts with.\<close>

lemma decoded_frame_outcome:
  assumes "handle_frame tr e frame s = (r, s')" and "decode_request frame = Inr rq"
  shows "\<exists>h. peek_header frame = Inr h \<and> responds (hd_api_key h) (hd_correlation_id h) r"
proof -
  note facts = decoded_request_facts [OF assms(2)]
  have "responds (hd_api_key (rq_header rq)) (hd_correlation_id (rq_header rq)) r"
    using handler_responds [of rq tr e s] assms facts by (simp add: handle_frame_def)
  then show ?thesis using facts by (intro exI [of _ "(rq_header rq)\<lparr>hd_client_id := None\<rparr>"]) auto
qed

text \<open>A frame that is not decoded is answered only when it asks for the versions, under a version not supported.\<close>

lemma refused_frame_outcome:
  assumes "handle_frame tr e frame s = (r, s')" and "decode_request frame = Inl er"
  shows "s' = s \<and>
    (if er = UnsupportedVersion \<and> (\<exists>h. peek_header frame = Inr h \<and> hd_api_key h = API_API_VERSIONS)
     then \<exists>h. peek_header frame = Inr h \<and> hd_api_key h = API_API_VERSIONS
        \<and> r = Inr (response_frame (hd_correlation_id h) (response_field (ApiVersionsR UNSUPPORTED_VERSION SUPPORTED_VERSIONS)))
     else r = Inl er)"
proof (cases "er = UnsupportedVersion \<and> (\<exists>h. peek_header frame = Inr h \<and> hd_api_key h = API_API_VERSIONS)")
  case True
  then obtain h where h: "peek_header frame = Inr h" "hd_api_key h = API_API_VERSIONS" by blast
  have "r = encode_response (hd_correlation_id h) (ApiVersionsR UNSUPPORTED_VERSION SUPPORTED_VERSIONS)" "s' = s"
    using assms True h by (auto simp: handle_frame_def)
  then show ?thesis using True h versions_fit encode_response_Inr by metis
next
  case False
  then show ?thesis using assms by (auto simp: handle_frame_def split: WireError.splits sum.splits)
qed

section \<open>Properties\<close>

text \<open>
  C16: every frame is answered in kind. A response frame carries the four bytes of the request's own
  correlation id and its own length, and holds the Kafka encoding of a response of the API the
  request named, for ApiVersions also when the version is not supported. When there is no
  response, either the frame was refused by the decoder, with its error, before the broker was
  called at all, or a response field exceeded its bound.
\<close>

theorem frames_answered_in_kind:
  assumes "handle_frame tr e frame s = (r, s')"
  shows "case r of
      Inr bs \<Rightarrow> (\<exists>h resp. peek_header frame = Inr h \<and> answers resp (hd_api_key h) \<and> response_fits resp
                   \<and> bs = response_frame (hd_correlation_id h) (response_field resp))
                 \<and> take 4 (drop 4 bs) = take 4 (drop 8 frame) \<and> be_int 4 (take 4 bs) = wrap_signed 32 (int (length bs) - 4)
    | Inl er \<Rightarrow> decode_request frame = Inl er \<and> s' = s
        \<and> \<not> (er = UnsupportedVersion \<and> (\<exists>h. peek_header frame = Inr h \<and> hd_api_key h = API_API_VERSIONS))
        \<or> (\<exists>rq. decode_request frame = Inr rq) \<and> (er = TooLarge \<or> er = Invalid)"
proof (cases "decode_request frame")
  case (Inr rq)
  obtain h where h: "peek_header frame = Inr h" "responds (hd_api_key h) (hd_correlation_id h) r"
    using decoded_frame_outcome [OF assms Inr] by blast
  show ?thesis
  proof (cases r)
    case (Inl er)
    then show ?thesis using h(2) Inr by (auto simp: responds_def)
  next
    case (Inr bs)
    then show ?thesis using h response_frame_shape [OF h(1)] by (auto simp: responds_def)
  qed
next
  case (Inl er)
  note out = refused_frame_outcome [OF assms Inl]
  show ?thesis
  proof (cases "er = UnsupportedVersion \<and> (\<exists>h. peek_header frame = Inr h \<and> hd_api_key h = API_API_VERSIONS)")
    case True
    let ?resp = "ApiVersionsR UNSUPPORTED_VERSION SUPPORTED_VERSIONS"
    obtain h where h: "peek_header frame = Inr h" "hd_api_key h = API_API_VERSIONS"
      "r = Inr (response_frame (hd_correlation_id h) (response_field ?resp))"
      using out True by auto
    then show ?thesis
      using response_frame_shape [OF h(1)] versions_fit [of UNSUPPORTED_VERSION] by (auto intro!: exI [of _ ?resp])
  next
    case False
    then show ?thesis using out Inl by auto
  qed
qed

definition demo_engine :: Engine where
  "demo_engine = \<lparr>en_broker = demo_broker, en_identity = identity_new 0 [104] 9092, en_max_fetch_records = 10,
     en_max_fetch_bytes = 4096\<rparr>"

definition demo_frame :: bytes where
  "demo_frame = client_frame (\<lambda>_ _. []) 7 None ApiVersions"

definition demo_versions :: bytes where
  "demo_versions = response_frame 7 (response_field (ApiVersionsR NO_ERROR SUPPORTED_VERSIONS))"

lemma demo_frame_handled: "handle_frame demo_transport demo_engine demo_frame s = (Inr demo_versions, s)"
proof -
  have d: "decode_request demo_frame = Inr \<lparr>rq_header = \<lparr>hd_api_key = 18, hd_api_version = 0, hd_correlation_id = 7,
      hd_client_id = None\<rparr>, rq_body = ApiVersions\<rparr>"
    using decode_client_frame [of "\<lambda>_ _. []" ApiVersions 7 None]
    by (simp add: opt_ok_def in_signed_def client_payload_def nullable_string_field_def MAX_FRAME_LEN_def demo_frame_def)
  have "encode_response 7 (ApiVersionsR NO_ERROR SUPPORTED_VERSIONS) = Inr demo_versions"
    unfolding demo_versions_def using versions_fit encode_response_Inr by blast
  then show ?thesis using d by (simp add: handle_frame_def handle_request_def encode_api_versions_def)
qed

theorem frames_answered_in_kind_witness:
  "handle_frame demo_transport demo_engine demo_frame sim_new = (Inr demo_versions, sim_new)
   \<and> take 4 (drop 4 demo_versions) = be_bytes 4 7"
proof -
  have "take 4 (drop 8 demo_frame) = be_bytes 4 7" by (simp add: demo_frame_def client_frame_def client_payload_def)
  then show ?thesis using frames_answered_in_kind [OF demo_frame_handled, of sim_new] demo_frame_handled by auto
qed

text \<open>
  C2: a producer's acknowledgement holds for every consumer. If the response to a produce request,
  transactional or not, reports success for a partition, then in every later fetch, of any client and after any other
  traffic, an entry for that partition without error has a high watermark past the produced
  records; what it returns at their offsets is exactly their timestamps, keys and values. A fetch that starts at one of
  their offsets begins with that record: under either isolation level when the request was not transactional, and under
  read-uncommitted when it was, since read-committed fetches skip records that are not committed. A fetch from
  those offsets never reports an unknown partition, and reports an offset out of range
  only when the logs have a byte budget.
\<close>

theorem produced_then_fetched:
  assumes "shard_transport tr cat mb good executed chan posted taken" and "good s"
    and "produce_topics tr e tid topics s = (results, s1)"
    and "(t, r) \<in> set (zip topics results)" and "(p, pr) \<in> set (zip (pt_partitions t) (ptr_partitions r))"
    and "ppr_error pr = NO_ERROR"
    and "good s2" and "executed s2 = executed s1 @ xs"
    and "fetch_topics tr e mx rc ftopics s2 = (fresults, s3)"
    and "(ft, fr) \<in> set (zip ftopics fresults)" and "(fp, fpr) \<in> set (zip (ft_partitions ft) (ftr_partitions fr))"
    and "ft_name ft = pt_name t" and "fp_partition fp = pp_partition p"
    and "int (length (partition_history cat (shard_index (en_broker e) (pt_name t) (pp_partition p))
           (pt_name t, pp_partition p) (executed s3))) \<le> max_signed 64"
  shows "(fpr_error fpr = NO_ERROR \<longrightarrow>
        ppr_base_offset pr + int (length (pp_records p)) \<le> fpr_high_watermark fpr
      \<and> (\<forall>rd \<in> set (fpr_records fpr). ppr_base_offset pr \<le> rec_offset rd
            \<and> rec_offset rd < ppr_base_offset pr + int (length (pp_records p))
           \<longrightarrow> data_from_record rd = pp_records p ! nat (rec_offset rd - ppr_base_offset pr))
      \<and> ((tid = None \<or> \<not> rc) \<and> 0 < en_max_fetch_records e \<and> ppr_base_offset pr \<le> fp_fetch_offset fp
            \<and> fp_fetch_offset fp < ppr_base_offset pr + int (length (pp_records p))
           \<longrightarrow> fpr_records fpr \<noteq> [] \<and> rec_offset (hd (fpr_records fpr)) = fp_fetch_offset fp))
    \<and> (ppr_base_offset pr \<le> fp_fetch_offset fp \<and> fp_fetch_offset fp \<le> ppr_base_offset pr + int (length (pp_records p))
         \<longrightarrow> fpr_error fpr \<in> {NO_ERROR, UNKNOWN_SERVER_ERROR} \<or> fpr_error fpr = OFFSET_OUT_OF_RANGE \<and> mb \<noteq> None)"
proof -
  note keeps = shard_transport.keeps_def [OF assms(1)]
  let ?h = "partition_history cat (shard_index (en_broker e) (pt_name t) (pp_partition p)) (pt_name t, pp_partition p)"
  obtain sa sb where a: "good sa" "\<exists>ys. executed s1 = executed sb @ ys"
    "shard_transport.acknowledged tr (en_broker e) (pt_name t) (pp_partition p) (pp_records p) (tid \<noteq> None) (ppr_base_offset pr) sa sb"
    using shard_transport.produce_entry [OF assms(1-6)] by (auto simp: keeps)
  obtain sc sd ro where c: "good sc" "\<exists>ys. executed sc = executed s2 @ ys" "\<exists>ys. executed s3 = executed sd @ ys"
    "fpr = fetch_result (fp_partition fp) ro"
    and f: "broker_fetch_with_isolation tr (en_broker e) (pt_name t) (pp_partition p) (fp_fetch_offset fp)
        (en_max_fetch_records e) (fetch_limit e mx (fp_partition_max_bytes fp)) rc sc = (ro, sd)"
    using shard_transport.fetch_entry [OF assms(1,7,9-11)] assms(12,13) by (auto simp: keeps)
  obtain ys where ys: "executed sc = executed sb @ ys" using a(2) c(2) assms(8) by auto
  have "length (?h (executed sd)) \<le> length (?h (executed s3))" using c(3) partition_history_mono by metis
  then have hb: "int (length (?h (executed sd))) \<le> max_signed 64" using assms(14) by simp
  show ?thesis
  proof (cases ro)
    case (Inl er)
    have "k = OffsetOutOfRange \<and> mb \<noteq> None"
      if "er = Core k" "ppr_base_offset pr \<le> fp_fetch_offset fp"
        "fp_fetch_offset fp \<le> ppr_base_offset pr + int (length (pp_records p))" for k
      by (rule shard_transport.acknowledged_refused [OF assms(1) a(1,3) c(1) ys _ hb that(2,3)]) (use f Inl that(1) in simp)
    then show ?thesis
      using Inl c(4) by (auto simp: fetch_result_def error_code_def split: BrokerError.splits LogError.splits)
  next
    case (Inr w)
    then show ?thesis
      using shard_transport.acknowledged_fetched [OF assms(1) a(1,3) c(1) ys _ hb] f c(4) by (simp add: fetch_result_def)
  qed
qed

theorem produced_then_fetched_witness:
  "\<exists>fresults s3. fetch_topics demo_transport demo_engine 4096 False
       [\<lparr>ft_name = [116], ft_partitions = [\<lparr>fp_partition = 0, fp_fetch_offset = 0, fp_partition_max_bytes = 4096\<rparr>]\<rparr>]
       demo_produced = (fresults, s3)
     \<and> map data_from_record (fpr_records (hd (ftr_partitions (hd fresults)))) = [datum 7]"
proof -
  let ?pp = "\<lparr>pp_partition = 0, pp_records = [datum 7], pp_producer = None\<rparr>"
    and ?pr = "\<lparr>ppr_partition = 0, ppr_error = 0, ppr_base_offset = 0, ppr_log_append_time_ms = - 1\<rparr>"
    and ?fp = "\<lparr>fp_partition = 0, fp_fetch_offset = 0, fp_partition_max_bytes = 4096\<rparr>"
    and ?fpr = "\<lparr>fpr_partition = 0, fpr_error = 0, fpr_high_watermark = 1, fpr_last_stable_offset = 1,
      fpr_aborted_transactions = None, fpr_records = [demo_record]\<rparr>"
  have p: "produce_topics demo_transport demo_engine None [\<lparr>pt_name = [116], pt_partitions = [?pp]\<rparr>] sim_new
      = ([\<lparr>ptr_name = [116], ptr_partitions = [?pr]\<rparr>], demo_produced)"
    by (simp add: produce_topics_def produce_one_def settle_def demo_engine_def demo_produce produce_result_def)
  have f: "fetch_topics demo_transport demo_engine 4096 False [\<lparr>ft_name = [116], ft_partitions = [?fp]\<rparr>] demo_produced
      = ([\<lparr>ftr_name = [116], ftr_partitions = [?fpr]\<rparr>], demo_fetched)"
    by (simp add: fetch_topics_def fetch_one_def settle_def demo_engine_def fetch_limit_def demo_fetch fetch_result_def)
  have g: "sim_good demo_catalog None demo_produced"
    unfolding demo_produced_def by (intro demo_step shard_transport.sound_data_ops [OF demo_is_transport] sim_new_good)
  have "int (length (partition_history demo_catalog (shard_index (en_broker demo_engine) [116] 0) ([116], 0) (sm_executed demo_fetched)))
      \<le> max_signed 64"
    by (simp add: partition_history_def demo_fetched_def commands_of_def hist_run_def check_partition_def demo_engine_def
        partition_count_def demo_catalog_def accepted_def MAX_APPEND_RECORDS_def max_signed_def)
  then have "data_from_record demo_record = datum 7"
    using produced_then_fetched [OF demo_is_transport sim_new_good p _ _ _ g _ f, of _ _ ?pp ?pr "[]" _ _ ?fp ?fpr]
    by (auto simp: demo_record_def)
  then show ?thesis using f by simp
qed

text \<open>
  C21: metadata agrees with routing. A request for named topics is answered entry by entry in its order,
  a request for all topics with every topic of the catalog once, ordered by name. An entry
  reports an unknown topic exactly when the catalog does not know it; otherwise it lists the partitions
  0, 1, 2, \<open>...\<close> without a gap, exactly those that produce and fetch requests are accepted for,
  all led and replicated by this node.
\<close>

theorem metadata_agrees_with_routing:
  assumes "catalog_reach (br_catalog (en_broker e))"
  shows "map wtm_name (response_topics e (Some names)) = names
    \<and> sorted_wrt (<) (map wtm_name (response_topics e None))
    \<and> wtm_name ` set (response_topics e None) = {name. broker_partition_count (en_broker e) name \<noteq> None}
    \<and> (\<forall>topics. \<forall>t \<in> set (response_topics e topics).
          wtm_error t = (if broker_partition_count (en_broker e) (wtm_name t) = None then UNKNOWN_TOPIC_OR_PARTITION else NO_ERROR)
        \<and> map pm_partition (wtm_partitions t) = [0..int (length (wtm_partitions t)) - 1]
        \<and> pm_partition ` set (wtm_partitions t) = {prt. check_partition (br_catalog (en_broker e)) (wtm_name t) prt = Inr ()}
        \<and> (\<forall>p \<in> set (wtm_partitions t). pm_error p = NO_ERROR \<and> pm_leader p = bi_node_id (en_identity e)
              \<and> pm_replicas p = [bi_node_id (en_identity e)] \<and> pm_isr p = [bi_node_id (en_identity e)]))"
proof -
  let ?c = "br_catalog (en_broker e)"
  note mc = metadata_complete [OF assms]
  have names: "map wtm_name (response_topics e None) = map tm_name (catalog_metadata ?c)"
    by (simp add: response_topics_def broker_metadata_def comp_def)
  have mem: "partition_count ?c (tm_name m) = Some (tm_partitions m)" if "m \<in> set (catalog_metadata ?c)" for m
    using mc that by (cases m) auto
  have mem': "\<exists>m \<in> set (catalog_metadata ?c). tm_name m = name" if "partition_count ?c name = Some n" for name n
    using mc that by (intro bexI [of _ "\<lparr>tm_name = name, tm_partitions = n\<rparr>"]) auto
  have listed: "name \<in> tm_name ` set (catalog_metadata ?c) \<longleftrightarrow> broker_partition_count (en_broker e) name \<noteq> None" for name
    unfolding broker_partition_count_def using mem mem' by (metis image_iff not_None_eq)
  have named: "map wtm_name (response_topics e (Some names)) = names"
    by (rule nth_equalityI) (simp_all add: response_topics_def split: option.splits)
  have entry: "if broker_partition_count (en_broker e) (wtm_name t) = None
      then wtm_error t = UNKNOWN_TOPIC_OR_PARTITION \<and> wtm_partitions t = []
      else wtm_error t = NO_ERROR \<and> wtm_partitions t = partitions_of e (the (broker_partition_count (en_broker e) (wtm_name t)))"
    if "t \<in> set (response_topics e topics)" for t topics
    using that mem
    by (cases topics) (auto simp: response_topics_def broker_metadata_def broker_partition_count_def split: option.splits if_splits)
  have "wtm_error t = (if broker_partition_count (en_broker e) (wtm_name t) = None then UNKNOWN_TOPIC_OR_PARTITION else NO_ERROR)
        \<and> map pm_partition (wtm_partitions t) = [0..int (length (wtm_partitions t)) - 1]
        \<and> pm_partition ` set (wtm_partitions t) = {prt. check_partition ?c (wtm_name t) prt = Inr ()}
        \<and> (\<forall>p \<in> set (wtm_partitions t). pm_error p = NO_ERROR \<and> pm_leader p = bi_node_id (en_identity e)
              \<and> pm_replicas p = [bi_node_id (en_identity e)] \<and> pm_isr p = [bi_node_id (en_identity e)])"
    if "t \<in> set (response_topics e topics)" for t topics
    using entry [OF that]
    by (cases "broker_partition_count (en_broker e) (wtm_name t)")
      (auto simp: broker_partition_count_def check_partition_def partitions_of_def image_image comp_def split: if_splits)
  moreover have "wtm_name ` set (response_topics e None) = {name. broker_partition_count (en_broker e) name \<noteq> None}"
    using listed arg_cong [OF names, of set] by auto
  ultimately show ?thesis using mc names named by auto
qed

theorem metadata_agrees_with_routing_witness:
  "map wtm_error (response_topics demo_engine (Some [[116], [117]])) = [NO_ERROR, UNKNOWN_TOPIC_OR_PARTITION]
   \<and> map wtm_name (response_topics demo_engine None) = [[116]]
   \<and> map wtm_name (response_topics demo_engine (Some [[116], [117]])) = [[116], [117]]"
proof -
  have "catalog_create catalog_new [116] 1 = Inr demo_catalog"
    by (simp add: catalog_create_def catalog_new_def demo_catalog_def)
  then have "catalog_reach (br_catalog (en_broker demo_engine))"
    using reach_create [OF reach_new] by (simp add: demo_engine_def)
  from metadata_agrees_with_routing [OF this, of "[[116], [117]]"] show ?thesis
    by (simp add: response_topics_def broker_partition_count_def demo_engine_def broker_metadata_def catalog_metadata_def
        partition_count_def demo_catalog_def)
qed

section \<open>Generated member ids\<close>

text \<open>
  A member that joins without an id gets one made of its request's correlation id alone: two clients
  that use the same number, up to its sign, are one member to the group.
\<close>

lemma generated_member_ids_collide: "generated_member_id (- c) = generated_member_id c"
  by (simp add: generated_member_id_def)

end
