(* ===== verification/Connection_Loops.thy ===== *)
theory Connection_Loops
  imports Broker_Engine
begin

text \<open>
  The two front ends of the engine: the connection loop of the TCP server
  (\<^verbatim>\<open>crates/broker-host/src/server.rs\<close>) and the accept and connection loops of the EL0 service with its
  diagnostics (\<^verbatim>\<open>crates/broker-el0/src/main.rs\<close>).

  Sockets belong to the operating system. The host loop reads from the bytes its client sends before the
  stream ends; the EL0 loops take the sequence of what their socket calls return. Sending
  is a parameter: it says whether a response could be sent.
\<close>

section \<open>The host connection loop\<close>

function host_loop ::
  "'s Transport \<Rightarrow> Engine \<Rightarrow> (bytes \<Rightarrow> 's \<Rightarrow> bool \<times> 's) \<Rightarrow> bytes \<Rightarrow> 's \<Rightarrow> bytes list \<times> 's" where
  "host_loop tr e write_all input s =
     (if length input < 4 then ([], s)
      else
        let prefix = take 4 input; len = be_int 4 prefix in
        if len \<le> 0 \<or> nat len > MAX_FRAME_LEN then ([], s)
        else if length (drop 4 input) < nat len then ([], s)
        else case handle_frame tr e (prefix @ take (nat len) (drop 4 input)) s of
          (Inl _, s1) \<Rightarrow> ([], s1)
        | (Inr response, s1) \<Rightarrow>
            (case write_all response s1 of
               (False, s2) \<Rightarrow> ([], s2)
             | (True, s2) \<Rightarrow>
                 let (out, s3) = host_loop tr e write_all (drop (4 + nat len) input) s2 in (response # out, s3)))"
  by pat_completeness auto
termination
  by (relation "measure (\<lambda>(tr, e, w, input, s). length input)") auto

declare host_loop.simps [simp del]

definition host_serve_connection ::
  "'s Transport \<Rightarrow> Engine \<Rightarrow> (bytes \<Rightarrow> 's \<Rightarrow> bool \<times> 's) \<Rightarrow> bool \<Rightarrow> bytes \<Rightarrow> 's \<Rightarrow> bytes list \<times> 's" where
  "host_serve_connection tr e write_all blocking input s =
     (if \<not> blocking then ([], s) else host_loop tr e write_all input s)"

section \<open>Constants and diagnostics of the EL0 service\<close>

definition SESSION_SHARD_COUNT :: nat where "SESSION_SHARD_COUNT = 2"
definition LISTEN_PORT :: int where "LISTEN_PORT = 9092"
definition ACCEPT_POLL_MS :: nat where "ACCEPT_POLL_MS = 25"
definition ACCEPT_RETRY_MAX_MS :: nat where "ACCEPT_RETRY_MAX_MS = 1000"
definition EL0_MAX_FRAME_LEN :: nat where "EL0_MAX_FRAME_LEN = 1024 * 1024"
definition HEARTBEAT_POLLS :: nat where "HEARTBEAT_POLLS = 400"

definition STAGE_ACCEPTED :: "64 word" where "STAGE_ACCEPTED = 1"
definition STAGE_RECEIVED :: "64 word" where "STAGE_RECEIVED = 2"
definition STAGE_DISPATCHING :: "64 word" where "STAGE_DISPATCHING = 3"
definition STAGE_HANDLED :: "64 word" where "STAGE_HANDLED = 4"
definition STAGE_SENDING :: "64 word" where "STAGE_SENDING = 5"
definition STAGE_SENT :: "64 word" where "STAGE_SENT = 6"
definition STAGE_RECEIVE_ERROR :: "64 word" where "STAGE_RECEIVE_ERROR = 7"
definition STAGE_ENGINE_ERROR :: "64 word" where "STAGE_ENGINE_ERROR = 8"
definition STAGE_SEND_ERROR :: "64 word" where "STAGE_SEND_ERROR = 9"
definition STAGE_CLOSED :: "64 word" where "STAGE_CLOSED = 10"

record Diagnostics =
  dg_next_connection :: "64 word"
  dg_accepted :: "64 word"
  dg_active :: "64 word"
  dg_chunks :: "64 word"
  dg_frames :: "64 word"
  dg_handled :: "64 word"
  dg_sent :: "64 word"
  dg_receive_errors :: "64 word"
  dg_engine_errors :: "64 word"
  dg_send_errors :: "64 word"
  dg_progress :: "64 word"
  dg_last_connection :: "64 word"
  dg_last_stage :: "64 word"
  dg_last_api_key :: "64 word"
  dg_last_api_version :: "64 word"
  dg_last_correlation :: "64 word"

definition diagnostics_default :: Diagnostics where
  "diagnostics_default = \<lparr>dg_next_connection = 0, dg_accepted = 0, dg_active = 0, dg_chunks = 0, dg_frames = 0, dg_handled = 0,
     dg_sent = 0, dg_receive_errors = 0, dg_engine_errors = 0, dg_send_errors = 0, dg_progress = 0, dg_last_connection = 0,
     dg_last_stage = 0, dg_last_api_key = 0, dg_last_api_version = 0, dg_last_correlation = 0\<rparr>"

definition mark :: "64 word \<Rightarrow> 64 word \<Rightarrow> Diagnostics \<Rightarrow> Diagnostics" where
  "mark connection stage d =
     d\<lparr>dg_last_connection := connection, dg_last_stage := stage, dg_progress := dg_progress d + 1\<rparr>"

definition accepted_connection :: "Diagnostics \<Rightarrow> 64 word \<times> Diagnostics" where
  "accepted_connection d =
     (let connection = dg_next_connection d + 1
      in (connection, mark connection STAGE_ACCEPTED
            (d\<lparr>dg_next_connection := connection, dg_accepted := dg_accepted d + 1, dg_active := dg_active d + 1\<rparr>)))"

definition mark_frame :: "64 word \<Rightarrow> bytes \<Rightarrow> Diagnostics \<Rightarrow> Diagnostics" where
  "mark_frame connection frame d =
     mark connection STAGE_DISPATCHING
       (if 12 \<le> length frame
        then d\<lparr>dg_last_api_key := word_of_int (be_uint (take 2 (drop 4 frame))),
               dg_last_api_version := word_of_int (be_uint (take 2 (drop 6 frame))),
               dg_last_correlation := word_of_int (be_uint (take 4 (drop 8 frame)))\<rparr>
        else d)"

text \<open>Dropping \<^verbatim>\<open>ActiveConnection\<close>, on every way out of the connection loop.\<close>

definition connection_closed :: "64 word \<Rightarrow> Diagnostics \<Rightarrow> Diagnostics" where
  "connection_closed connection d = mark connection STAGE_CLOSED (d\<lparr>dg_active := dg_active d - 1\<rparr>)"

text \<open>
  The advertised port is computed at compile time; there an overflow of \<^verbatim>\<open>i32\<close> is a compile error,
  \<open>None\<close>.
\<close>

fun port_loop :: "bytes \<Rightarrow> int \<Rightarrow> int option" where
  "port_loop [] v = Some (if v > 0 \<and> v \<le> 65535 then v else LISTEN_PORT)"
| "port_loop (digit # digits) v =
     (if digit < 48 \<or> digit > 57 then Some LISTEN_PORT
      else let v' = v * 10 + uint (digit - 48) in
        if v' > max_signed 32 then None else port_loop digits v')"

definition decimal_port :: "bytes \<Rightarrow> int option" where
  "decimal_port text = port_loop text 0"

section \<open>The EL0 connection loop\<close>

text \<open>
  The inner loop over complete frames in the buffer. The result says whether the
  connection stays open, what is left in the buffer, and the responses sent.
\<close>

function el0_frames ::
  "'s Transport \<Rightarrow> Engine \<Rightarrow> (bytes \<Rightarrow> 's \<Rightarrow> bool \<times> 's) \<Rightarrow> 64 word \<Rightarrow> bytes \<Rightarrow> Diagnostics \<Rightarrow> 's
     \<Rightarrow> bool \<times> bytes \<times> bytes list \<times> Diagnostics \<times> 's" where
  "el0_frames tr e send_all connection buffer d s =
     (if length buffer < 4 then (True, buffer, [], d, s)
      else
        let len = be_int 4 (take 4 buffer) in
        if len \<le> 0 \<or> nat len > EL0_MAX_FRAME_LEN then (False, buffer, [], d, s)
        else
          let total = 4 + nat len in
          if length buffer < total then (True, buffer, [], d, s)
          else
            let frame = take total buffer; rest = drop total buffer;
                d1 = mark_frame connection frame (d\<lparr>dg_frames := dg_frames d + 1\<rparr>)
            in case handle_frame tr e frame s of
                 (Inr response, s1) \<Rightarrow>
                   let d2 = mark connection STAGE_SENDING
                              (mark connection STAGE_HANDLED (d1\<lparr>dg_handled := dg_handled d1 + 1\<rparr>))
                   in (case send_all response s1 of
                         (False, s2) \<Rightarrow> (False, rest, [],
                           mark connection STAGE_SEND_ERROR (d2\<lparr>dg_send_errors := dg_send_errors d2 + 1\<rparr>), s2)
                       | (True, s2) \<Rightarrow>
                           let (open, buffer', out, d3, s3) =
                             el0_frames tr e send_all connection rest
                               (mark connection STAGE_SENT (d2\<lparr>dg_sent := dg_sent d2 + 1\<rparr>)) s2
                           in (open, buffer', response # out, d3, s3))
               | (Inl _, s1) \<Rightarrow> (False, rest, [],
                   mark connection STAGE_ENGINE_ERROR (d1\<lparr>dg_engine_errors := dg_engine_errors d1 + 1\<rparr>), s1))"
  by pat_completeness auto
termination
  by (relation "measure (\<lambda>(tr, e, w, c, buffer, d, s). length buffer)") auto

declare el0_frames.simps [simp del]

text \<open>
  What \<^verbatim>\<open>receive_timeout\<close> returns: a chunk, with whether its memory could be mapped, the end of
  the stream, a timeout, or another error.
\<close>

datatype Reception = Chunk bytes bool | EndOfStream | RetryExhausted | ReceiveFailed

datatype ConnectionEnd = Serving | ShutdownRequested | ConnectionClosed

text \<open>Each turn of the loop sees whether a shutdown is requested, and then a reception.\<close>

fun el0_serve ::
  "'s Transport \<Rightarrow> Engine \<Rightarrow> (bytes \<Rightarrow> 's \<Rightarrow> bool \<times> 's) \<Rightarrow> 64 word \<Rightarrow> (bool \<times> Reception) list \<Rightarrow> bytes \<Rightarrow> Diagnostics \<Rightarrow> 's
     \<Rightarrow> ConnectionEnd \<times> bytes list \<times> Diagnostics \<times> 's" where
  "el0_serve tr e send_all connection [] buffer d s = (Serving, [], d, s)"
| "el0_serve tr e send_all connection ((shutdown, reception) # turns) buffer d s =
     (if shutdown then (ShutdownRequested, [], connection_closed connection d, s)
      else case reception of
        Chunk bs mapped \<Rightarrow>
          let d1 = mark connection STAGE_RECEIVED (d\<lparr>dg_chunks := dg_chunks d + 1\<rparr>);
              (open, buffer', out, d2, s2) =
                el0_frames tr e send_all connection (if mapped then buffer @ bs else buffer) d1 s
          in if open
             then let (r, out', d3, s3) = el0_serve tr e send_all connection turns buffer' d2 s2 in (r, out @ out', d3, s3)
             else (ConnectionClosed, out, connection_closed connection d2, s2)
      | EndOfStream \<Rightarrow> (ConnectionClosed, [], connection_closed connection d, s)
      | RetryExhausted \<Rightarrow> el0_serve tr e send_all connection turns buffer d s
      | ReceiveFailed \<Rightarrow> (ConnectionClosed, [], connection_closed connection
          (mark connection STAGE_RECEIVE_ERROR (d\<lparr>dg_receive_errors := dg_receive_errors d + 1\<rparr>)), s))"

definition el0_serve_connection ::
  "'s Transport \<Rightarrow> Engine \<Rightarrow> (bytes \<Rightarrow> 's \<Rightarrow> bool \<times> 's) \<Rightarrow> 64 word \<Rightarrow> (bool \<times> Reception) list \<Rightarrow> Diagnostics \<Rightarrow> 's
     \<Rightarrow> ConnectionEnd \<times> bytes list \<times> Diagnostics \<times> 's" where
  "el0_serve_connection tr e send_all connection turns d s = el0_serve tr e send_all connection turns [] d s"

section \<open>The EL0 accept loop\<close>

definition accept_retry_delay_ms :: "nat \<Rightarrow> nat" where
  "accept_retry_delay_ms failures =
     (let shift = min (failures - 1) 6 in min (ACCEPT_POLL_MS * 2 ^ shift) ACCEPT_RETRY_MAX_MS)"

text \<open>
  The loop as a machine driven by what its calls return. Without a listener a turn opens a socket
  and listens on it; with one, a turn polls it for a connection. The actions are the sleeps,
  the heartbeat log, and the sessions started, each with its connection id and shard. Listening aborts the whole
  domain when the page for its port or the call itself fails.
\<close>

datatype AcceptEvent =
    AcceptShutdown
  | OpenFailed
  | ListenAborted
  | ListenFailed
  | Listening
  | AcceptCallFailed
  | AcceptRefused
  | AcceptWouldBlock
  | AcceptReady

datatype AcceptAction = Sleep nat | LogHeartbeat | DomainAbort | StartSession "64 word" nat

record AcceptState =
  as_listening :: bool
  as_stopped :: bool
  as_heartbeat_polls :: nat
  as_retry_failures :: nat
  as_diagnostics :: Diagnostics

definition accept_init :: "Diagnostics \<Rightarrow> AcceptState" where
  "accept_init d = \<lparr>as_listening = False, as_stopped = False, as_heartbeat_polls = 0, as_retry_failures = 0,
     as_diagnostics = d\<rparr>"

definition next_failure :: "nat \<Rightarrow> nat" where
  "next_failure n = min (n + 1) (2 ^ 32 - 1)"

fun accept_step :: "SessionShardLayout \<Rightarrow> AcceptEvent \<Rightarrow> AcceptState \<Rightarrow> AcceptAction list \<times> AcceptState" where
  "accept_step layout AcceptShutdown a = ([], a\<lparr>as_stopped := True\<rparr>)"
| "accept_step layout OpenFailed a =
     (let n = next_failure (as_retry_failures a) in ([Sleep (accept_retry_delay_ms n)], a\<lparr>as_retry_failures := n\<rparr>))"
| "accept_step layout ListenAborted a = ([DomainAbort], a\<lparr>as_stopped := True\<rparr>)"
| "accept_step layout ListenFailed a =
     (let n = next_failure (as_retry_failures a) in ([Sleep (accept_retry_delay_ms n)], a\<lparr>as_retry_failures := n\<rparr>))"
| "accept_step layout Listening a = ([], a\<lparr>as_retry_failures := 0, as_listening := True\<rparr>)"
| "accept_step layout AcceptCallFailed a =
     (let n = next_failure (as_retry_failures a)
      in ([Sleep (accept_retry_delay_ms n)], a\<lparr>as_retry_failures := n, as_listening := False\<rparr>))"
| "accept_step layout AcceptRefused a =
     (let n = next_failure (as_retry_failures a)
      in ([Sleep (accept_retry_delay_ms n)], a\<lparr>as_retry_failures := n, as_listening := False\<rparr>))"
| "accept_step layout AcceptWouldBlock a =
     (let polls = as_heartbeat_polls a + 1 in
      if polls = HEARTBEAT_POLLS then ([Sleep ACCEPT_POLL_MS, LogHeartbeat], a\<lparr>as_heartbeat_polls := 0\<rparr>)
      else ([Sleep ACCEPT_POLL_MS], a\<lparr>as_heartbeat_polls := polls\<rparr>))"
| "accept_step layout AcceptReady a =
     (let (connection, d) = accepted_connection (as_diagnostics a)
      in ([StartSession connection (shard_for layout connection)],
          a\<lparr>as_retry_failures := 0, as_listening := False, as_diagnostics := d\<rparr>))"

text \<open>Which events a turn can see, and whole runs.\<close>

definition accept_enabled :: "AcceptState \<Rightarrow> AcceptEvent \<Rightarrow> bool" where
  "accept_enabled a ev \<longleftrightarrow> \<not> as_stopped a \<and>
     (ev = AcceptShutdown
      \<or> (if as_listening a then ev \<in> {AcceptCallFailed, AcceptRefused, AcceptWouldBlock, AcceptReady}
         else ev \<in> {OpenFailed, ListenAborted, ListenFailed, Listening}))"

inductive accept_run :: "SessionShardLayout \<Rightarrow> AcceptState \<Rightarrow> AcceptAction list \<Rightarrow> AcceptState \<Rightarrow> bool"
  for layout :: SessionShardLayout where
  accept_nil: "accept_run layout a [] a"
| accept_more: "accept_run layout a acts b \<Longrightarrow> accept_enabled b ev \<Longrightarrow> accept_step layout ev b = (more_acts, c)
     \<Longrightarrow> accept_run layout a (acts @ more_acts) c"

end
