(* ===== verification/Connection_Properties.thy ===== *)
theory Connection_Properties
  imports Connection_Loops Engine_Properties
begin

text \<open>
  Both front ends serve a connection alike: the EL0 service, which collects chunks in a buffer, sends
  the responses that the host server, which reads one frame after the other, sends for
  the same bytes. Further down, the bounds of the accept loop and what can happen in it.
\<close>

section \<open>Frames in a buffer\<close>

text \<open>A buffer without a complete frame and without an invalid length.\<close>

definition awaiting :: "bytes \<Rightarrow> bool" where
  "awaiting buffer \<longleftrightarrow> length buffer < 4 \<or>
     (let len = be_int 4 (take 4 buffer) in 0 < len \<and> nat len \<le> MAX_FRAME_LEN \<and> length buffer < 4 + nat len)"

lemma frame_limits_agree: "EL0_MAX_FRAME_LEN = MAX_FRAME_LEN"
  by (simp add: EL0_MAX_FRAME_LEN_def MAX_FRAME_LEN_def)

lemma host_awaiting: "awaiting input \<Longrightarrow> host_loop tr e w input s = ([], s)"
  by (auto simp: host_loop.simps [of _ _ _ input] awaiting_def Let_def)

definition frame_len :: "bytes \<Rightarrow> nat" where
  "frame_len buffer = 4 + nat (be_int 4 (take 4 buffer))"

text \<open>A buffer that starts with a complete frame.\<close>

definition framed_start :: "bytes \<Rightarrow> bool" where
  "framed_start buffer \<longleftrightarrow> 4 \<le> length buffer \<and> 0 < be_int 4 (take 4 buffer)
     \<and> nat (be_int 4 (take 4 buffer)) \<le> MAX_FRAME_LEN \<and> frame_len buffer \<le> length buffer"

lemma framed_start_append:
  assumes "framed_start b"
  shows "framed_start (b @ xs)" "frame_len (b @ xs) = frame_len b" "take (frame_len b) (b @ xs) = take (frame_len b) b"
    "drop (frame_len b) (b @ xs) = drop (frame_len b) b @ xs"
  using assms by (auto simp: framed_start_def frame_len_def)

lemma host_frame:
  assumes "framed_start b"
  shows "host_loop tr e w b s =
    (case handle_frame tr e (take (frame_len b) b) s of
       (Inl _, s1) \<Rightarrow> ([], s1)
     | (Inr response, s1) \<Rightarrow>
         (case w response s1 of
            (False, s2) \<Rightarrow> ([], s2)
          | (True, s2) \<Rightarrow> let (out, s3) = host_loop tr e w (drop (frame_len b) b) s2 in (response # out, s3)))"
proof -
  have "take 4 b @ take (nat (be_int 4 (take 4 b))) (drop 4 b) = take (4 + nat (be_int 4 (take 4 b))) b"
    by (rule take_add [symmetric])
  then show ?thesis
    using assms unfolding frame_len_def framed_start_def by (subst host_loop.simps) (auto simp: Let_def)
qed

lemma el0_frames_cases:
  fixes b tr e w c d s
  defines "d1 \<equiv> mark_frame c (take (frame_len b) b) (d\<lparr>dg_frames := dg_frames d + 1\<rparr>)"
  defines "d2 \<equiv> mark c STAGE_SENDING (mark c STAGE_HANDLED (d1\<lparr>dg_handled := dg_handled d1 + 1\<rparr>))"
  shows "el0_frames tr e w c b d s =
    (if awaiting b then (True, b, [], d, s)
     else if \<not> framed_start b then (False, b, [], d, s)
     else case handle_frame tr e (take (frame_len b) b) s of
       (Inl _, s1) \<Rightarrow> (False, drop (frame_len b) b, [],
          mark c STAGE_ENGINE_ERROR (d1\<lparr>dg_engine_errors := dg_engine_errors d1 + 1\<rparr>), s1)
     | (Inr response, s1) \<Rightarrow>
         (case w response s1 of
            (False, s2) \<Rightarrow> (False, drop (frame_len b) b, [],
              mark c STAGE_SEND_ERROR (d2\<lparr>dg_send_errors := dg_send_errors d2 + 1\<rparr>), s2)
          | (True, s2) \<Rightarrow> let (opn, b', out, d3, s3) = el0_frames tr e w c (drop (frame_len b) b)
                (mark c STAGE_SENT (d2\<lparr>dg_sent := dg_sent d2 + 1\<rparr>)) s2
              in (opn, b', response # out, d3, s3)))"
proof (cases "framed_start b")
  case True
  then have c: "awaiting b = False" "(length b < 4) = False" "(length b < 4 + nat (be_int 4 (take 4 b))) = False"
    "(be_int 4 (take 4 b) \<le> 0 \<or> MAX_FRAME_LEN < nat (be_int 4 (take 4 b))) = False"
    by (auto simp: awaiting_def framed_start_def frame_len_def Let_def)
  show ?thesis
    unfolding d1_def d2_def el0_frames.simps [of tr e w c b d s] frame_limits_agree Let_def
    by (simp only: c True if_False frame_len_def not_True_eq_False)
next
  case False
  then show ?thesis
    by (subst el0_frames.simps) (auto simp: awaiting_def framed_start_def frame_len_def Let_def frame_limits_agree)
qed

text \<open>The inner loop consumes what the host would, whatever follows in the stream.\<close>

lemma el0_frames_host:
  assumes "el0_frames tr e w c b d s = (opn, rest, out, d', s')"
  shows "(opn \<longrightarrow> awaiting rest \<and> host_loop tr e w (b @ xs) s =
        (out @ fst (host_loop tr e w (rest @ xs) s'), snd (host_loop tr e w (rest @ xs) s')))
    \<and> (\<not> opn \<longrightarrow> host_loop tr e w (b @ xs) s = (out, s'))"
  using assms
proof (induction "length b" arbitrary: b d s opn rest out d' s' rule: less_induct)
  case less
  show ?case
  proof (cases "framed_start b")
    case True
    note h = host_frame [OF framed_start_append(1) [OF True], of tr e w xs s, unfolded framed_start_append(2-4) [OF True]]
    have na: "\<not> awaiting b" and sh: "length (drop (frame_len b) b) < length b"
      using True by (auto simp: framed_start_def awaiting_def frame_len_def Let_def)
    note l = less.prems [unfolded el0_frames_cases [of tr e w c b]]
    show ?thesis
    proof (cases "handle_frame tr e (take (frame_len b) b) s")
      case (Pair r s1)
      show ?thesis
      proof (cases r)
        case (Inl er)
        then show ?thesis using l h Pair na True by auto
      next
        case (Inr response)
        obtain ok s2 where w: "w response s1 = (ok, s2)" by fastforce
        show ?thesis
        proof (cases ok)
          case False
          then show ?thesis using l h Pair Inr w na True by auto
        next
          case ok: True
          let ?d = "mark_frame c (take (frame_len b) b) (d\<lparr>dg_frames := dg_frames d + 1\<rparr>)"
          let ?d = "mark c STAGE_SENDING (mark c STAGE_HANDLED (?d\<lparr>dg_handled := dg_handled ?d + 1\<rparr>))"
          let ?d = "mark c STAGE_SENT (?d\<lparr>dg_sent := dg_sent ?d + 1\<rparr>)"
          obtain out' where rec: "el0_frames tr e w c (drop (frame_len b) b) ?d s2 = (opn, rest, out', d', s')"
            and out: "out = response # out'"
            using l Pair Inr w ok na True by (auto simp: Let_def split: prod.splits)
          show ?thesis
            using less.hyps [OF sh rec] h Pair Inr w ok out by (auto simp: Let_def split: prod.splits)
        qed
      qed
    qed
  next
    case False
    show ?thesis
    proof (cases "awaiting b")
      case True
      then have "opn = True" "rest = b" "out = []" "s' = s"
        using less.prems by (auto simp: el0_frames_cases [of tr e w c b])
      then show ?thesis using True by simp
    next
      case na: False
      then have "opn = False" "out = []" "s' = s"
        using less.prems False by (auto simp: el0_frames_cases [of tr e w c b])
      moreover have "host_loop tr e w (b @ xs) s = ([], s)"
        using na False
        by (subst host_loop.simps) (auto simp: awaiting_def framed_start_def frame_len_def Let_def)
      ultimately show ?thesis by simp
    qed
  qed
qed

section \<open>Whole connections\<close>

definition undisturbed :: "(bool \<times> Reception) list \<Rightarrow> bool" where
  "undisturbed turns \<longleftrightarrow> list_all (\<lambda>(shutdown, r). \<not> shutdown \<and> (r = RetryExhausted \<or> (\<exists>bs. r = Chunk bs True))) turns"

fun stream_of :: "(bool \<times> Reception) list \<Rightarrow> bytes" where
  "stream_of [] = []"
| "stream_of ((_, Chunk bs _) # turns) = bs @ stream_of turns"
| "stream_of (_ # turns) = stream_of turns"

lemma el0_serve_host:
  assumes "undisturbed turns" and "awaiting buffer"
    and "el0_serve tr e w c (turns @ [(False, EndOfStream)]) buffer d s = (r, out, d', s')"
  shows "r = ConnectionClosed \<and> host_loop tr e w (buffer @ stream_of turns) s = (out, s')"
  using assms
proof (induction turns arbitrary: buffer d s r out d' s')
  case Nil
  then show ?case by (auto simp: host_awaiting)
next
  case (Cons t turns)
  have u: "undisturbed turns" using Cons.prems(1) by (simp add: undisturbed_def)
  consider (retry) "t = (False, RetryExhausted)" | (chunk) bs where "t = (False, Chunk bs True)"
    using Cons.prems(1) by (auto simp: undisturbed_def)
  then show ?case
  proof cases
    case retry
    then show ?thesis using Cons.IH [OF u Cons.prems(2)] Cons.prems(3) by simp
  next
    case (chunk bs)
    obtain opn rest out1 d1 s1 where f: "el0_frames tr e w c (buffer @ bs)
        (mark c STAGE_RECEIVED (d\<lparr>dg_chunks := dg_chunks d + 1\<rparr>)) s = (opn, rest, out1, d1, s1)"
      by (metis prod_cases5)
    note h = el0_frames_host [OF f, of "stream_of turns"]
    show ?thesis
    proof (cases opn)
      case True
      obtain r2 out2 d2 s2 where v: "el0_serve tr e w c (turns @ [(False, EndOfStream)]) rest d1 s1 = (r2, out2, d2, s2)"
        by (metis prod_cases4)
      have "awaiting rest" using h True by simp
      from Cons.IH [OF u this v] show ?thesis
        using Cons.prems(3) chunk f True v h by simp
    next
      case False
      then show ?thesis using Cons.prems(3) chunk f h by simp
    qed
  qed
qed

section \<open>Diagnostics\<close>

lemma mark_counters [simp]:
  "dg_frames (mark c st d) = dg_frames d" "dg_handled (mark c st d) = dg_handled d" "dg_sent (mark c st d) = dg_sent d"
  "dg_engine_errors (mark c st d) = dg_engine_errors d" "dg_send_errors (mark c st d) = dg_send_errors d"
  "dg_active (mark c st d) = dg_active d" "dg_next_connection (mark c st d) = dg_next_connection d"
  by (simp_all add: mark_def)

lemma mark_frame_counters [simp]:
  "dg_frames (mark_frame c fr d) = dg_frames d" "dg_handled (mark_frame c fr d) = dg_handled d" "dg_sent (mark_frame c fr d) = dg_sent d"
  "dg_engine_errors (mark_frame c fr d) = dg_engine_errors d" "dg_send_errors (mark_frame c fr d) = dg_send_errors d"
  "dg_active (mark_frame c fr d) = dg_active d"
  by (simp_all add: mark_frame_def)

text \<open>The counters account for every frame and every response, modulo the width of a counter.\<close>

definition tallied :: "nat \<Rightarrow> Diagnostics \<Rightarrow> Diagnostics \<Rightarrow> bool" where
  "tallied n d d' \<longleftrightarrow> dg_sent d' = dg_sent d + of_nat n
     \<and> dg_frames d' - dg_frames d = (dg_handled d' - dg_handled d) + (dg_engine_errors d' - dg_engine_errors d)
     \<and> dg_handled d' - dg_handled d = of_nat n + (dg_send_errors d' - dg_send_errors d)"

lemma tallied_refl: "tallied 0 d d"
  by (simp add: tallied_def)

lemma tallied_trans:
  assumes "tallied n d d1" and "tallied m d1 d2"
  shows "tallied (n + m) d d2"
proof -
  have split: "f d2 - f d = (f d1 - f d) + (f d2 - f d1)" for f :: "Diagnostics \<Rightarrow> 64 word" by simp
  show ?thesis
    using assms unfolding tallied_def split [of dg_frames] split [of dg_handled] split [of dg_engine_errors]
      split [of dg_send_errors] of_nat_add
    by (elim conjE) (simp only: add_ac)
qed

lemma el0_frames_tallied:
  assumes "el0_frames tr e w c b d s = (opn, rest, out, d', s')"
  shows "tallied (length out) d d' \<and> dg_active d' = dg_active d"
  using assms
proof (induction "length b" arbitrary: b d s opn rest out d' s' rule: less_induct)
  case less
  note l = less.prems [unfolded el0_frames_cases [of tr e w c b]]
  show ?case
  proof (cases "framed_start b")
    case False
    then show ?thesis using l by (auto simp: tallied_refl split: if_splits)
  next
    case True
    have na: "\<not> awaiting b" and sh: "length (drop (frame_len b) b) < length b"
      using True by (auto simp: framed_start_def awaiting_def frame_len_def Let_def)
    obtain r s1 where hf: "handle_frame tr e (take (frame_len b) b) s = (r, s1)" by fastforce
    show ?thesis
    proof (cases r)
      case (Inl er)
      then show ?thesis using l hf na True by (auto simp: tallied_def)
    next
      case (Inr response)
      obtain ok s2 where w: "w response s1 = (ok, s2)" by fastforce
      show ?thesis
      proof (cases ok)
        case False
        then show ?thesis using l hf Inr w na True by (auto simp: tallied_def)
      next
        case ok: True
        obtain d3 out' where rec: "el0_frames tr e w c (drop (frame_len b) b) d3 s2 = (opn, rest, out', d', s')"
          and out: "out = response # out'" and d3: "tallied 1 d d3" "dg_active d3 = dg_active d"
          using l hf Inr w ok na True by (fastforce simp: tallied_def Let_def split: prod.splits)
        show ?thesis using less.hyps [OF sh rec] d3 tallied_trans [OF d3(1)] out by fastforce
      qed
    qed
  qed
qed

lemma el0_serve_tallied:
  assumes "el0_serve tr e w c turns buffer d s = (r, out, d', s')"
  shows "tallied (length out) d d' \<and> dg_active d' = (if r = Serving then dg_active d else dg_active d - 1)"
  using assms
proof (induction turns arbitrary: buffer d s r out d' s')
  case Nil
  then show ?case by (simp add: tallied_refl)
next
  case (Cons t turns)
  obtain shutdown rc where t: "t = (shutdown, rc)" by fastforce
  show ?case
  proof (cases "\<not> shutdown \<and> (\<exists>bs mapped. rc = Chunk bs mapped)")
    case True
    then obtain bs mapped where c: "\<not> shutdown" "rc = Chunk bs mapped" by blast
    let ?b = "if mapped then buffer @ bs else buffer" and ?d = "mark c STAGE_RECEIVED (d\<lparr>dg_chunks := dg_chunks d + 1\<rparr>)"
    obtain opn rest out1 d1 s1 where f: "el0_frames tr e w c ?b ?d s = (opn, rest, out1, d1, s1)" by (metis prod_cases5)
    have "tallied (length out1) ?d d1 \<and> dg_active d1 = dg_active ?d" by (rule el0_frames_tallied [OF f])
    then have t1: "tallied (length out1) d d1" "dg_active d1 = dg_active d" by (simp_all add: tallied_def)
    show ?thesis
    proof (cases opn)
      case False
      then show ?thesis using Cons.prems t c f t1 by (auto simp: connection_closed_def tallied_def)
    next
      case opn: True
      obtain r2 out2 d2 s2 where v: "el0_serve tr e w c turns rest d1 s1 = (r2, out2, d2, s2)" by (metis prod_cases4)
      show ?thesis
        using Cons.IH [OF v] Cons.prems t c f v opn t1 tallied_trans [OF t1(1), of "length out2" d2] by auto
    qed
  next
    case False
    then show ?thesis
      using Cons.prems Cons.IH t by (auto simp: tallied_def connection_closed_def split: if_splits Reception.splits)
  qed
qed

section \<open>The accept loop\<close>

lemma accept_retry_delay_bounds: "ACCEPT_POLL_MS \<le> accept_retry_delay_ms n \<and> accept_retry_delay_ms n \<le> ACCEPT_RETRY_MAX_MS"
  by (simp add: accept_retry_delay_ms_def ACCEPT_POLL_MS_def ACCEPT_RETRY_MAX_MS_def Let_def)

lemma accept_retry_delay_mono: "n \<le> m \<Longrightarrow> accept_retry_delay_ms n \<le> accept_retry_delay_ms m"
proof -
  assume "n \<le> m"
  then have "(2::nat) ^ min (n - 1) 6 \<le> 2 ^ min (m - 1) 6" by (intro power_increasing) auto
  then show ?thesis unfolding accept_retry_delay_ms_def Let_def by (intro min.mono mult_le_mono2) simp_all
qed

lemma decimal_port_range: "decimal_port ds = Some p \<Longrightarrow> 1 \<le> p \<and> p \<le> 65535"
proof -
  have "port_loop ds v = Some p \<Longrightarrow> 1 \<le> p \<and> p \<le> 65535" for v
    by (induction ds v rule: port_loop.induct) (auto simp: LISTEN_PORT_def Let_def split: if_splits)
  then show "decimal_port ds = Some p \<Longrightarrow> 1 \<le> p \<and> p \<le> 65535" by (simp add: decimal_port_def)
qed

definition sessions :: "AcceptAction list \<Rightarrow> (64 word \<times> nat) list" where
  "sessions acts = concat (map (\<lambda>a. case a of StartSession c i \<Rightarrow> [(c, i)] | _ \<Rightarrow> []) acts)"

lemma sessions_simps [simp]:
  "sessions [] = []" "sessions (a @ b) = sessions a @ sessions b"
  "sessions [Sleep n] = []" "sessions [DomainAbort] = []" "sessions [Sleep n, LogHeartbeat] = []" "sessions [StartSession c i] = [(c, i)]"
  by (simp_all add: sessions_def)

inductive_cases accept_runE: "accept_run layout a acts b"

text \<open>
  Every accepted connection gets the next id and a session shard of the layout; the accept loop
  never sleeps longer than the retry limit.
\<close>

lemma accept_run_sessions:
  assumes "accept_run (layout_new 0 SESSION_SHARD_COUNT) a acts b" and "a = accept_init diagnostics_default"
  shows "map fst (sessions acts) = map (\<lambda>k. of_nat (Suc k)) [0..<length (sessions acts)]
    \<and> (\<forall>(c, i) \<in> set (sessions acts). i < SESSION_SHARD_COUNT)
    \<and> (\<forall>n. Sleep n \<in> set acts \<longrightarrow> n \<le> ACCEPT_RETRY_MAX_MS)
    \<and> dg_next_connection (as_diagnostics b) = of_nat (length (sessions acts))
    \<and> dg_active (as_diagnostics b) = of_nat (length (sessions acts))"
  using assms
proof (induction rule: accept_run.induct)
  case (accept_nil a)
  then show ?case by (simp add: accept_init_def diagnostics_default_def)
next
  case (accept_more a acts b ev more_acts c)
  note ih = accept_more.IH [OF accept_more.prems]
  show ?case
  proof (cases ev)
    case AcceptReady
    then have "more_acts = [StartSession (of_nat (Suc (length (sessions acts)))) (shard_for (layout_new 0 SESSION_SHARD_COUNT) (of_nat (Suc (length (sessions acts)))))]"
      "dg_next_connection (as_diagnostics c) = of_nat (Suc (length (sessions acts)))"
      "dg_active (as_diagnostics c) = of_nat (Suc (length (sessions acts)))"
      using accept_more.hyps(3) ih by (auto simp: accepted_connection_def Let_def add.commute)
    then show ?thesis
      using ih shard_for_range [of 0 SESSION_SHARD_COUNT "of_nat (Suc (length (sessions acts)))"]
      by (auto simp: SESSION_SHARD_COUNT_def)
  qed (use accept_more.hyps(3) ih accept_retry_delay_bounds in
      \<open>auto simp: Let_def ACCEPT_POLL_MS_def ACCEPT_RETRY_MAX_MS_def split: if_splits\<close>)
qed

text \<open>
  A successful listen resets the failure count, so a listener whose accept always fails is recreated
  after the shortest delay every time: the delay grows only for failures to open or listen.
\<close>

lemma accept_failures_never_back_off:
  assumes "accept_step layout Listening a = (acts, b)" and "accept_step layout AcceptCallFailed b = (acts', c)"
  shows "acts' = [Sleep ACCEPT_POLL_MS] \<and> as_retry_failures c = 1"
  using assms
  by (auto simp: next_failure_def accept_retry_delay_ms_def ACCEPT_POLL_MS_def ACCEPT_RETRY_MAX_MS_def Let_def)

text \<open>A chunk whose memory cannot be mapped is dropped from the middle of the stream without closing the connection.\<close>

lemma unmapped_chunk_lost:
  "el0_serve tr e w c ((False, Chunk bs False) # turns) [] d s
     = el0_serve tr e w c turns [] (mark c STAGE_RECEIVED (d\<lparr>dg_chunks := dg_chunks d + 1\<rparr>)) s"
  by (simp add: el0_frames.simps [of _ _ _ _ "[]"])

section \<open>Properties\<close>

text \<open>
  C9: both front ends serve a connection alike. However the client's bytes are cut into chunks and
  whatever timeouts lie between them, until the client closes the stream the EL0
  connection loop calls the engine with the same frames, and sends the same responses in the
  same order, as the host's loop does on the whole stream, also when a frame is
  invalid or a response cannot be sent. Its counters account for every frame and response,
  and the connection stops counting as active.
\<close>

theorem front_ends_agree:
  assumes "undisturbed turns"
    and "el0_serve_connection tr e send_all c (turns @ [(False, EndOfStream)]) d s = (r, out, d', s')"
  shows "r = ConnectionClosed \<and> host_serve_connection tr e send_all True (stream_of turns) s = (out, s')
    \<and> tallied (length out) d d' \<and> dg_active d' = dg_active d - 1"
proof -
  have aw: "awaiting []" by (simp add: awaiting_def)
  show ?thesis
    using el0_serve_host [OF assms(1) aw assms(2) [unfolded el0_serve_connection_def]]
      el0_serve_tallied [OF assms(2) [unfolded el0_serve_connection_def]]
    by (auto simp: host_serve_connection_def)
qed

theorem front_ends_agree_witness:
  "\<exists>d'. el0_serve_connection demo_transport demo_engine (\<lambda>response s. (True, s)) 1
       ([(False, Chunk (take 5 demo_frame) True), (False, RetryExhausted), (False, Chunk (drop 5 demo_frame) True)]
          @ [(False, EndOfStream)]) diagnostics_default sim_new = (ConnectionClosed, [demo_versions], d', sim_new)
     \<and> dg_sent d' = 1"
proof -
  let ?turns = "[(False, Chunk (take 5 demo_frame) True), (False, RetryExhausted), (False, Chunk (drop 5 demo_frame) True)]"
  have u: "undisturbed ?turns" by (simp add: undisturbed_def)
  obtain r out d' s' where v: "el0_serve_connection demo_transport demo_engine (\<lambda>response s. (True, s)) 1
      (?turns @ [(False, EndOfStream)]) diagnostics_default sim_new = (r, out, d', s')"
    by (metis prod_cases4)
  have fs: "framed_start demo_frame" and fl: "frame_len demo_frame = length demo_frame"
    by (simp_all add: demo_frame_def framed_start_def frame_len_def client_frame_def client_payload_def
        nullable_string_field_def be_int_bytes in_signed_def MAX_FRAME_LEN_def)
  have "host_loop demo_transport demo_engine (\<lambda>response s. (True, s)) demo_frame sim_new = ([demo_versions], sim_new)"
    by (simp add: host_frame [OF fs] fl demo_frame_handled host_awaiting awaiting_def)
  then have "out = [demo_versions]" "s' = sim_new" "r = ConnectionClosed" "dg_sent d' = 1"
    using front_ends_agree [OF u v] by (auto simp: host_serve_connection_def tallied_def diagnostics_default_def)
  then show ?thesis using v by auto
qed

end
