(* ===== verification/Smoke_Client.thy ===== *)
theory Smoke_Client
  imports Connection_Loops
begin

text \<open>
  The smoke client, \<^verbatim>\<open>crates/broker-host/examples/remote_smoke.rs\<close>: a program that connects to a broker, asks for versions and
  metadata, produces a record, fetches it back, and asks for the latest offset.

  Its socket and its codec (the package \<^verbatim>\<open>charlotte_kafka\<close>) are not part of the repository; they are the parameters
  \<open>TcpStream\<close> and \<open>ClientCodec\<close>. Of what the codec's parsers return, the records below have the parts that
  the program reads. The program's messages are constructors of an error type.
\<close>

section \<open>Parameters\<close>

record ('n, 'i) TcpStream =
  ts_connect :: "string \<Rightarrow> 'n \<Rightarrow> ('i + unit) \<times> 'n"
  ts_set_read_timeout :: "nat \<Rightarrow> 'n \<Rightarrow> ('i + unit) \<times> 'n"
  ts_write_all :: "bytes \<Rightarrow> 'n \<Rightarrow> ('i + unit) \<times> 'n"
  ts_read_exact :: "nat \<Rightarrow> 'n \<Rightarrow> ('i + bytes) \<times> 'n"

record ClientTopic =
  ct_topic :: bytes
  ct_error :: int
  ct_no_partitions :: bool

record ClientProduced =
  cp_error :: int
  cp_base_offset :: int

record ClientFetch =
  cl_topic :: bytes
  cl_partition :: int
  cl_offset :: int
  cl_max_wait_ms :: int
  cl_max_bytes :: int
  cl_read_committed :: bool

record ClientFetched =
  cf_error :: int
  cf_high_watermark :: int
  cf_values :: "bytes option list"

text \<open>Parsed versions are what the program uses of them, the test whether a version of an API is supported.\<close>

record 'e ClientCodec =
  cc_api_versions_request :: "int \<Rightarrow> bytes \<Rightarrow> 'e + bytes"
  cc_parse_api_versions :: "bytes \<Rightarrow> int \<Rightarrow> 'e + (int \<Rightarrow> int \<Rightarrow> bool)"
  cc_metadata_request_many :: "int \<Rightarrow> bytes \<Rightarrow> bytes list \<Rightarrow> 'e + bytes"
  cc_parse_metadata_many :: "bytes \<Rightarrow> int \<Rightarrow> 'e + ClientTopic list"
  cc_encode_record_batch :: "RecordData list \<Rightarrow> ProducerIdentity \<Rightarrow> int \<Rightarrow> bool \<Rightarrow> 'e + bytes"
  cc_produce_request :: "int \<Rightarrow> bytes \<Rightarrow> bytes option \<Rightarrow> bytes \<Rightarrow> int \<Rightarrow> bytes \<Rightarrow> int \<Rightarrow> 'e + bytes"
  cc_parse_produce :: "bytes \<Rightarrow> int \<Rightarrow> bytes \<Rightarrow> int \<Rightarrow> 'e + ClientProduced"
  cc_fetch_request :: "int \<Rightarrow> bytes \<Rightarrow> ClientFetch \<Rightarrow> 'e + bytes"
  cc_parse_fetch :: "bytes \<Rightarrow> int \<Rightarrow> bytes \<Rightarrow> int \<Rightarrow> 'e + ClientFetched"
  cc_list_offsets_request :: "int \<Rightarrow> bytes \<Rightarrow> bytes \<Rightarrow> int \<Rightarrow> bool \<Rightarrow> 'e + bytes"
  cc_parse_list_offsets :: "bytes \<Rightarrow> int \<Rightarrow> bytes \<Rightarrow> int \<Rightarrow> 'e + int"
  cc_api_produce :: int
  cc_version_produce :: int
  cc_api_fetch :: int
  cc_version_fetch :: int
  cc_no_error :: int

section \<open>Outcomes\<close>

datatype ('i, 'e) SmokeError =
    ConnectFailed string 'i
  | SetReadTimeoutFailed 'i
  | WriteRequestFailed 'i
  | ReadLengthFailed 'i
  | InvalidResponseLength int
  | ReadResponseFailed 'i
  | ClientError 'e
  | SubsetNotAdvertised
  | EventsOmitted
  | EventsMetadataError int
  | ProduceError int
  | FetchError int nat
  | ValueMismatch
  | LatestDidNotAdvance int

type_synonym ('n, 'i, 'e, 'a) smoke = "'n \<Rightarrow> (('i, 'e) SmokeError + 'a) \<times> 'n"

text \<open>The question mark operator, a fallible call without effect, and a socket call.\<close>

definition sbind :: "('n, 'i, 'e, 'a) smoke \<Rightarrow> ('a \<Rightarrow> ('n, 'i, 'e, 'b) smoke) \<Rightarrow> ('n, 'i, 'e, 'b) smoke" where
  "sbind f g n = (case f n of (Inl er, n') \<Rightarrow> (Inl er, n') | (Inr v, n') \<Rightarrow> g v n')"

definition sok :: "'a \<Rightarrow> ('n, 'i, 'e, 'a) smoke" where
  "sok v n = (Inr v, n)"

definition sfail :: "('i, 'e) SmokeError \<Rightarrow> ('n, 'i, 'e, 'a) smoke" where
  "sfail er n = (Inl er, n)"

definition codec :: "'e + 'a \<Rightarrow> ('n, 'i, 'e, 'a) smoke" where
  "codec r n = (map_sum ClientError (\<lambda>v. v) r, n)"

definition socket :: "('i \<Rightarrow> ('i, 'e) SmokeError) \<Rightarrow> ('n \<Rightarrow> ('i + 'a) \<times> 'n) \<Rightarrow> ('n, 'i, 'e, 'a) smoke" where
  "socket er f n = (case f n of (r, n') \<Rightarrow> (map_sum er (\<lambda>v. v) r, n'))"

section \<open>The program\<close>

text \<open>The topic \<^verbatim>\<open>events\<close>, the client id \<^verbatim>\<open>remote-smoke\<close>, and the record with key \<^verbatim>\<open>smoke\<close> and value \<^verbatim>\<open>remote\<close>.\<close>

definition EVENTS :: bytes where
  "EVENTS = [101, 118, 101, 110, 116, 115]"

definition CLIENT_ID :: bytes where
  "CLIENT_ID = [114, 101, 109, 111, 116, 101, 45, 115, 109, 111, 107, 101]"

definition smoke_record :: RecordData where
  "smoke_record = \<lparr>rd_timestamp_ms = 1000, rd_key = Some [115, 109, 111, 107, 101], rd_value = Some [114, 101, 109, 111, 116, 101]\<rparr>"

definition round_trip :: "('n, 'i) TcpStream \<Rightarrow> bytes \<Rightarrow> ('n, 'i, 'e, bytes) smoke" where
  "round_trip stream request =
     sbind (socket WriteRequestFailed (ts_write_all stream request)) (\<lambda>_.
     sbind (socket ReadLengthFailed (ts_read_exact stream 4)) (\<lambda>prefix.
     let len = be_int 4 prefix in
     if len \<le> 0 \<or> nat len > 1024 * 1024 then sfail (InvalidResponseLength len)
     else sbind (socket ReadResponseFailed (ts_read_exact stream (nat len))) (\<lambda>body.
     sok (prefix @ body))))"

definition smoke_versions :: "'e ClientCodec \<Rightarrow> ('n, 'i) TcpStream \<Rightarrow> ('n, 'i, 'e, unit) smoke" where
  "smoke_versions client stream =
     sbind (codec (cc_api_versions_request client 1 CLIENT_ID)) (\<lambda>request.
     sbind (round_trip stream request) (\<lambda>response.
     sbind (codec (cc_parse_api_versions client response 1)) (\<lambda>supports.
     if \<not> supports (cc_api_produce client) (cc_version_produce client) \<or> \<not> supports (cc_api_fetch client) (cc_version_fetch client)
     then sfail SubsetNotAdvertised else sok ())))"

definition smoke_metadata :: "'e ClientCodec \<Rightarrow> ('n, 'i) TcpStream \<Rightarrow> ('n, 'i, 'e, unit) smoke" where
  "smoke_metadata client stream =
     sbind (codec (cc_metadata_request_many client 2 CLIENT_ID [EVENTS])) (\<lambda>request.
     sbind (round_trip stream request) (\<lambda>response.
     sbind (codec (cc_parse_metadata_many client response 2)) (\<lambda>topics.
     case find (\<lambda>topic. ct_topic topic = EVENTS) topics of
       None \<Rightarrow> sfail EventsOmitted
     | Some events \<Rightarrow>
         if ct_error events \<noteq> cc_no_error client \<or> ct_no_partitions events
         then sfail (EventsMetadataError (ct_error events)) else sok ())))"

definition smoke_produce :: "'e ClientCodec \<Rightarrow> ('n, 'i) TcpStream \<Rightarrow> ('n, 'i, 'e, int) smoke" where
  "smoke_produce client stream =
     sbind (codec (cc_encode_record_batch client [smoke_record] \<lparr>pi_id = - 1, pi_epoch = - 1\<rparr> (- 1) False)) (\<lambda>batch.
     sbind (codec (cc_produce_request client 3 CLIENT_ID None EVENTS 0 batch 30000)) (\<lambda>request.
     sbind (round_trip stream request) (\<lambda>response.
     sbind (codec (cc_parse_produce client response 3 EVENTS 0)) (\<lambda>produced.
     if cp_error produced \<noteq> cc_no_error client then sfail (ProduceError (cp_error produced))
     else sok (cp_base_offset produced)))))"

definition smoke_fetch :: "'e ClientCodec \<Rightarrow> ('n, 'i) TcpStream \<Rightarrow> int \<Rightarrow> ('n, 'i, 'e, int) smoke" where
  "smoke_fetch client stream base_offset =
     sbind (codec (cc_fetch_request client 4 CLIENT_ID
       \<lparr>cl_topic = EVENTS, cl_partition = 0, cl_offset = base_offset, cl_max_wait_ms = 0, cl_max_bytes = 65536,
        cl_read_committed = True\<rparr>)) (\<lambda>request.
     sbind (round_trip stream request) (\<lambda>response.
     sbind (codec (cc_parse_fetch client response 4 EVENTS 0)) (\<lambda>fetched.
     if cf_error fetched \<noteq> cc_no_error client \<or> length (cf_values fetched) \<noteq> 1
     then sfail (FetchError (cf_error fetched) (length (cf_values fetched)))
     else if cf_values fetched ! 0 \<noteq> Some [114, 101, 109, 111, 116, 101] then sfail ValueMismatch
     else sok (cf_high_watermark fetched))))"

definition smoke_latest :: "'e ClientCodec \<Rightarrow> ('n, 'i) TcpStream \<Rightarrow> int \<Rightarrow> ('n, 'i, 'e, int) smoke" where
  "smoke_latest client stream base_offset =
     sbind (codec (cc_list_offsets_request client 5 CLIENT_ID EVENTS 0 False)) (\<lambda>request.
     sbind (round_trip stream request) (\<lambda>response.
     sbind (codec (cc_parse_list_offsets client response 5 EVENTS 0)) (\<lambda>latest.
     if latest \<le> base_offset then sfail (LatestDidNotAdvance latest) else sok latest)))"

text \<open>The summary has the base offset, the high watermark and the latest offset.\<close>

definition smoke_run :: "'e ClientCodec \<Rightarrow> ('n, 'i) TcpStream \<Rightarrow> string \<Rightarrow> ('n, 'i, 'e, int \<times> int \<times> int) smoke" where
  "smoke_run client stream address =
     sbind (socket (ConnectFailed address) (ts_connect stream address)) (\<lambda>_.
     sbind (socket SetReadTimeoutFailed (ts_set_read_timeout stream 10)) (\<lambda>_.
     sbind (smoke_versions client stream) (\<lambda>_.
     sbind (smoke_metadata client stream) (\<lambda>_.
     sbind (smoke_produce client stream) (\<lambda>base_offset.
     sbind (smoke_fetch client stream base_offset) (\<lambda>high_watermark.
     sbind (smoke_latest client stream base_offset) (\<lambda>latest.
     sok (base_offset, high_watermark, latest))))))))"

text \<open>The address is the first argument; the exit code tells whether the run failed.\<close>

definition smoke_main ::
  "'e ClientCodec \<Rightarrow> ('n, 'i) TcpStream \<Rightarrow> string list \<Rightarrow> 'n \<Rightarrow> (nat \<times> (('i, 'e) SmokeError + int \<times> int \<times> int)) \<times> 'n" where
  "smoke_main client stream args n =
     (let address = (if 1 < length args then args ! 1 else ''127.0.0.1:19099'') in
      case smoke_run client stream address n of
        (Inr summary, n') \<Rightarrow> ((0, Inr summary), n')
      | (Inl er, n') \<Rightarrow> ((1, Inl er), n'))"

end
