(* ===== verification/Smoke_Exchange.thy ===== *)
theory Smoke_Exchange
  imports Smoke_Client Engine_Properties Connection_Properties
begin

text \<open>
  The smoke client against the broker. Two interfaces say what the client relies on: a codec that
  writes requests and reads responses in the Kafka layout, and a connection that carries frames to the engine and its
  responses back, while other clients use the same broker.
\<close>

section \<open>The client's codec\<close>

definition one_produced :: "bytes \<Rightarrow> int \<Rightarrow> ProduceResponse \<Rightarrow> ProducePartitionResult set" where
  "one_produced topic prt r = {p. \<exists>t \<in> set (pr_topics r). ptr_name t = topic \<and> p \<in> set (ptr_partitions t) \<and> ppr_partition p = prt}"

definition one_fetched :: "bytes \<Rightarrow> int \<Rightarrow> FetchResponse \<Rightarrow> FetchPartitionResult set" where
  "one_fetched topic prt r = {p. \<exists>t \<in> set (fr_topics r). ftr_name t = topic \<and> p \<in> set (ftr_partitions t) \<and> fpr_partition p = prt}"

definition one_listed :: "bytes \<Rightarrow> int \<Rightarrow> ListOffsetsResponse \<Rightarrow> ListOffsetsPartitionResult set" where
  "one_listed topic prt r = {p. \<exists>t \<in> set (lr_topics r). ltr_name t = topic \<and> p \<in> set (ltr_partitions t) \<and> lpr_partition p = prt}"

locale client_codec =
  fixes client :: "'e ClientCodec"
  assumes versions_request: "cc_api_versions_request client cid name = Inr f \<Longrightarrow>
      f = client_frame (\<lambda>_ _. []) cid (Some name) ApiVersions"
    and metadata_request: "cc_metadata_request_many client cid name topics = Inr f \<Longrightarrow>
      f = client_frame (\<lambda>_ _. []) cid (Some name) (Metadata (Some topics))"
    and record_batch: "cc_encode_record_batch client rs \<lparr>pi_id = - 1, pi_epoch = - 1\<rparr> sq False = Inr b \<Longrightarrow>
      decode_record_batches_with_identity b = Inr \<lparr>db_records = rs, db_producer = None\<rparr> \<and> length b + 1024 \<le> MAX_FRAME_LEN"
    and produce_request: "cc_produce_request client cid name None topic prt b timeout = Inr f \<Longrightarrow>
      \<exists>acks. in_i16 acks \<and> (\<forall>rs producer. f = client_frame (\<lambda>_ _. b) cid (Some name)
        (Produce None acks timeout [\<lparr>pt_name = topic, pt_partitions = [\<lparr>pp_partition = prt, pp_records = rs, pp_producer = producer\<rparr>]\<rparr>]))"
    and fetch_request: "cc_fetch_request client cid name q = Inr f \<Longrightarrow>
      \<exists>replica mn pmx. in_i32 replica \<and> in_i32 mn \<and> 0 \<le> mn \<and> in_i32 pmx \<and> 0 \<le> pmx
        \<and> f = client_frame (\<lambda>_ _. []) cid (Some name) (Fetch replica (cl_max_wait_ms q) mn (cl_max_bytes q) (cl_read_committed q)
            [\<lparr>ft_name = cl_topic q, ft_partitions = [\<lparr>fp_partition = cl_partition q, fp_fetch_offset = cl_offset q, fp_partition_max_bytes = pmx\<rparr>]\<rparr>])"
    and list_offsets_request: "cc_list_offsets_request client cid name topic prt earliest = Inr f \<Longrightarrow>
      \<exists>replica. in_i32 replica \<and> f = client_frame (\<lambda>_ _. []) cid (Some name)
        (ListOffsets replica [\<lparr>lt_name = topic, lt_partitions = [\<lparr>lp_partition = prt, lp_timestamp = (if earliest then - 2 else - 1)\<rparr>]\<rparr>])"
    and parse_versions: "cc_parse_api_versions client bs cid = Inr supports \<Longrightarrow>
      \<exists>er vs. client_receive API_API_VERSIONS bs = Inr (cid, ApiVersionsR er vs)
        \<and> (\<forall>k v. supports k v \<longleftrightarrow> (\<exists>mn mx. (k, mn, mx) \<in> set vs \<and> mn \<le> v \<and> v \<le> mx))"
    and parse_metadata: "cc_parse_metadata_many client bs cid = Inr ts \<Longrightarrow>
      \<exists>m. client_receive API_METADATA bs = Inr (cid, MetadataR m)
        \<and> ts = map (\<lambda>t. \<lparr>ct_topic = wtm_name t, ct_error = wtm_error t, ct_no_partitions = (wtm_partitions t = [])\<rparr>) (mr_topics m)"
    and parse_produce: "cc_parse_produce client bs cid topic prt = Inr v \<Longrightarrow>
      \<exists>r. client_receive API_PRODUCE bs = Inr (cid, ProduceR r)
        \<and> v \<in> (\<lambda>p. \<lparr>cp_error = ppr_error p, cp_base_offset = ppr_base_offset p\<rparr>) ` one_produced topic prt r
        \<and> in_i64 (cp_base_offset v)"
    and parse_fetch: "cc_parse_fetch client bs cid topic prt = Inr w \<Longrightarrow>
      \<exists>r. client_receive API_FETCH bs = Inr (cid, FetchR r)
        \<and> w \<in> (\<lambda>p. \<lparr>cf_error = fpr_error p, cf_high_watermark = fpr_high_watermark p, cf_values = map rec_value (fpr_records p)\<rparr>)
            ` one_fetched topic prt r"
    and parse_list_offsets: "cc_parse_list_offsets client bs cid topic prt = Inr off \<Longrightarrow>
      \<exists>r. client_receive API_LIST_OFFSETS bs = Inr (cid, ListOffsetsR r) \<and> off \<in> lpr_offset ` one_listed topic prt r"
    and constants: "(cc_api_produce client, cc_version_produce client) = (API_PRODUCE, 3)"
      "(cc_api_fetch client, cc_version_fetch client) = (API_FETCH, 4)" "cc_no_error client = NO_ERROR"

section \<open>Frames and offsets in range\<close>

lemma client_frame_framed:
  assumes "length (client_payload pack cid client body) \<le> MAX_FRAME_LEN"
  shows "framed_start (client_frame pack cid client body)"
    and "frame_len (client_frame pack cid client body) = length (client_frame pack cid client body)"
proof -
  let ?p = "client_payload pack cid client body"
  have "in_i32 (int (length ?p))" using assms by (simp add: in_signed_def MAX_FRAME_LEN_def)
  moreover have "0 < length ?p" by (simp add: client_payload_def)
  ultimately show "framed_start (client_frame pack cid client body)"
    "frame_len (client_frame pack cid client body) = length (client_frame pack cid client body)"
    using assms by (simp_all add: framed_start_def frame_len_def client_frame_def be_int_bytes)
qed

lemma error_code_range [simp]: "in_i16 (error_code er)"
  by (auto simp: error_code_def in_signed_def split: BrokerError.splits LogError.splits)

lemma chain_batch_base: "chain a bs z \<Longrightarrow> b \<in> set bs \<Longrightarrow> a \<le> sb_base_offset b"
proof (induction bs arbitrary: a)
  case (Cons c bs)
  then show ?case by (cases "b = c") force+
qed simp

lemma stable_offset_nonneg:
  assumes "log_wf l"
  shows "0 \<le> last_stable_offset l"
proof -
  have ch: "chain (start_offset l) (pl_batches l) (pl_next_offset l)" and st: "0 \<le> start_offset l"
    using assms by (auto simp: log_wf_def)
  show ?thesis using last_stable_offset_spec(3) [OF assms] chain_batch_base [OF ch] chain_le [OF ch] st by force
qed

lemma reply_after_list:
  "reply_after cat mb i ex (ListOffsetCmd topic prt earliest) =
     (case check_partition cat topic prt of
        Inl er \<Rightarrow> Failed er | Inr _ \<Rightarrow> Offset (list_offset (log_at mb (shard_after cat mb i ex) (topic, prt)) earliest))"
  by (auto simp: reply_after_def with_log_eq split: sum.splits)

context shard_transport
begin

lemma offset_keeps_state [simp]: "snd (offset_reply v s) = s"
  by (cases v) (simp_all add: creturn_def cfail_def)

text \<open>The latest offset, asked for after an acknowledged produce, is past its records.\<close>

lemma latest_offset:
  assumes "good s" and "broker_list_offset tr b topic prt False s = (Inr off, s')"
    and "int (length (partition_history cat (shard_index b topic prt) (topic, prt) (executed s'))) \<le> max_signed 64"
  shows "int (length (partition_history cat (shard_index b topic prt) (topic, prt) (executed s))) \<le> off \<and> off \<le> max_signed 64"
proof -
  let ?i = "shard_index b topic prt" and ?c = "ListOffsetCmd topic prt False"
  let ?h = "partition_history cat ?i (topic, prt)"
  obtain r1 where r1: "call_outcome ?i ?c s r1 s'" "Inr off = (case r1 of Inl er \<Rightarrow> Inl er | Inr v \<Rightarrow> fst (offset_reply v s'))"
    using checked_call_law [of s offset_reply, OF assms(1) offset_keeps_state assms(2) [unfolded broker_list_offset_def]] by auto
  then obtain v where v: "r1 = Inr v" "fst (offset_reply v s') = Inr off" by (cases r1) auto
  then have "v = Offset off" by (cases v) (auto simp: creturn_def cfail_def)
  then have "call_outcome ?i ?c s (Inr (Offset off)) s'" using r1 v by simp
  then obtain pre post where e: "executed s' = (executed s @ pre) @ (?i, ?c, chan s') # post"
    and r: "Offset off = reply_after cat mb ?i (executed s @ pre) ?c"
    by (auto simp: call_outcome_def)
  have m: "length (?h (executed s)) \<le> length (?h (executed s @ pre))" "length (?h (executed s @ pre)) \<le> length (?h (executed s'))"
    using partition_history_mono [of cat ?i "(topic, prt)" "executed s" pre]
      partition_history_mono [of cat ?i "(topic, prt)" "executed s @ pre" "(?i, ?c, chan s') # post"] e by simp_all
  have "represents (?h (executed s @ pre)) (log_at mb (shard_after cat mb ?i (executed s @ pre)) (topic, prt))"
    by (rule shard_represents_history) (use m assms(3) in simp)
  then have "off = int (length (?h (executed s @ pre)))"
    using r by (auto simp: reply_after_list list_offset_def represents_def split: sum.splits)
  then show ?thesis using m assms(3) by simp
qed

lemma fetch_range:
  assumes "good s" and "broker_fetch_with_isolation tr b topic prt off n m rc s = (Inr w, s')"
    and "int (length (partition_history cat (shard_index b topic prt) (topic, prt) (executed s'))) \<le> max_signed 64"
  shows "in_i64 (fw_high_watermark w) \<and> in_i64 (fw_last_stable_offset w)"
proof -
  let ?i = "shard_index b topic prt" and ?c = "FetchCmd topic prt off n m rc"
  let ?h = "partition_history cat ?i (topic, prt)"
  obtain pre post where e: "executed s' = (executed s @ pre) @ (?i, ?c, chan s') # post"
    and r: "Fetched w = reply_after cat mb ?i (executed s @ pre) ?c"
    using fetch_ok [OF assms(1,2)] by (auto simp: call_outcome_def)
  let ?l = "log_at mb (shard_after cat mb ?i (executed s @ pre)) (topic, prt)"
  have h: "int (length (?h (executed s @ pre))) \<le> max_signed 64"
    using partition_history_mono [of cat ?i "(topic, prt)" "executed s @ pre" "(?i, ?c, chan s') # post"] e assms(3) by simp
  then have rep: "represents (?h (executed s @ pre)) ?l" by (rule shard_represents_history)
  then have wf: "log_wf ?l" and nx: "pl_next_offset ?l = int (length (?h (executed s @ pre)))" by (auto simp: represents_def)
  have f: "fetch_with_isolation ?l off n m rc = Inr w" using r by (auto simp: reply_after_fetch split: sum.splits)
  have hw: "fw_high_watermark w = pl_next_offset ?l" "fw_last_stable_offset w = last_stable_offset ?l \<or> fw_last_stable_offset w = pl_next_offset ?l"
    using f by (auto simp: fetch_with_isolation_def fetch_inner_def Let_def high_watermark_def split: if_splits)
  show ?thesis
    using hw nx h last_stable_offset_spec(1) [OF wf] stable_offset_nonneg [OF wf] by (auto simp: in_signed_def max_signed_def)
qed

end

section \<open>One exchange of the client\<close>

fun connection_error :: "('i, 'e) SmokeError \<Rightarrow> bool" where
  "connection_error (ConnectFailed _ _) = True"
| "connection_error (SetReadTimeoutFailed _) = True"
| "connection_error (WriteRequestFailed _) = True"
| "connection_error (ReadLengthFailed _) = True"
| "connection_error (InvalidResponseLength _) = True"
| "connection_error (ReadResponseFailed _) = True"
| "connection_error (ClientError _) = True"
| "connection_error _ = False"

lemma sbind_cases:
  assumes "sbind f g n = (r, n')"
  obtains (fail) er where "f n = (Inl er, n')" "r = Inl er" | (ok) v n1 where "f n = (Inr v, n1)" "g v n1 = (r, n')"
  using assms by (auto simp: sbind_def split: prod.splits sum.splits)

lemma codec_outcome: "codec r n = (v, n') \<longleftrightarrow> n' = n \<and> v = map_sum ClientError (\<lambda>v. v) r"
  by (auto simp: codec_def)

lemma socket_Inr [simp]: "socket er f n = (Inr v, n') \<longleftrightarrow> f n = (Inr v, n')"
  by (cases "f n"; cases "fst (f n)") (auto simp: socket_def)

lemma socket_Inl: "socket er f n = (Inl x, n') \<longleftrightarrow> (\<exists>i. f n = (Inl i, n') \<and> x = er i)"
  by (cases "f n"; cases "fst (f n)") (auto simp: socket_def)

lemma codec_step: "sbind (codec (Inr v)) g = g v"
  by (simp add: sbind_def codec_def fun_eq_iff)

lemma unbuilt: "sbind (codec (Inl er)) g n = (r, n') \<Longrightarrow> r = Inl (ClientError er)"
  by (simp add: sbind_def codec_def)

lemma round_trip_error:
  assumes "round_trip stream f n = (Inl er, n')"
  shows "connection_error er"
  using assms unfolding round_trip_def
  by (elim sbind_cases) (auto simp: socket_Inl Let_def sfail_def sok_def elim!: sbind_cases split: if_splits)

text \<open>The stages of the program have one shape: a request, its response, and a verdict on what was parsed.\<close>

lemma exchange_cases:
  fixes req :: "'e + bytes" and stream :: "('n, 'i) TcpStream" and r :: "('i, 'e) SmokeError + 'a"
  assumes "sbind (codec req) (\<lambda>f. sbind (round_trip stream f) (\<lambda>bs. sbind (codec (parse bs)) post)) n = (r, n')"
    and "\<And>v m. snd (post v m) = m"
  obtains (lost) er where "r = Inl er" "connection_error er"
    | (answered) f bs v where "req = Inr f" "round_trip stream f n = (Inr bs :: ('i, 'e) SmokeError + bytes, n')" "parse bs = Inr v" "r = fst (post v n')"
proof (cases req)
  case (Inl er)
  then show thesis using assms(1) lost [of "ClientError er"] by (simp add: sbind_def codec_def)
next
  case (Inr f)
  obtain rt :: "('i, 'e) SmokeError + bytes" and n1 where rt: "round_trip stream f n = (rt, n1)" by fastforce
  show thesis
  proof (cases rt)
    case (Inl er)
    then show thesis using assms(1) \<open>req = Inr f\<close> rt lost [of er] round_trip_error by (fastforce simp: sbind_def codec_def)
  next
    case bs: (Inr bs)
    show thesis
    proof (cases "parse bs")
      case (Inl er)
      then show thesis using assms(1) \<open>req = Inr f\<close> rt bs lost [of "ClientError er"] by (simp add: sbind_def codec_def)
    next
      case (Inr v)
      then have "post v n1 = (r, n')" using assms(1) \<open>req = Inr f\<close> rt bs by (simp add: sbind_def codec_def)
      then show thesis using answered [of f bs v] assms(2) [of v n1] \<open>req = Inr f\<close> rt bs Inr by simp
    qed
  qed
qed

definition request_of :: "int \<Rightarrow> RequestBody \<Rightarrow> Request" where
  "request_of cid body = \<lparr>rq_header = \<lparr>hd_api_key = fst (api_of body), hd_api_version = snd (api_of body),
     hd_correlation_id = cid, hd_client_id = Some CLIENT_ID\<rparr>, rq_body = body\<rparr>"

lemmas payload_fields = client_payload_def nullable_string_field_def string_field_def array_field_def array_len_field_def
  produce_topic_field_def produce_partition_field_def fetch_topic_field_def fetch_partition_field_def list_topic_field_def
  list_partition_field_def bytes_field_def EVENTS_def CLIENT_ID_def MAX_FRAME_LEN_def

lemma smoke_names [simp]: "name_ok EVENTS" "string_ok EVENTS" "EVENTS \<noteq> []"
  by (simp_all add: name_ok_def EVENTS_def MAX_STRING_LEN_def)

lemma one_small [simp]: "small P [x] \<longleftrightarrow> P x"
  by (simp add: small_def MAX_ARRAY_LEN_def)

section \<open>The connection\<close>

locale served_connection = shard_transport +
  fixes e :: Engine and stream :: "('n, 'i) TcpStream" and unread :: "'n \<Rightarrow> bytes" and server :: "'n \<Rightarrow> 'a"
  assumes connected: "good (server n) \<Longrightarrow> ts_connect stream a n = (Inr (), n') \<Longrightarrow> unread n' = [] \<and> keeps (server n) (server n')"
    and timeout_set: "good (server n) \<Longrightarrow> ts_set_read_timeout stream d n = (Inr (), n') \<Longrightarrow>
      unread n' = unread n \<and> keeps (server n) (server n')"
    and written: "good (server n) \<Longrightarrow> unread n = [] \<Longrightarrow> framed_start frame \<Longrightarrow> frame_len frame = length frame \<Longrightarrow>
      ts_write_all stream frame n = (Inr (), n') \<Longrightarrow>
      \<exists>s1 r s2. keeps (server n) s1 \<and> handle_frame tr e frame s1 = (r, s2) \<and> keeps s2 (server n')
        \<and> unread n' = (case r of Inl _ \<Rightarrow> [] | Inr response \<Rightarrow> response)"
    and read: "good (server n) \<Longrightarrow> ts_read_exact stream k n = (Inr bs, n') \<Longrightarrow>
      k \<le> length (unread n) \<and> bs = take k (unread n) \<and> unread n' = drop k (unread n) \<and> keeps (server n) (server n')"
begin

lemma exchange_ok:
  assumes "good (server n)" and "unread n = []" and "round_trip stream f n = (Inr bs, n')"
    and "f = client_frame pack cid (Some CLIENT_ID) body" and "body_ok pack body" and "in_i32 cid"
    and "length (client_payload pack cid (Some CLIENT_ID) body) \<le> MAX_FRAME_LEN"
    and "\<And>s. fst (handle_request tr e (request_of cid body) s) = encode_response cid (resp s)"
    and "\<And>s. response_fits (resp s) \<Longrightarrow> length (response_field (resp s)) < 2 ^ 30"
  shows "\<exists>s1. keeps (server n) s1 \<and> response_fits (resp s1) \<and> bs = response_frame cid (response_field (resp s1))
    \<and> length (response_field (resp s1)) + 4 \<le> MAX_FRAME_LEN
    \<and> keeps (snd (handle_request tr e (request_of cid body) s1)) (server n') \<and> unread n' = []"
proof -
  have ok: "opt_ok (Some CLIENT_ID)" by (simp add: opt_ok_def CLIENT_ID_def MAX_STRING_LEN_def)
  have hf: "handle_frame tr e f s = handle_request tr e (request_of cid body) s" for s
    using decode_client_frame [OF assms(5,6) ok assms(7)] assms(4) by (simp add: handle_frame_def request_of_def)
  obtain n1 n2 prefix body' where w: "ts_write_all stream f n = (Inr (), n1)" and rd: "ts_read_exact stream 4 n1 = (Inr prefix, n2)"
    and len: "0 < be_int 4 prefix" "be_int 4 prefix \<le> int MAX_FRAME_LEN"
    and rb: "ts_read_exact stream (nat (be_int 4 prefix)) n2 = (Inr body', n')" and bs: "bs = prefix @ body'"
    using assms(3) unfolding round_trip_def
    by (auto simp: Let_def sfail_def sok_def MAX_FRAME_LEN_def elim!: sbind_cases split: if_splits)
  obtain s1 r s2 where s: "keeps (server n) s1" "handle_frame tr e f s1 = (r, s2)" "keeps s2 (server n1)"
    and u1: "unread n1 = (case r of Inl _ \<Rightarrow> [] | Inr response \<Rightarrow> response)"
    using written [OF assms(1,2) _ _ w] client_frame_framed [OF assms(7)] assms(4) by metis
  have g1: "good (server n1)" using s(3) by (simp add: keeps_def)
  note r1 = read [OF g1 rd]
  then have g2: "good (server n2)" by (simp add: keeps_def)
  note r2 = read [OF g2 rb]
  obtain response where r: "r = Inr response" using r1 u1 by (cases r) auto
  have "encode_response cid (resp s1) = Inr response"
    using assms(8) [of s1] s(2) hf [of s1] r by (metis fst_conv)
  then have fits: "response_fits (resp s1)" and re: "response = response_frame cid (response_field (resp s1))"
    by (auto simp: encode_response_Inr)
  let ?xs = "response_field (resp s1)"
  have "in_i32 (int (length ?xs) + 4)" using assms(9) [OF fits] by (simp add: in_signed_def)
  then have p: "be_int 4 prefix = int (length ?xs) + 4"
    using r1 u1 r re by (simp add: response_frame_def be_int_bytes)
  have "bs = response" "unread n' = []"
    using r1 r2 u1 r bs re p by (simp_all add: response_frame_def nat_add_distrib)
  moreover have "keeps s2 (server n')" using keeps_trans [OF s(3)] keeps_trans r1 r2 by blast
  ultimately show ?thesis
    using s fits re p len(2) hf [of s1] by (intro exI [of _ s1]) auto
qed

lemma exchange:
  fixes r :: "('i, 'e) SmokeError + 'd"
  assumes run: "sbind (codec (Inr f)) (\<lambda>f. sbind (round_trip stream f) (\<lambda>bs. sbind (codec (parse bs)) post)) n = (r, n')"
    and quiet: "\<And>v m. snd (post v m) = m" and start: "good (server n)" "unread n = []"
    and frame: "f = client_frame pack cid (Some CLIENT_ID) body" "body_ok pack body" "in_i32 cid"
      "length (client_payload pack cid (Some CLIENT_ID) body) \<le> MAX_FRAME_LEN"
    and handler: "\<And>s. handle_request tr e (request_of cid body) s = (encode_response cid (resp s), next_state s)"
    and size: "\<And>s. response_fits (resp s) \<Longrightarrow> length (response_field (resp s)) < 2 ^ 30"
  obtains (lost) er where "r = Inl er" "connection_error er"
    | (answered) s v where "keeps (server n) s" "keeps (next_state s) (server n')" "keeps (server n) (server n')" "unread n' = []"
      "response_fits (resp s)" "length (response_field (resp s)) + 4 \<le> MAX_FRAME_LEN"
      "parse (response_frame cid (response_field (resp s))) = Inr v" "r = fst (post v n')"
proof (rule exchange_cases [OF run quiet])
  show thesis if "r = Inl er" "connection_error er" for er using that lost by blast
  fix f' bs v
  assume f: "Inr f = (Inr f' :: 'e + bytes)" and rt: "round_trip stream f' n = (Inr bs :: ('i, 'e) SmokeError + bytes, n')"
    and v: "parse bs = Inr v" and r: "r = fst (post v n')"
  have fr: "f' = client_frame pack cid (Some CLIENT_ID) body" using f frame(1) by simp
  have enc: "fst (handle_request tr e (request_of cid body) s) = encode_response cid (resp s)" for s by (simp add: handler)
  obtain s where s: "keeps (server n) s" "response_fits (resp s)" "bs = response_frame cid (response_field (resp s))"
    "length (response_field (resp s)) + 4 \<le> MAX_FRAME_LEN" "keeps (next_state s) (server n')" "unread n' = []"
    using exchange_ok [OF start rt fr frame(2-4) enc size] unfolding handler by auto
  have "keeps s (next_state s)"
    using steady_handle_request [of e "request_of cid body"] s(1) handler by (simp add: steady_def keeps_def)
  then have "keeps (server n) (server n')" using keeps_trans s(1,5) by blast
  with s v r show thesis using answered by blast
qed

end

end
