(* ===== verification/Smoke_Properties.thy ===== *)
theory Smoke_Properties
  imports Smoke_Exchange
begin

text \<open>
  The smoke client, stage by stage, and its verdict: whatever other clients do, a run fails only for reasons that
  lie in the connection, in the broker's shards being unavailable, or in other producers' records.
\<close>

section \<open>Metadata\<close>

text \<open>The answer to the client's metadata request.\<close>

definition metadata_of :: "Engine \<Rightarrow> MetadataResponse" where
  "metadata_of e = \<lparr>mr_brokers = [\<lparr>bm_node_id = bi_node_id (en_identity e), bm_host = bi_host (en_identity e), bm_port = bi_port (en_identity e)\<rparr>],
     mr_controller_id = bi_node_id (en_identity e), mr_topics = response_topics e (Some [EVENTS])\<rparr>"

definition identity_typed :: "Engine \<Rightarrow> bool" where
  "identity_typed e \<longleftrightarrow> in_i32 (bi_node_id (en_identity e)) \<and> in_i32 (bi_port (en_identity e))"

lemma partitions_field_length: "length (concat (map partition_metadata_field (partitions_of e k))) = 26 * length (partitions_of e k)"
proof -
  have "\<forall>p \<in> set ps. length (partition_metadata_field p) = 26 \<Longrightarrow> length (concat (map partition_metadata_field ps)) = 26 * length ps" for ps
    by (induction ps) simp_all
  moreover have "\<forall>p \<in> set (partitions_of e k). length (partition_metadata_field p) = 26"
    by (auto simp: partitions_of_def partition_metadata_field_def array_field_def array_len_field_def)
  ultimately show ?thesis by blast
qed

lemma metadata_small:
  assumes "response_fits (MetadataR (metadata_of e))"
  shows "length (response_field (MetadataR (metadata_of e))) < 2 ^ 30"
  using assms partitions_field_length [of e]
  by (auto simp: metadata_of_def response_topics_def small_def topic_metadata_fits_def MAX_ARRAY_LEN_def MAX_STRING_LEN_def
      array_field_def array_len_field_def broker_field_def topic_metadata_field_def string_field_def nullable_string_field_def
      EVENTS_def split: option.splits)

lemma metadata_typed:
  assumes "response_fits (MetadataR (metadata_of e))" and "identity_typed e"
  shows "response_typed (MetadataR (metadata_of e))"
proof -
  have "list_all partition_metadata_typed (partitions_of e k)" if "array_ok (length (partitions_of e k))" for k
    using that assms(2)
    by (auto simp: partitions_of_def list_all_iff partition_metadata_typed_def identity_typed_def in_signed_def MAX_ARRAY_LEN_def)
  then show ?thesis
    using assms
    by (auto simp: metadata_of_def response_topics_def identity_typed_def broker_typed_def topic_metadata_typed_def
        topic_metadata_fits_def small_def in_signed_def split: option.splits)
qed

lemma metadata_entry:
  assumes "catalog_reach (br_catalog (en_broker e))"
  shows "\<exists>t. mr_topics (metadata_of e) = [t] \<and> wtm_name t = EVENTS
    \<and> (if broker_partition_count (en_broker e) EVENTS = None then wtm_error t \<noteq> NO_ERROR else wtm_error t = NO_ERROR \<and> wtm_partitions t \<noteq> [])"
proof (cases "broker_partition_count (en_broker e) EVENTS")
  case (Some k)
  have "bt_wf (tc_topics (br_catalog (en_broker e)))" "bt_all (\<lambda>name count. name \<noteq> [] \<and> 0 < count) (tc_topics (br_catalog (en_broker e)))"
    using catalog_reach_wf [OF assms] by (auto simp: catalog_wf_def)
  then have "0 < k" using Some bt_get_wf_iff [of "tc_topics (br_catalog (en_broker e))" EVENTS k]
    by (auto simp: broker_partition_count_def partition_count_def bt_all_def list_all_iff)
  then show ?thesis using Some by (simp add: metadata_of_def response_topics_def partitions_of_def)
qed (simp add: metadata_of_def response_topics_def)

section \<open>The stages\<close>

text \<open>
  The failures that a correct broker leaves possible: the connection or a codec call failed, the topic does not exist, the
  produce was refused, the fetch was refused or found records of other producers, the latest offset was refused.
\<close>

fun excused :: "Engine \<Rightarrow> ('i, 'e) SmokeError \<Rightarrow> bool" where
  "excused e SubsetNotAdvertised = False"
| "excused e EventsOmitted = False"
| "excused e (EventsMetadataError c) = (broker_partition_count (en_broker e) EVENTS = None)"
| "excused e (FetchError c k) = (if c = NO_ERROR then 2 \<le> k else k = 0)"
| "excused e ValueMismatch = False"
| "excused e (LatestDidNotAdvance off) = (off = - 1)"
| "excused e (ProduceError c) = True"
| "excused e er = connection_error er"

lemma connection_excused: "connection_error er \<Longrightarrow> excused e er"
  by (cases er) simp_all

context served_connection
begin

lemma versions_stage:
  assumes "client_codec client" and "good (server n)" and "unread n = []" and "smoke_versions client stream n = (r, n')"
  obtains (lost) er where "r = Inl er" "connection_error er"
    | (passed) "r = Inr ()" "keeps (server n) (server n')" "unread n' = []"
proof (cases "cc_api_versions_request client 1 CLIENT_ID")
  case (Inl er)
  then show thesis using unbuilt [OF assms(4) [unfolded smoke_versions_def Inl]] lost [of "ClientError er"] by simp
next
  case (Inr f)
  let ?resp = "ApiVersionsR NO_ERROR SUPPORTED_VERSIONS"
  have fr: "f = client_frame (\<lambda>_ _. []) 1 (Some CLIENT_ID) ApiVersions" by (rule client_codec.versions_request [OF assms(1) Inr])
  have hr: "handle_request tr e (request_of 1 ApiVersions) s = (encode_response 1 ?resp, s)" for s
    by (simp add: request_of_def handle_request_def encode_api_versions_def)
  show thesis
  proof (rule exchange [OF assms(4) [unfolded smoke_versions_def Inr] _ assms(2,3) fr _ _ _ hr])
    fix s supports
    assume a: "keeps (server n) (server n')" "unread n' = []" "response_fits ?resp" "length (response_field ?resp) + 4 \<le> MAX_FRAME_LEN"
      and v: "cc_parse_api_versions client (response_frame 1 (response_field ?resp)) 1 = Inr supports"
      and r: "r = fst ((if \<not> supports (cc_api_produce client) (cc_version_produce client)
        \<or> \<not> supports (cc_api_fetch client) (cc_version_fetch client) then sfail SubsetNotAdvertised else sok ()) n')"
    have "client_receive API_API_VERSIONS (response_frame 1 (response_field ?resp)) = Inr (1, ?resp)"
      by (rule client_receive_frame [OF a(3) _ _ _ a(4)]) (simp_all add: in_signed_def SUPPORTED_VERSIONS_def)
    then have "supports k v \<longleftrightarrow> (\<exists>mn mx. (k, mn, mx) \<in> set SUPPORTED_VERSIONS \<and> mn \<le> v \<and> v \<le> mx)" for k v
      using client_codec.parse_versions [OF assms(1) v] by auto
    then have "supports (cc_api_produce client) (cc_version_produce client)" "supports (cc_api_fetch client) (cc_version_fetch client)"
      using client_codec.constants [OF assms(1)] by (auto simp: SUPPORTED_VERSIONS_def)
    then show thesis using passed r a by (simp add: sok_def)
  qed (use lost in \<open>simp_all add: sfail_def sok_def in_signed_def payload_fields SUPPORTED_VERSIONS_def version_field_def\<close>)
qed

lemma metadata_stage:
  assumes "client_codec client" and "good (server n)" and "unread n = []" and "smoke_metadata client stream n = (r, n')"
    and "catalog_reach (br_catalog (en_broker e))" and "identity_typed e"
  obtains (lost) er where "r = Inl er" "connection_error er"
    | (unknown) c where "r = Inl (EventsMetadataError c)" "broker_partition_count (en_broker e) EVENTS = None"
    | (passed) "r = Inr ()" "keeps (server n) (server n')" "unread n' = []"
proof (cases "cc_metadata_request_many client 2 CLIENT_ID [EVENTS]")
  case (Inl er)
  then show thesis using unbuilt [OF assms(4) [unfolded smoke_metadata_def Inl]] lost [of "ClientError er"] by simp
next
  case (Inr f)
  let ?body = "Metadata (Some [EVENTS])" and ?resp = "MetadataR (metadata_of e)"
  have fr: "f = client_frame (\<lambda>_ _. []) 2 (Some CLIENT_ID) ?body" by (rule client_codec.metadata_request [OF assms(1) Inr])
  have pl: "length (client_payload (\<lambda>_ _. []) 2 (Some CLIENT_ID) ?body) \<le> MAX_FRAME_LEN" by (simp add: payload_fields)
  have hr: "handle_request tr e (request_of 2 ?body) s = (encode_response 2 ?resp, s)" for s
    by (simp add: request_of_def handle_request_def engine_metadata_def metadata_of_def)
  show thesis
  proof (rule exchange [OF assms(4) [unfolded smoke_metadata_def Inr] _ assms(2,3) fr _ _ pl hr metadata_small])
    fix s topics
    assume a: "keeps (server n) (server n')" "unread n' = []" "response_fits ?resp" "length (response_field ?resp) + 4 \<le> MAX_FRAME_LEN"
      and v: "cc_parse_metadata_many client (response_frame 2 (response_field ?resp)) 2 = Inr topics"
      and r: "r = fst ((case find (\<lambda>topic. ct_topic topic = EVENTS) topics of None \<Rightarrow> sfail EventsOmitted
        | Some events \<Rightarrow> if ct_error events \<noteq> cc_no_error client \<or> ct_no_partitions events
            then sfail (EventsMetadataError (ct_error events)) else sok ()) n')"
    have "client_receive API_METADATA (response_frame 2 (response_field ?resp)) = Inr (2, ?resp)"
      by (rule client_receive_frame [OF a(3) metadata_typed [OF a(3) assms(6)] _ _ a(4)]) (simp_all add: in_signed_def)
    then have "topics = map (\<lambda>t. \<lparr>ct_topic = wtm_name t, ct_error = wtm_error t, ct_no_partitions = (wtm_partitions t = [])\<rparr>)
        (mr_topics (metadata_of e))"
      using client_codec.parse_metadata [OF assms(1) v] by auto
    then show thesis
      using metadata_entry [OF assms(5)] r unknown passed a client_codec.constants [OF assms(1)]
      by (auto simp: sok_def sfail_def split: if_splits)
  qed (use lost in \<open>simp_all add: sfail_def sok_def in_signed_def split: option.splits\<close>)
qed

text \<open>The offsets of the topic's first partition have 64 bits, up to a state of the connection.\<close>

definition bounded :: "'n \<Rightarrow> bool" where
  "bounded n \<longleftrightarrow> int (length (partition_history cat (shard_index (en_broker e) EVENTS 0) (EVENTS, 0) (executed (server n)))) \<le> max_signed 64"

lemma bounded_before:
  assumes "keeps s (server n)" and "bounded n"
  shows "int (length (partition_history cat (shard_index (en_broker e) EVENTS 0) (EVENTS, 0) (executed s))) \<le> max_signed 64"
proof -
  obtain xs where "executed (server n) = executed s @ xs" using assms(1) by (auto simp: keeps_def)
  then show ?thesis
    using assms(2) partition_history_mono [of cat "shard_index (en_broker e) EVENTS 0" "(EVENTS, 0)" "executed s" xs]
    by (simp add: bounded_def)
qed

definition produce_answer :: "'a \<Rightarrow> ProducePartitionResult" where
  "produce_answer s = fst (produce_one tr e None EVENTS \<lparr>pp_partition = 0, pp_records = [smoke_record], pp_producer = None\<rparr> s)"

definition produce_next :: "'a \<Rightarrow> 'a" where
  "produce_next s = snd (produce_one tr e None EVENTS \<lparr>pp_partition = 0, pp_records = [smoke_record], pp_producer = None\<rparr> s)"

definition produce_response :: "'a \<Rightarrow> ProduceResponse" where
  "produce_response s = \<lparr>pr_topics = [\<lparr>ptr_name = EVENTS, ptr_partitions = [produce_answer s]\<rparr>], pr_throttle_time_ms = 0\<rparr>"

lemma produce_answer_ok:
  assumes "ppr_error (produce_answer s) = NO_ERROR"
  shows "broker_produce tr (en_broker e) EVENTS 0 [smoke_record] s = (Inr (ppr_base_offset (produce_answer s)), produce_next s)"
  using produce_one_ok [of e EVENTS "\<lparr>pp_partition = 0, pp_records = [smoke_record], pp_producer = None\<rparr>" s] assms
  by (simp add: produce_answer_def produce_next_def)

lemma produce_response_received:
  assumes "good s" and "keeps (produce_next s) (server n)" and "bounded n" and "response_fits (ProduceR (produce_response s))"
    and "length (response_field (ProduceR (produce_response s))) + 4 \<le> MAX_FRAME_LEN"
  shows "client_receive API_PRODUCE (response_frame 3 (response_field (ProduceR (produce_response s)))) = Inr (3, ProduceR (produce_response s))"
proof (rule client_receive_frame [OF assms(4) _ _ _ assms(5)])
  have "in_i64 (ppr_base_offset (produce_answer s))"
  proof (cases "ppr_error (produce_answer s) = NO_ERROR")
    case True
    from produce_extends_history [OF assms(1) produce_answer_ok [OF this]] bounded_before [OF assms(2,3)]
    show ?thesis by (auto simp: in_signed_def max_signed_def)
  qed (auto simp: produce_answer_def produce_one_def produce_result_def in_signed_def split: sum.splits)
  then show "response_typed (ProduceR (produce_response s))"
    using error_code_range by (auto simp: produce_response_def produce_topic_typed_def produce_result_typed_def produce_answer_def produce_one_def
        produce_result_def in_signed_def split: sum.splits)
qed (simp_all add: in_signed_def)

lemma produce_exchange:
  assumes "client_codec client" and "good (server n)" and "unread n = []"
    and "cc_encode_record_batch client [smoke_record] \<lparr>pi_id = - 1, pi_epoch = - 1\<rparr> (- 1) False = Inr b"
    and "cc_produce_request client 3 CLIENT_ID None EVENTS 0 b 30000 = Inr f"
    and "sbind (codec (Inr f)) (\<lambda>f. sbind (round_trip stream f) (\<lambda>bs. sbind (codec (parse bs)) post)) n = (r, n')"
    and "\<And>v m. snd (post v m) = m"
  obtains (lost) er where "r = Inl er" "connection_error er"
    | (answered) s v where "keeps (server n) s" "keeps (produce_next s) (server n')" "keeps (server n) (server n')" "unread n' = []"
      "response_fits (ProduceR (produce_response s))" "length (response_field (ProduceR (produce_response s))) + 4 \<le> MAX_FRAME_LEN"
      "parse (response_frame 3 (response_field (ProduceR (produce_response s)))) = Inr v" "r = fst (post v n')"
proof -
  let ?p = "\<lparr>pp_partition = 0, pp_records = [smoke_record], pp_producer = None\<rparr>"
  note batch = client_codec.record_batch [OF assms(1,4)]
  obtain acks where acks: "in_i16 acks"
    and fr: "f = client_frame (\<lambda>_ _. b) 3 (Some CLIENT_ID) (Produce None acks 30000 [\<lparr>pt_name = EVENTS, pt_partitions = [?p]\<rparr>])"
    using client_codec.produce_request [OF assms(1,5)] by blast
  let ?body = "Produce None acks 30000 [\<lparr>pt_name = EVENTS, pt_partitions = [?p]\<rparr>]"
  have pl: "length (client_payload (\<lambda>_ _. b) 3 (Some CLIENT_ID) ?body) \<le> MAX_FRAME_LEN"
    using batch by (simp add: payload_fields)
  have ok: "body_ok (\<lambda>_ _. b) ?body"
    using batch acks by (simp add: opt_ok_def in_signed_def produce_partition_ok_def)
  have hr: "handle_request tr e (request_of 3 ?body) s = (encode_response 3 (ProduceR (produce_response s)), produce_next s)" for s
    by (simp add: request_of_def handle_request_def engine_produce_def encoded_def produce_topics_def case_prod_beta
        produce_response_def produce_answer_def produce_next_def)
  have size: "length (response_field (ProduceR (produce_response s))) < 2 ^ 30" for s
    by (simp add: produce_response_def array_field_def array_len_field_def produce_topic_result_field_def string_field_def
        produce_result_field_def EVENTS_def)
  show thesis
    by (rule exchange [OF assms(6,7,2,3) fr ok _ pl hr size]) (use lost answered in \<open>auto simp: in_signed_def\<close>)
qed

lemma produce_stage:
  assumes "client_codec client" and "good (server n)" and "unread n = []" and "smoke_produce client stream n = (r, n')"
  obtains (lost) er where "r = Inl er" "connection_error er"
    | (answered) "keeps (server n) (server n')" "unread n' = []" "case r of Inl er \<Rightarrow> \<exists>c. er = ProduceError c
      | Inr base \<Rightarrow> in_i64 base \<and> (\<exists>sa sb. keeps (server n) sa \<and> keeps sb (server n')
          \<and> (bounded n' \<longrightarrow> broker_produce tr (en_broker e) EVENTS 0 [smoke_record] sa = (Inr base, sb)))"
proof (cases "cc_encode_record_batch client [smoke_record] \<lparr>pi_id = - 1, pi_epoch = - 1\<rparr> (- 1) False")
  case (Inl er)
  then show thesis using unbuilt [OF assms(4) [unfolded smoke_produce_def Inl]] lost [of "ClientError er"] by simp
next
  case b: (Inr b)
  note run = assms(4) [unfolded smoke_produce_def b codec_step]
  show thesis
  proof (cases "cc_produce_request client 3 CLIENT_ID None EVENTS 0 b 30000")
    case (Inl er)
    then show thesis using unbuilt [OF run [unfolded Inl]] lost [of "ClientError er"] by simp
  next
    case f: (Inr f)
    show thesis
    proof (rule produce_exchange [OF assms(1-3) b f run [unfolded f]])
      fix s v
      assume s: "keeps (server n) s" "keeps (produce_next s) (server n')" "keeps (server n) (server n')" "unread n' = []"
          "response_fits (ProduceR (produce_response s))" "length (response_field (ProduceR (produce_response s))) + 4 \<le> MAX_FRAME_LEN"
        and v: "cc_parse_produce client (response_frame 3 (response_field (ProduceR (produce_response s)))) 3 EVENTS 0 = Inr v"
        and r: "r = fst ((if cp_error v \<noteq> cc_no_error client then sfail (ProduceError (cp_error v)) else sok (cp_base_offset v)) n')"
      have "v = \<lparr>cp_error = ppr_error (produce_answer s), cp_base_offset = ppr_base_offset (produce_answer s)\<rparr>" if "bounded n'"
        using client_codec.parse_produce [OF assms(1) v] produce_response_received [OF _ s(2) that s(5,6)] s(1)
        by (auto simp: one_produced_def produce_response_def keeps_def)
      then have "bounded n' \<longrightarrow> cp_error v = NO_ERROR \<longrightarrow>
          broker_produce tr (en_broker e) EVENTS 0 [smoke_record] s = (Inr (cp_base_offset v), produce_next s)"
        using produce_answer_ok [of s] by auto
      moreover have "in_i64 (cp_base_offset v)" using client_codec.parse_produce [OF assms(1) v] by blast
      ultimately show thesis
        using answered s r client_codec.constants(3) [OF assms(1)] by (auto simp: sok_def sfail_def split: if_splits)
    qed (use lost in \<open>simp_all add: sfail_def sok_def\<close>)
  qed
qed

definition fetch_answer :: "int \<Rightarrow> int \<Rightarrow> 'a \<Rightarrow> FetchPartitionResult" where
  "fetch_answer pmx base s =
     fst (fetch_one tr e 65536 True EVENTS \<lparr>fp_partition = 0, fp_fetch_offset = base, fp_partition_max_bytes = pmx\<rparr> s)"

definition fetch_next :: "int \<Rightarrow> int \<Rightarrow> 'a \<Rightarrow> 'a" where
  "fetch_next pmx base s =
     snd (fetch_one tr e 65536 True EVENTS \<lparr>fp_partition = 0, fp_fetch_offset = base, fp_partition_max_bytes = pmx\<rparr> s)"

definition fetch_response :: "int \<Rightarrow> int \<Rightarrow> 'a \<Rightarrow> FetchResponse" where
  "fetch_response pmx base s =
     \<lparr>fr_throttle_time_ms = 0, fr_topics = [\<lparr>ftr_name = EVENTS, ftr_partitions = [fetch_answer pmx base s]\<rparr>]\<rparr>"

lemma fetch_answer_cases:
  obtains (error) er where "fetch_answer pmx base s = fetch_result 0 (Inl er)"
    | (window) w where "fetch_answer pmx base s = fetch_result 0 (Inr w)"
      "broker_fetch_with_isolation tr (en_broker e) EVENTS 0 base (en_max_fetch_records e) (fetch_limit e 65536 pmx) True s
         = (Inr w, fetch_next pmx base s)"
proof -
  obtain r s' where f: "broker_fetch_with_isolation tr (en_broker e) EVENTS 0 base (en_max_fetch_records e) (fetch_limit e 65536 pmx) True s = (r, s')"
    by fastforce
  then have "fetch_answer pmx base s = fetch_result 0 r" "fetch_next pmx base s = s'"
    by (simp_all add: fetch_answer_def fetch_next_def fetch_one_def settle_def)
  then show thesis using f error window by (cases r) blast+
qed

lemma fetch_response_received:
  assumes "good s" and "keeps (fetch_next pmx base s) (server n)" and "bounded n" and "response_fits (FetchR (fetch_response pmx base s))"
    and "length (response_field (FetchR (fetch_response pmx base s))) + 4 \<le> MAX_FRAME_LEN"
  shows "client_receive API_FETCH (response_frame 4 (response_field (FetchR (fetch_response pmx base s))))
    = Inr (4, FetchR \<lparr>fr_throttle_time_ms = 0, fr_topics = [\<lparr>ftr_name = EVENTS, ftr_partitions = [received_partition (fetch_answer pmx base s)]\<rparr>]\<rparr>)"
proof -
  have "fetch_fields_typed (fetch_answer pmx base s)"
  proof (cases rule: fetch_answer_cases [of pmx base s])
    case (error er)
    then show ?thesis using error_code_range [of er] by (simp add: fetch_fields_typed_def fetch_result_def in_signed_def)
  next
    case (window w)
    then show ?thesis
      using fetch_range [OF assms(1) window(2) bounded_before [OF assms(2,3)]]
      by (simp add: fetch_fields_typed_def fetch_result_def in_signed_def)
  qed
  then show ?thesis
    using client_receives_fetch [OF assms(4) _ _ _ assms(5), of 4] by (simp add: fetch_response_def received_topic_def in_signed_def)
qed

text \<open>What the broker answers to a fetch of the record that was produced before.\<close>

lemma fetch_answer_ok:
  assumes "good sa" and "broker_produce tr (en_broker e) EVENTS 0 [smoke_record] sa = (Inr base, sb)" and "keeps sb s"
    and "keeps (fetch_next pmx base s) (server n)" and "bounded n" and "0 < en_max_fetch_records e"
  shows "if fpr_error (fetch_answer pmx base s) = NO_ERROR
    then base < fpr_high_watermark (fetch_answer pmx base s) \<and> fpr_records (fetch_answer pmx base s) \<noteq> []
       \<and> rec_value (hd (fpr_records (fetch_answer pmx base s))) = rd_value smoke_record
    else fpr_records (fetch_answer pmx base s) = []"
proof (cases rule: fetch_answer_cases [of pmx base s])
  case (error er)
  then show ?thesis by (auto simp: fetch_result_def error_code_def split: BrokerError.splits LogError.splits)
next
  case (window w)
  obtain xs where xs: "executed s = executed sb @ xs" and g: "good s" using assms(3) by (auto simp: keeps_def)
  have law: "base + 1 \<le> fw_high_watermark w \<and> fw_records w \<noteq> [] \<and> rec_offset (hd (fw_records w)) = base
      \<and> (\<forall>rd \<in> set (fw_records w). rec_offset rd = base \<longrightarrow> data_from_record rd = smoke_record)"
    using acknowledged_law [OF assms(1,2) g xs window(2) bounded_before [OF assms(4,5)]] assms(6) by fastforce
  then have "data_from_record (hd (fw_records w)) = smoke_record" by simp
  then have "rec_value (hd (fw_records w)) = rd_value smoke_record" by (metis RecordData.select_convs(3) data_from_record_def)
  then show ?thesis using law window(1) by (simp add: fetch_result_def)
qed

lemma fetch_exchange:
  assumes "client_codec client" and "good (server n)" and "unread n = []" and "in_i64 base"
    and "cc_fetch_request client 4 CLIENT_ID \<lparr>cl_topic = EVENTS, cl_partition = 0, cl_offset = base, cl_max_wait_ms = 0,
      cl_max_bytes = 65536, cl_read_committed = True\<rparr> = Inr f"
    and "sbind (codec (Inr f)) (\<lambda>f. sbind (round_trip stream f) (\<lambda>bs. sbind (codec (parse bs)) post)) n = (r, n')"
    and "\<And>v m. snd (post v m) = m"
  obtains (lost) er where "r = Inl er" "connection_error er"
    | (answered) pmx s v where "keeps (server n) s" "keeps (fetch_next pmx base s) (server n')" "keeps (server n) (server n')" "unread n' = []"
      "response_fits (FetchR (fetch_response pmx base s))" "length (response_field (FetchR (fetch_response pmx base s))) + 4 \<le> MAX_FRAME_LEN"
      "parse (response_frame 4 (response_field (FetchR (fetch_response pmx base s)))) = Inr v" "r = fst (post v n')"
proof -
  obtain replica mn pmx where p: "in_i32 replica" "in_i32 mn" "0 \<le> mn" "in_i32 pmx" "0 \<le> pmx"
    and fr: "f = client_frame (\<lambda>_ _. []) 4 (Some CLIENT_ID) (Fetch replica 0 mn 65536 True [\<lparr>ft_name = EVENTS,
      ft_partitions = [\<lparr>fp_partition = 0, fp_fetch_offset = base, fp_partition_max_bytes = pmx\<rparr>]\<rparr>])"
    using client_codec.fetch_request [OF assms(1,5)] by auto
  let ?body = "Fetch replica 0 mn 65536 True [\<lparr>ft_name = EVENTS,
      ft_partitions = [\<lparr>fp_partition = 0, fp_fetch_offset = base, fp_partition_max_bytes = pmx\<rparr>]\<rparr>]"
  have pl: "length (client_payload (\<lambda>_ _. []) 4 (Some CLIENT_ID) ?body) \<le> MAX_FRAME_LEN" by (simp add: payload_fields)
  have ok: "body_ok (\<lambda>_ _. []) ?body" using p assms(4) by (simp add: in_signed_def)
  have hr: "handle_request tr e (request_of 4 ?body) s = (encode_response 4 (FetchR (fetch_response pmx base s)), fetch_next pmx base s)" for s
    by (simp add: request_of_def handle_request_def engine_fetch_def encoded_def fetch_topics_def case_prod_beta
        fetch_response_def fetch_answer_def fetch_next_def)
  have size: "length (response_field (FetchR (fetch_response pmx base s))) < 2 ^ 30" if "response_fits (FetchR (fetch_response pmx base s))" for s
  proof -
    have "length (record_set (fpr_records (fetch_answer pmx base s))) \<le> MAX_FRAME_LEN" "fpr_aborted_transactions (fetch_answer pmx base s) = None"
      using that by (auto simp: fetch_response_def fetch_topic_fits_def fetch_result_fits_def records_fit_def record_set_def sendable_def
          fetch_answer_def fetch_one_def fetch_result_def split: sum.splits)
    then show ?thesis
      by (simp add: fetch_response_def array_field_def array_len_field_def fetch_topic_result_field_def string_field_def
          fetch_result_field_def aborted_field_def bytes_field_def EVENTS_def MAX_FRAME_LEN_def)
  qed
  show thesis
    by (rule exchange [OF assms(6,7,2,3) fr ok _ pl hr size]) (use lost answered in \<open>auto simp: in_signed_def\<close>)
qed

lemma fetch_stage:
  assumes "client_codec client" and "good (server n)" and "unread n = []" and "smoke_fetch client stream base n = (r, n')"
    and "in_i64 base" and "good sa" and "keeps sb (server n)" and "0 < en_max_fetch_records e"
  obtains (lost) er where "r = Inl er" "connection_error er"
    | (answered) "keeps (server n) (server n')" "unread n' = []"
      "bounded n' \<longrightarrow> broker_produce tr (en_broker e) EVENTS 0 [smoke_record] sa = (Inr base, sb) \<longrightarrow>
        (case r of Inl er \<Rightarrow> excused e er | Inr hw \<Rightarrow> base < hw)"
proof (cases "cc_fetch_request client 4 CLIENT_ID \<lparr>cl_topic = EVENTS, cl_partition = 0, cl_offset = base, cl_max_wait_ms = 0,
      cl_max_bytes = 65536, cl_read_committed = True\<rparr>")
  case (Inl er)
  then show thesis using unbuilt [OF assms(4) [unfolded smoke_fetch_def Inl]] lost [of "ClientError er"] by simp
next
  case (Inr f)
  show thesis
  proof (rule fetch_exchange [OF assms(1-3,5) Inr assms(4) [unfolded smoke_fetch_def Inr]])
    fix pmx s v
    let ?a = "fetch_answer pmx base s"
    assume s: "keeps (server n) s" "keeps (fetch_next pmx base s) (server n')" "keeps (server n) (server n')" "unread n' = []"
        "response_fits (FetchR (fetch_response pmx base s))" "length (response_field (FetchR (fetch_response pmx base s))) + 4 \<le> MAX_FRAME_LEN"
      and v: "cc_parse_fetch client (response_frame 4 (response_field (FetchR (fetch_response pmx base s)))) 4 EVENTS 0 = Inr v"
      and r: "r = fst ((if cf_error v \<noteq> cc_no_error client \<or> length (cf_values v) \<noteq> 1 then sfail (FetchError (cf_error v) (length (cf_values v)))
        else if cf_values v ! 0 \<noteq> Some [114, 101, 109, 111, 116, 101] then sfail ValueMismatch else sok (cf_high_watermark v)) n')"
    have vv: "v = \<lparr>cf_error = fpr_error ?a, cf_high_watermark = fpr_high_watermark ?a, cf_values = map rec_value (fpr_records ?a)\<rparr>" if "bounded n'"
      using client_codec.parse_fetch [OF assms(1) v] fetch_response_received [OF _ s(2) that s(5,6)] s(1)
      by (auto simp: one_fetched_def received_partition_def keeps_def)
    show thesis
    proof (rule answered [OF s(3,4)], intro impI)
      assume b: "bounded n'" and p: "broker_produce tr (en_broker e) EVENTS 0 [smoke_record] sa = (Inr base, sb)"
      have "keeps sb s" using keeps_trans assms(7) s(1) by blast
      from fetch_answer_ok [OF assms(6) p this s(2) b assms(8)] vv [OF b]
      show "case r of Inl er \<Rightarrow> excused e er | Inr hw \<Rightarrow> base < hw"
        using r client_codec.constants(3) [OF assms(1)]
        by (cases "fpr_records ?a" rule: remdups_adj.cases) (auto simp: sok_def sfail_def smoke_record_def split: if_splits)
    qed
  qed (use lost in \<open>simp_all add: sfail_def sok_def\<close>)
qed

definition list_answer :: "'a \<Rightarrow> ListOffsetsPartitionResult" where
  "list_answer s = fst (list_one tr e EVENTS \<lparr>lp_partition = 0, lp_timestamp = - 1\<rparr> s)"

definition list_next :: "'a \<Rightarrow> 'a" where
  "list_next s = snd (list_one tr e EVENTS \<lparr>lp_partition = 0, lp_timestamp = - 1\<rparr> s)"

definition list_response :: "'a \<Rightarrow> ListOffsetsResponse" where
  "list_response s = \<lparr>lr_topics = [\<lparr>ltr_name = EVENTS, ltr_partitions = [list_answer s]\<rparr>]\<rparr>"

lemma list_answer_cases:
  obtains (error) er where "list_answer s = list_result 0 (Inl er)"
    | (latest) off where "list_answer s = list_result 0 (Inr off)" "broker_list_offset tr (en_broker e) EVENTS 0 False s = (Inr off, list_next s)"
proof -
  obtain r s' where f: "broker_list_offset tr (en_broker e) EVENTS 0 False s = (r, s')" by fastforce
  then have "list_answer s = list_result 0 r" "list_next s = s'"
    by (simp_all add: list_answer_def list_next_def list_one_def settle_def)
  then show thesis using f error latest by (cases r) blast+
qed

lemma list_response_received:
  assumes "good s" and "keeps (list_next s) (server n)" and "bounded n" and "response_fits (ListOffsetsR (list_response s))"
    and "length (response_field (ListOffsetsR (list_response s))) + 4 \<le> MAX_FRAME_LEN"
  shows "client_receive API_LIST_OFFSETS (response_frame 5 (response_field (ListOffsetsR (list_response s)))) = Inr (5, ListOffsetsR (list_response s))"
proof (rule client_receive_frame [OF assms(4) _ _ _ assms(5)])
  have "in_i16 (lpr_error (list_answer s)) \<and> in_i64 (lpr_offset (list_answer s)) \<and> lpr_partition (list_answer s) = 0 \<and> lpr_timestamp_ms (list_answer s) = - 1"
  proof (cases rule: list_answer_cases [of s])
    case (error er)
    then show ?thesis using error_code_range [of er] by (simp add: list_result_def in_signed_def)
  next
    case (latest off)
    then show ?thesis
      using latest_offset [OF assms(1) latest(2) bounded_before [OF assms(2,3)]] by (simp add: list_result_def in_signed_def max_signed_def)
  qed
  then show "response_typed (ListOffsetsR (list_response s))"
    by (simp add: list_response_def list_topic_typed_def list_result_typed_def in_signed_def)
qed (simp_all add: in_signed_def)

lemma list_answer_ok:
  assumes "good sa" and "broker_produce tr (en_broker e) EVENTS 0 [smoke_record] sa = (Inr base, sb)" and "keeps sb s"
    and "keeps (list_next s) (server n)" and "bounded n"
  shows "base < lpr_offset (list_answer s) \<or> lpr_offset (list_answer s) = - 1"
proof (cases rule: list_answer_cases [of s])
  case (error er)
  then show ?thesis by (simp add: list_result_def)
next
  case (latest off)
  let ?h = "partition_history cat (shard_index (en_broker e) EVENTS 0) (EVENTS, 0)"
  obtain xs where xs: "executed s = executed sb @ xs" and g: "good s" using assms(3) by (auto simp: keeps_def)
  have "keeps s (list_next s)" using steady_list_one g by (simp add: steady_def list_next_def)
  then have b: "keeps sb (server n)" using keeps_trans assms(3,4) by blast
  obtain H ys where H: "base = int (length H)" "?h (executed sb) = H @ [smoke_record] @ ys"
    using produce_extends_history [OF assms(1,2) bounded_before [OF b assms(5)]] by blast
  have "length (?h (executed sb)) \<le> length (?h (executed s))" using partition_history_mono xs by metis
  then show ?thesis
    using latest_offset [OF g latest(2) bounded_before [OF assms(4,5)]] latest(1) H by (simp add: list_result_def)
qed

lemma latest_exchange:
  assumes "client_codec client" and "good (server n)" and "unread n = []" and "cc_list_offsets_request client 5 CLIENT_ID EVENTS 0 False = Inr f"
    and "sbind (codec (Inr f)) (\<lambda>f. sbind (round_trip stream f) (\<lambda>bs. sbind (codec (parse bs)) post)) n = (r, n')"
    and "\<And>v m. snd (post v m) = m"
  obtains (lost) er where "r = Inl er" "connection_error er"
    | (answered) s v where "keeps (server n) s" "keeps (list_next s) (server n')" "keeps (server n) (server n')" "unread n' = []"
      "response_fits (ListOffsetsR (list_response s))" "length (response_field (ListOffsetsR (list_response s))) + 4 \<le> MAX_FRAME_LEN"
      "parse (response_frame 5 (response_field (ListOffsetsR (list_response s)))) = Inr v" "r = fst (post v n')"
proof -
  obtain replica where p: "in_i32 replica"
    and fr: "f = client_frame (\<lambda>_ _. []) 5 (Some CLIENT_ID) (ListOffsets replica [\<lparr>lt_name = EVENTS, lt_partitions = [\<lparr>lp_partition = 0, lp_timestamp = - 1\<rparr>]\<rparr>])"
    using client_codec.list_offsets_request [OF assms(1,4)] by auto
  let ?body = "ListOffsets replica [\<lparr>lt_name = EVENTS, lt_partitions = [\<lparr>lp_partition = 0, lp_timestamp = - 1\<rparr>]\<rparr>]"
  have pl: "length (client_payload (\<lambda>_ _. []) 5 (Some CLIENT_ID) ?body) \<le> MAX_FRAME_LEN" by (simp add: payload_fields)
  have ok: "body_ok (\<lambda>_ _. []) ?body" using p by (simp add: in_signed_def)
  have hr: "handle_request tr e (request_of 5 ?body) s = (encode_response 5 (ListOffsetsR (list_response s)), list_next s)" for s
    by (simp add: request_of_def handle_request_def engine_list_offsets_def encoded_def list_topics_def case_prod_beta
        list_response_def list_answer_def list_next_def)
  have size: "length (response_field (ListOffsetsR (list_response s))) < 2 ^ 30" for s
    by (simp add: list_response_def array_field_def array_len_field_def list_topic_result_field_def string_field_def list_result_field_def EVENTS_def)
  show thesis
    by (rule exchange [OF assms(5,6,2,3) fr ok _ pl hr size]) (use lost answered in \<open>auto simp: in_signed_def\<close>)
qed

lemma latest_stage:
  assumes "client_codec client" and "good (server n)" and "unread n = []" and "smoke_latest client stream base n = (r, n')"
    and "good sa" and "keeps sb (server n)"
  obtains (lost) er where "r = Inl er" "connection_error er"
    | (answered) "keeps (server n) (server n')" "unread n' = []"
      "bounded n' \<longrightarrow> broker_produce tr (en_broker e) EVENTS 0 [smoke_record] sa = (Inr base, sb) \<longrightarrow>
        (case r of Inl er \<Rightarrow> excused e er | Inr latest \<Rightarrow> base < latest)"
proof (cases "cc_list_offsets_request client 5 CLIENT_ID EVENTS 0 False")
  case (Inl er)
  then show thesis using unbuilt [OF assms(4) [unfolded smoke_latest_def Inl]] lost [of "ClientError er"] by simp
next
  case (Inr f)
  show thesis
  proof (rule latest_exchange [OF assms(1-3) Inr assms(4) [unfolded smoke_latest_def Inr]])
    fix s v
    assume s: "keeps (server n) s" "keeps (list_next s) (server n')" "keeps (server n) (server n')" "unread n' = []"
        "response_fits (ListOffsetsR (list_response s))" "length (response_field (ListOffsetsR (list_response s))) + 4 \<le> MAX_FRAME_LEN"
      and v: "cc_parse_list_offsets client (response_frame 5 (response_field (ListOffsetsR (list_response s)))) 5 EVENTS 0 = Inr v"
      and r: "r = fst ((if v \<le> base then sfail (LatestDidNotAdvance v) else sok v) n')"
    have vv: "v = lpr_offset (list_answer s)" if "bounded n'"
      using client_codec.parse_list_offsets [OF assms(1) v] list_response_received [OF _ s(2) that s(5,6)] s(1)
      by (auto simp: one_listed_def list_response_def keeps_def)
    show thesis
    proof (rule answered [OF s(3,4)], intro impI)
      assume b: "bounded n'" and p: "broker_produce tr (en_broker e) EVENTS 0 [smoke_record] sa = (Inr base, sb)"
      have "keeps sb s" using keeps_trans assms(6) s(1) by blast
      from list_answer_ok [OF assms(5) p this s(2) b] vv [OF b]
      show "case r of Inl er \<Rightarrow> excused e er | Inr latest \<Rightarrow> base < latest"
        using r by (auto simp: sok_def sfail_def)
    qed
  qed (use lost in \<open>simp_all add: sfail_def sok_def\<close>)
qed

lemma events_history:
  assumes "good sa" and "broker_produce tr (en_broker e) EVENTS 0 [smoke_record] sa = (Inr base, sb)" and "keeps sb (server n)" and "bounded n"
    and "H = partition_history cat (shard_index (en_broker e) EVENTS 0) (EVENTS, 0) (executed (server n))"
  shows "0 \<le> base \<and> nat base < length H \<and> H ! nat base = smoke_record"
proof -
  obtain G ys where G: "base = int (length G)"
    "partition_history cat (shard_index (en_broker e) EVENTS 0) (EVENTS, 0) (executed sb) = G @ [smoke_record] @ ys"
    using produce_extends_history [OF assms(1,2) bounded_before [OF assms(3,4)]] by blast
  obtain xs where "executed (server n) = executed sb @ xs" using assms(3) by (auto simp: keeps_def)
  then obtain zs where "H = G @ [smoke_record] @ ys @ zs"
    using partition_history_extends [of cat "shard_index (en_broker e) EVENTS 0" "(EVENTS, 0)" "executed sb" xs] G(2) assms(5) by auto
  then show ?thesis using G(1) by (simp add: nth_append)
qed

text \<open>From the produce on.\<close>

lemma read_back:
  assumes "client_codec client" and "good (server n)" and "unread n = []" and "in_i64 base" and "good sa" and "keeps sb (server n)"
    and "0 < en_max_fetch_records e"
    and "sbind (smoke_fetch client stream base) (\<lambda>hw. sbind (smoke_latest client stream base) (\<lambda>latest. sok (base, hw, latest))) n = (r, n')"
  obtains (lost) er where "r = Inl er" "connection_error er"
    | (answered) "keeps (server n) (server n')"
      "bounded n' \<longrightarrow> broker_produce tr (en_broker e) EVENTS 0 [smoke_record] sa = (Inr base, sb) \<longrightarrow>
        (case r of Inl er \<Rightarrow> excused e er
         | Inr (b, hw, latest) \<Rightarrow> b = base \<and> base < hw \<and> base < latest)"
proof -
  obtain r1 n1 where f: "smoke_fetch client stream base n = (r1, n1)" by fastforce
  show thesis
  proof (cases rule: fetch_stage [OF assms(1-3) f assms(4-7)])
    case (1 er)
    then show thesis using assms(8) f lost [of er] by (auto simp: sbind_def)
  next
    case fetched: 2
    show thesis
    proof (cases r1)
      case (Inl er)
      then show thesis using assms(8) f fetched answered by (auto simp: sbind_def)
    next
      case (Inr hw)
      obtain r2 n2 where l: "smoke_latest client stream base n1 = (r2, n2)" by fastforce
      have k: "keeps sb (server n1)" using keeps_trans assms(6) fetched(1) by blast
      have g: "good (server n1)" using fetched(1) by (simp add: keeps_def)
      have r: "r = map_sum (\<lambda>v. v) (\<lambda>latest. (base, hw, latest)) r2" "n' = n2"
        using assms(8) f Inr l by (cases r2; simp add: sbind_def sok_def)+
      show thesis
      proof (cases rule: latest_stage [OF assms(1) g fetched(2) l assms(5) k])
        case (1 er)
        then show thesis using r lost [of er] by simp
      next
        case listed: 2
        have b: "bounded n2 \<Longrightarrow> bounded n1" using bounded_before [OF listed(1)] by (simp add: bounded_def)
        have "keeps (server n) (server n')" using keeps_trans [OF fetched(1) listed(1)] r(2) by simp
        then show thesis using answered fetched(3) listed(3) b Inr r by (cases r2) auto
      qed
    qed
  qed
qed

lemma produce_verdict:
  assumes "client_codec client" and "good (server n)" and "unread n = []"
    and "sbind (smoke_produce client stream) (\<lambda>base. sbind (smoke_fetch client stream base)
          (\<lambda>hw. sbind (smoke_latest client stream base) (\<lambda>latest. sok (base, hw, latest)))) n = (r, n')"
    and "bounded n'" and "0 < en_max_fetch_records e"
  shows "case r of
      Inl er \<Rightarrow> excused e er
    | Inr (base, hw, latest) \<Rightarrow> 0 \<le> base \<and> base < hw \<and> base < latest
        \<and> (let H = partition_history cat (shard_index (en_broker e) EVENTS 0) (EVENTS, 0) (executed (server n'))
           in nat base < length H \<and> H ! nat base = smoke_record)"
proof -
  obtain r1 n1 where p: "smoke_produce client stream n = (r1, n1)" by fastforce
  show ?thesis
  proof (cases rule: produce_stage [OF assms(1-3) p])
    case (1 er)
    then show ?thesis using assms(4) p connection_excused by (auto simp: sbind_def)
  next
    case ps: 2
    show ?thesis
    proof (cases r1)
      case (Inl er)
      then show ?thesis using ps(3) assms(4) p by (auto simp: sbind_def)
    next
      case (Inr base)
      obtain sa sb where pr: "in_i64 base" "keeps (server n) sa" "keeps sb (server n1)"
        "bounded n1 \<longrightarrow> broker_produce tr (en_broker e) EVENTS 0 [smoke_record] sa = (Inr base, sb)"
        using ps(3) Inr by auto
      have g: "good (server n1)" "good sa" using ps(1) pr(2) by (simp_all add: keeps_def)
      have rest: "sbind (smoke_fetch client stream base) (\<lambda>hw. sbind (smoke_latest client stream base) (\<lambda>latest. sok (base, hw, latest))) n1 = (r, n')"
        using assms(4) p Inr by (simp add: sbind_def [of "smoke_produce client stream"])
      show ?thesis
      proof (cases rule: read_back [OF assms(1) g(1) ps(2) pr(1) g(2) pr(3) assms(6) rest])
        case (1 er)
        then show ?thesis using connection_excused by simp
      next
        case rb: 2
        have "bounded n1" using bounded_before [OF rb(1) assms(5)] by (simp add: bounded_def)
        then have b: "broker_produce tr (en_broker e) EVENTS 0 [smoke_record] sa = (Inr base, sb)" using pr(4) by blast
        have "keeps sb (server n')" using keeps_trans [OF pr(3) rb(1)] .
        from events_history [OF g(2) b this assms(5) refl] show ?thesis
          using rb(2) assms(5) b by (auto simp: Let_def split: sum.splits)
      qed
    qed
  qed
qed

lemma session_verdict:
  assumes "client_codec client" and "good (server n)" and "unread n = []"
    and "sbind (smoke_versions client stream) (\<lambda>_. sbind (smoke_metadata client stream) (\<lambda>_. sbind (smoke_produce client stream)
        (\<lambda>base. sbind (smoke_fetch client stream base) (\<lambda>hw. sbind (smoke_latest client stream base) (\<lambda>latest. sok (base, hw, latest)))))) n = (r, n')"
    and "bounded n'" and "catalog_reach (br_catalog (en_broker e))" and "identity_typed e" and "0 < en_max_fetch_records e"
  shows "case r of
      Inl er \<Rightarrow> excused e er
    | Inr (base, hw, latest) \<Rightarrow> 0 \<le> base \<and> base < hw \<and> base < latest
        \<and> (let H = partition_history cat (shard_index (en_broker e) EVENTS 0) (EVENTS, 0) (executed (server n'))
           in nat base < length H \<and> H ! nat base = smoke_record)"
proof -
  obtain r1 n1 where v: "smoke_versions client stream n = (r1, n1)" by fastforce
  show ?thesis
  proof (cases rule: versions_stage [OF assms(1-3) v])
    case (1 er)
    then show ?thesis using assms(4) v connection_excused by (auto simp: sbind_def)
  next
    case vs: 2
    then have g1: "good (server n1)" by (simp add: keeps_def)
    obtain r2 n2 where m: "smoke_metadata client stream n1 = (r2, n2)" by fastforce
    have rest1: "sbind (smoke_metadata client stream) (\<lambda>_. sbind (smoke_produce client stream) (\<lambda>base. sbind (smoke_fetch client stream base)
        (\<lambda>hw. sbind (smoke_latest client stream base) (\<lambda>latest. sok (base, hw, latest))))) n1 = (r, n')"
      using assms(4) v vs by (simp add: sbind_def [of "smoke_versions client stream"])
    show ?thesis
    proof (cases rule: metadata_stage [OF assms(1) g1 vs(3) m assms(6,7)])
      case ms: 3
      then have g2: "good (server n2)" by (simp add: keeps_def)
      have rest2: "sbind (smoke_produce client stream) (\<lambda>base. sbind (smoke_fetch client stream base)
          (\<lambda>hw. sbind (smoke_latest client stream base) (\<lambda>latest. sok (base, hw, latest)))) n2 = (r, n')"
        using rest1 m ms by (simp add: sbind_def [of "smoke_metadata client stream"])
      show ?thesis by (rule produce_verdict [OF assms(1) g2 ms(3) rest2 assms(5,8)])
    qed (use rest1 m connection_excused in \<open>auto simp: sbind_def\<close>)
  qed
qed

lemma run_verdict:
  assumes "client_codec client" and "good (server n)" and "smoke_run client stream address n = (r, n')" and "bounded n'"
    and "catalog_reach (br_catalog (en_broker e))" and "identity_typed e" and "0 < en_max_fetch_records e"
  shows "case r of
      Inl er \<Rightarrow> excused e er
    | Inr (base, hw, latest) \<Rightarrow> 0 \<le> base \<and> base < hw \<and> base < latest
        \<and> (let H = partition_history cat (shard_index (en_broker e) EVENTS 0) (EVENTS, 0) (executed (server n'))
           in nat base < length H \<and> H ! nat base = smoke_record)"
  using assms(3) unfolding smoke_run_def
proof (rule sbind_cases)
  show ?thesis if "socket (ConnectFailed address) (ts_connect stream address) n = (Inl er, n')" "r = Inl er" for er
    using that by (auto simp: socket_Inl)
  fix u n1
  assume c: "socket (ConnectFailed address) (ts_connect stream address) n = (Inr u, n1)"
    and rest: "sbind (socket SetReadTimeoutFailed (ts_set_read_timeout stream 10)) (\<lambda>_. sbind (smoke_versions client stream) (\<lambda>_.
      sbind (smoke_metadata client stream) (\<lambda>_. sbind (smoke_produce client stream) (\<lambda>base. sbind (smoke_fetch client stream base) (\<lambda>hw.
      sbind (smoke_latest client stream base) (\<lambda>latest. sok (base, hw, latest))))))) n1 = (r, n')"
  have c1: "unread n1 = []" "keeps (server n) (server n1)" using connected [OF assms(2)] c by auto
  then have g1: "good (server n1)" by (simp add: keeps_def)
  from rest show ?thesis
  proof (rule sbind_cases)
    show ?thesis if "socket SetReadTimeoutFailed (ts_set_read_timeout stream 10) n1 = (Inl er, n')" "r = Inl er" for er
      using that by (auto simp: socket_Inl)
    fix u n2
    assume t: "socket SetReadTimeoutFailed (ts_set_read_timeout stream 10) n1 = (Inr u, n2)"
      and rest: "sbind (smoke_versions client stream) (\<lambda>_. sbind (smoke_metadata client stream) (\<lambda>_. sbind (smoke_produce client stream)
        (\<lambda>base. sbind (smoke_fetch client stream base) (\<lambda>hw. sbind (smoke_latest client stream base) (\<lambda>latest. sok (base, hw, latest)))))) n2 = (r, n')"
    have t1: "unread n2 = []" "keeps (server n1) (server n2)" using timeout_set [OF g1] t c1(1) by auto
    then have "good (server n2)" by (simp add: keeps_def)
    from session_verdict [OF assms(1) this t1(1) rest assms(4-7)] show ?thesis .
  qed
qed

end

end
