(* ===== verification/Smoke_Session.thy ===== *)
theory Smoke_Session
  imports Smoke_Properties
begin

text \<open>
  The two interfaces of the smoke client on the definitions of this library: a codec made of the Kafka layouts
  that the broker's own encoders and decoders were checked against, and the client's end of a connection of the
  TCP server. Then the client's verdict, and a complete run.
\<close>

section \<open>A codec of the Kafka layouts\<close>

definition numbered :: "RecordData list \<Rightarrow> Record list" where
  "numbered rs = map (\<lambda>(i, d). \<lparr>rec_offset = int i, rec_timestamp_ms = rd_timestamp_ms d, rec_key = rd_key d, rec_value = rd_value d\<rparr>)
     (enumerate 0 rs)"

definition kafka_batch :: "RecordData list \<Rightarrow> WireError + bytes" where
  "kafka_batch rs =
     (case encode_record_batch 0 (numbered rs) of
        Inl er \<Rightarrow> Inl er
      | Inr b \<Rightarrow> if batch_ok_to_send (numbered rs) \<and> length b + 1024 \<le> MAX_FRAME_LEN then Inr b else Inl TooLarge)"

definition reply :: "int \<Rightarrow> int \<Rightarrow> (Response \<Rightarrow> 'a option) \<Rightarrow> bytes \<Rightarrow> WireError + 'a" where
  "reply k cid sel bs =
     (case client_receive k bs of
        Inl er \<Rightarrow> Inl er
      | Inr (c, r) \<Rightarrow> if c \<noteq> cid then Inl Correlation else (case sel r of None \<Rightarrow> Inl Invalid | Some v \<Rightarrow> Inr v))"

fun versions_of :: "Response \<Rightarrow> (int \<Rightarrow> int \<Rightarrow> bool) option" where
  "versions_of (ApiVersionsR er vs) = Some (\<lambda>k v. list_ex (\<lambda>(k', mn, mx). k' = k \<and> mn \<le> v \<and> v \<le> mx) vs)"
| "versions_of _ = None"

fun topics_of :: "Response \<Rightarrow> ClientTopic list option" where
  "topics_of (MetadataR m) =
     Some (map (\<lambda>t. \<lparr>ct_topic = wtm_name t, ct_error = wtm_error t, ct_no_partitions = (wtm_partitions t = [])\<rparr>) (mr_topics m))"
| "topics_of _ = None"

fun produced_of :: "bytes \<Rightarrow> int \<Rightarrow> Response \<Rightarrow> ClientProduced option" where
  "produced_of topic prt (ProduceR r) =
     map_option (\<lambda>p. \<lparr>cp_error = ppr_error p, cp_base_offset = ppr_base_offset p\<rparr>)
       (find (\<lambda>p. ppr_partition p = prt \<and> in_i64 (ppr_base_offset p))
          (concat (map ptr_partitions (filter (\<lambda>t. ptr_name t = topic) (pr_topics r)))))"
| "produced_of topic prt _ = None"

fun fetched_of :: "bytes \<Rightarrow> int \<Rightarrow> Response \<Rightarrow> ClientFetched option" where
  "fetched_of topic prt (FetchR r) =
     map_option (\<lambda>p. \<lparr>cf_error = fpr_error p, cf_high_watermark = fpr_high_watermark p, cf_values = map rec_value (fpr_records p)\<rparr>)
       (find (\<lambda>p. fpr_partition p = prt) (concat (map ftr_partitions (filter (\<lambda>t. ftr_name t = topic) (fr_topics r)))))"
| "fetched_of topic prt _ = None"

fun offset_of :: "bytes \<Rightarrow> int \<Rightarrow> Response \<Rightarrow> int option" where
  "offset_of topic prt (ListOffsetsR r) =
     map_option lpr_offset
       (find (\<lambda>p. lpr_partition p = prt) (concat (map ltr_partitions (filter (\<lambda>t. ltr_name t = topic) (lr_topics r)))))"
| "offset_of topic prt _ = None"

definition kafka_codec :: "WireError ClientCodec" where
  "kafka_codec =
     \<lparr>cc_api_versions_request = (\<lambda>cid name. Inr (client_frame (\<lambda>_ _. []) cid (Some name) ApiVersions)),
      cc_parse_api_versions = (\<lambda>bs cid. reply API_API_VERSIONS cid versions_of bs),
      cc_metadata_request_many = (\<lambda>cid name topics. Inr (client_frame (\<lambda>_ _. []) cid (Some name) (Metadata (Some topics)))),
      cc_parse_metadata_many = (\<lambda>bs cid. reply API_METADATA cid topics_of bs),
      cc_encode_record_batch = (\<lambda>rs _ _ _. kafka_batch rs),
      cc_produce_request = (\<lambda>cid name tid topic prt b timeout. Inr (client_frame (\<lambda>_ _. b) cid (Some name)
        (Produce tid 1 timeout [\<lparr>pt_name = topic, pt_partitions = [\<lparr>pp_partition = prt, pp_records = [], pp_producer = None\<rparr>]\<rparr>]))),
      cc_parse_produce = (\<lambda>bs cid topic prt. reply API_PRODUCE cid (produced_of topic prt) bs),
      cc_fetch_request = (\<lambda>cid name q.
        if in_i32 (cl_max_bytes q) \<and> 0 \<le> cl_max_bytes q
        then Inr (client_frame (\<lambda>_ _. []) cid (Some name) (Fetch (- 1) (cl_max_wait_ms q) 1 (cl_max_bytes q) (cl_read_committed q)
            [\<lparr>ft_name = cl_topic q, ft_partitions =
              [\<lparr>fp_partition = cl_partition q, fp_fetch_offset = cl_offset q, fp_partition_max_bytes = cl_max_bytes q\<rparr>]\<rparr>]))
        else Inl Invalid),
      cc_parse_fetch = (\<lambda>bs cid topic prt. reply API_FETCH cid (fetched_of topic prt) bs),
      cc_list_offsets_request = (\<lambda>cid name topic prt earliest. Inr (client_frame (\<lambda>_ _. []) cid (Some name) (ListOffsets (- 1)
        [\<lparr>lt_name = topic, lt_partitions = [\<lparr>lp_partition = prt, lp_timestamp = (if earliest then - 2 else - 1)\<rparr>]\<rparr>]))),
      cc_parse_list_offsets = (\<lambda>bs cid topic prt. reply API_LIST_OFFSETS cid (offset_of topic prt) bs),
      cc_api_produce = API_PRODUCE, cc_version_produce = 3, cc_api_fetch = API_FETCH, cc_version_fetch = 4, cc_no_error = NO_ERROR\<rparr>"

lemma numbered_data: "map data_from_record (numbered rs) = rs"
  by (rule nth_equalityI) (simp_all add: numbered_def data_from_record_def nth_enumerate_eq)

lemma kafka_batch_decodes:
  assumes "kafka_batch rs = Inr b"
  shows "decode_record_batches_with_identity b = Inr \<lparr>db_records = rs, db_producer = None\<rparr> \<and> length b + 1024 \<le> MAX_FRAME_LEN"
proof -
  have b: "encode_record_batch 0 (numbered rs) = Inr b" "batch_ok_to_send (numbered rs)" "length b + 1024 \<le> MAX_FRAME_LEN"
    using assms by (auto simp: kafka_batch_def split: sum.splits if_splits)
  then show ?thesis
    using decode_encoded_batches [of "[(0, numbered rs, b)]"] by (simp add: numbered_data MAX_FRAME_LEN_def usize_max_def)
qed

lemma reply_Inr: "reply k cid sel bs = Inr v \<longleftrightarrow> (\<exists>r. client_receive k bs = Inr (cid, r) \<and> sel r = Some v)"
  by (auto simp: reply_def split: sum.splits option.splits)

lemma found_in: "find P xs = Some x \<Longrightarrow> P x \<and> x \<in> set xs"
  by (auto simp: find_Some_iff)

interpretation kafka: client_codec kafka_codec
proof unfold_locales
  fix bs cid topic prt v
  assume "cc_parse_produce kafka_codec bs cid topic prt = Inr v"
  then obtain r where "client_receive API_PRODUCE bs = Inr (cid, r)" "produced_of topic prt r = Some v"
    by (auto simp: kafka_codec_def reply_Inr)
  then show "\<exists>r. client_receive API_PRODUCE bs = Inr (cid, ProduceR r)
      \<and> v \<in> (\<lambda>p. \<lparr>cp_error = ppr_error p, cp_base_offset = ppr_base_offset p\<rparr>) ` one_produced topic prt r \<and> in_i64 (cp_base_offset v)"
    by (cases r) (auto simp: one_produced_def image_iff dest!: found_in, blast+)
next
  fix bs cid topic prt w
  assume "cc_parse_fetch kafka_codec bs cid topic prt = Inr w"
  then obtain r where "client_receive API_FETCH bs = Inr (cid, r)" "fetched_of topic prt r = Some w"
    by (auto simp: kafka_codec_def reply_Inr)
  then show "\<exists>r. client_receive API_FETCH bs = Inr (cid, FetchR r)
      \<and> w \<in> (\<lambda>p. \<lparr>cf_error = fpr_error p, cf_high_watermark = fpr_high_watermark p, cf_values = map rec_value (fpr_records p)\<rparr>) ` one_fetched topic prt r"
    by (cases r) (auto simp: one_fetched_def image_iff dest!: found_in, blast+)
next
  fix bs cid topic prt off
  assume "cc_parse_list_offsets kafka_codec bs cid topic prt = Inr off"
  then obtain r where "client_receive API_LIST_OFFSETS bs = Inr (cid, r)" "offset_of topic prt r = Some off"
    by (auto simp: kafka_codec_def reply_Inr)
  then show "\<exists>r. client_receive API_LIST_OFFSETS bs = Inr (cid, ListOffsetsR r) \<and> off \<in> lpr_offset ` one_listed topic prt r"
    by (cases r) (auto simp: one_listed_def image_iff dest!: found_in, blast+)
next
  fix bs cid supports
  assume "cc_parse_api_versions kafka_codec bs cid = Inr supports"
  then obtain r where "client_receive API_API_VERSIONS bs = Inr (cid, r)" "versions_of r = Some supports"
    by (auto simp: kafka_codec_def reply_Inr)
  then show "\<exists>er vs. client_receive API_API_VERSIONS bs = Inr (cid, ApiVersionsR er vs)
      \<and> (\<forall>k v. supports k v \<longleftrightarrow> (\<exists>mn mx. (k, mn, mx) \<in> set vs \<and> mn \<le> v \<and> v \<le> mx))"
    by (cases r) (auto simp: list_ex_iff)
next
  fix bs cid ts
  assume "cc_parse_metadata_many kafka_codec bs cid = Inr ts"
  then obtain r where "client_receive API_METADATA bs = Inr (cid, r)" "topics_of r = Some ts"
    by (auto simp: kafka_codec_def reply_Inr)
  then show "\<exists>m. client_receive API_METADATA bs = Inr (cid, MetadataR m)
      \<and> ts = map (\<lambda>t. \<lparr>ct_topic = wtm_name t, ct_error = wtm_error t, ct_no_partitions = (wtm_partitions t = [])\<rparr>) (mr_topics m)"
    by (cases r) auto
next
  fix cid name topic prt b timeout f
  assume "cc_produce_request kafka_codec cid name None topic prt b timeout = Inr f"
  then have "\<forall>rs producer. f = client_frame (\<lambda>_ _. b) cid (Some name)
      (Produce None 1 timeout [\<lparr>pt_name = topic, pt_partitions = [\<lparr>pp_partition = prt, pp_records = rs, pp_producer = producer\<rparr>]\<rparr>])"
    by (auto simp: kafka_codec_def client_frame_def client_payload_def produce_topic_field_def produce_partition_field_def array_field_def)
  moreover have "in_i16 1" by (simp add: in_signed_def)
  ultimately show "\<exists>acks. in_i16 acks \<and> (\<forall>rs producer. f = client_frame (\<lambda>_ _. b) cid (Some name)
      (Produce None acks timeout [\<lparr>pt_name = topic, pt_partitions = [\<lparr>pp_partition = prt, pp_records = rs, pp_producer = producer\<rparr>]\<rparr>]))"
    by blast
next
  fix cid name q f
  assume "cc_fetch_request kafka_codec cid name q = Inr f"
  then show "\<exists>replica mn pmx. in_i32 replica \<and> in_i32 mn \<and> 0 \<le> mn \<and> in_i32 pmx \<and> 0 \<le> pmx
      \<and> f = client_frame (\<lambda>_ _. []) cid (Some name) (Fetch replica (cl_max_wait_ms q) mn (cl_max_bytes q) (cl_read_committed q)
          [\<lparr>ft_name = cl_topic q, ft_partitions = [\<lparr>fp_partition = cl_partition q, fp_fetch_offset = cl_offset q, fp_partition_max_bytes = pmx\<rparr>]\<rparr>])"
    by (intro exI [of _ "- 1"] exI [of _ 1] exI [of _ "cl_max_bytes q"]) (auto simp: kafka_codec_def in_signed_def split: if_splits)
next
  fix cid name topic prt earliest f
  assume "cc_list_offsets_request kafka_codec cid name topic prt earliest = Inr f"
  then show "\<exists>replica. in_i32 replica \<and> f = client_frame (\<lambda>_ _. []) cid (Some name)
      (ListOffsets replica [\<lparr>lt_name = topic, lt_partitions = [\<lparr>lp_partition = prt, lp_timestamp = (if earliest then - 2 else - 1)\<rparr>]\<rparr>])"
    by (intro exI [of _ "- 1"]) (simp add: kafka_codec_def in_signed_def)
qed (simp_all add: kafka_codec_def kafka_batch_decodes)

section \<open>The client's end of a connection\<close>

text \<open>
  What the client writes reaches the connection loop of the TCP server, and what the loop writes is there for the client to read. A
  read past the end of a response fails: the server has closed the connection, or the read timeout has passed.
\<close>

record 's HostLink =
  hl_server :: 's
  hl_unread :: bytes

definition host_link :: "'s Transport \<Rightarrow> Engine \<Rightarrow> ('s HostLink, unit) TcpStream" where
  "host_link tr e =
     \<lparr>ts_connect = (\<lambda>_ n. (Inr (), n\<lparr>hl_unread := []\<rparr>)),
      ts_set_read_timeout = (\<lambda>_ n. (Inr (), n)),
      ts_write_all = (\<lambda>bs n. case host_loop tr e (\<lambda>_ s. (True, s)) bs (hl_server n) of
        (out, s) \<Rightarrow> (Inr (), \<lparr>hl_server = s, hl_unread = hl_unread n @ concat out\<rparr>)),
      ts_read_exact = (\<lambda>k n. if k \<le> length (hl_unread n) then (Inr (take k (hl_unread n)), n\<lparr>hl_unread := drop k (hl_unread n)\<rparr>)
        else (Inl (), n))\<rparr>"

lemma host_link_write:
  assumes "framed_start frame" and "frame_len frame = length frame" and "handle_frame tr e frame s = (r, s')"
  shows "ts_write_all (host_link tr e) frame \<lparr>hl_server = s, hl_unread = []\<rparr> =
    (Inr (), \<lparr>hl_server = s', hl_unread = (case r of Inl _ \<Rightarrow> [] | Inr response \<Rightarrow> response)\<rparr>)"
  using assms(2,3) by (cases r) (simp_all add: host_link_def host_frame [OF assms(1)] host_awaiting awaiting_def)

context shard_transport
begin

lemma link_serves: "served_connection tr cat mb good executed chan posted taken e (host_link tr e) hl_unread hl_server"
proof (intro served_connection.intro served_connection_axioms.intro)
  show "shard_transport tr cat mb good executed chan posted taken" by (rule shard_transport_axioms)
  fix n n' :: "'s HostLink" and frame
  assume g: "good (hl_server n)" and u: "hl_unread n = []" and f: "framed_start frame" "frame_len frame = length frame"
    and w: "ts_write_all (host_link tr e) frame n = (Inr (), n')"
  obtain r s where h: "handle_frame tr e frame (hl_server n) = (r, s)" by fastforce
  have n: "n = \<lparr>hl_server = hl_server n, hl_unread = []\<rparr>" using u by (cases n) simp
  have "n' = \<lparr>hl_server = s, hl_unread = (case r of Inl _ \<Rightarrow> [] | Inr response \<Rightarrow> response)\<rparr>"
    using host_link_write [OF f h] w n by simp
  moreover have "keeps (hl_server n) s" using steady_handle_frame [of e frame] g h by (auto simp: steady_def)
  ultimately show "\<exists>s1 r s2. keeps (hl_server n) s1 \<and> handle_frame tr e frame s1 = (r, s2) \<and> keeps s2 (hl_server n')
      \<and> hl_unread n' = (case r of Inl _ \<Rightarrow> [] | Inr response \<Rightarrow> response)"
    using h keeps_refl [OF g] keeps_refl [of s]
    by (intro exI [of _ "hl_server n"] exI [of _ r] exI [of _ s]) (simp add: keeps_def)
qed (auto simp: host_link_def keeps_refl split: if_splits)

end

interpretation wired: served_connection "sim_transport cat mb capacity schedule" cat mb "sim_good cat mb" sm_executed sm_chan sm_posted sm_taken
  e "host_link (sim_transport cat mb capacity schedule) e" hl_unread hl_server for cat mb capacity schedule e
  by (rule sim.link_serves)

text \<open>One exchange over the link, forwards.\<close>

lemma link_exchange:
  fixes parse :: "bytes \<Rightarrow> 'e + 'v" and post :: "'v \<Rightarrow> ('s HostLink, unit, 'e, 'b) smoke"
  assumes "body_ok pack body" and "in_i32 cid" and "length (client_payload pack cid (Some CLIENT_ID) body) \<le> MAX_FRAME_LEN"
    and "handle_request tr e (request_of cid body) s = (encode_response cid resp, s')" and "response_fits resp"
    and "length (response_field resp) + 4 \<le> MAX_FRAME_LEN" and "parse (response_frame cid (response_field resp)) = Inr v"
  shows "sbind (codec (Inr (client_frame pack cid (Some CLIENT_ID) body)))
      (\<lambda>f. sbind (round_trip (host_link tr e) f) (\<lambda>bs. sbind (codec (parse bs)) post)) \<lparr>hl_server = s, hl_unread = []\<rparr>
    = post v \<lparr>hl_server = s', hl_unread = []\<rparr>"
proof -
  let ?f = "client_frame pack cid (Some CLIENT_ID) body" and ?xs = "response_field resp"
  have ok: "opt_ok (Some CLIENT_ID)" by (simp add: opt_ok_def CLIENT_ID_def MAX_STRING_LEN_def)
  have "handle_frame tr e ?f s = (Inr (response_frame cid ?xs), s')"
    using decode_client_frame [OF assms(1,2) ok assms(3)] assms(4,5) encode_response_Inr [of cid resp]
    by (auto simp: handle_frame_def request_of_def)
  note w = host_link_write [OF client_frame_framed [OF assms(3)] this]
  have "in_i32 (int (length ?xs) + 4)" using assms(6) by (simp add: in_signed_def MAX_FRAME_LEN_def)
  then have p: "be_int 4 (take 4 (response_frame cid ?xs)) = int (length ?xs) + 4" "length (response_frame cid ?xs) = 8 + length ?xs"
    by (simp_all add: response_frame_def be_int_bytes)
  have "round_trip (host_link tr e) ?f \<lparr>hl_server = s, hl_unread = []\<rparr> =
      (Inr (response_frame cid ?xs) :: (unit, 'e) SmokeError + bytes, \<lparr>hl_server = s', hl_unread = []\<rparr>)"
    using w p assms(6)
    by (simp add: round_trip_def sbind_def socket_def host_link_def Let_def MAX_FRAME_LEN_def sok_def nat_add_distrib)
  then show ?thesis using assms(7) by (simp add: sbind_def codec_def)
qed

section \<open>A run of the client\<close>

definition smoke_catalog :: TopicCatalog where
  "smoke_catalog = \<lparr>tc_topics = [(EVENTS, 1)]\<rparr>"

definition smoke_transport :: "Sim Transport" where
  "smoke_transport = sim_transport smoke_catalog None 4 (\<lambda>k. [Turn 0])"

definition smoke_broker :: Broker where
  "smoke_broker = \<lparr>br_shards = 1, br_catalog = smoke_catalog, br_park_timeout = 1, br_max_retries = 2\<rparr>"

definition smoke_engine :: Engine where
  "smoke_engine = \<lparr>en_broker = smoke_broker, en_identity = identity_new 0 [104] 9092, en_max_fetch_records = 10,
     en_max_fetch_bytes = 65536\<rparr>"

definition smoke_stored :: Record where
  "smoke_stored = \<lparr>rec_offset = 0, rec_timestamp_ms = 1000, rec_key = rd_key smoke_record, rec_value = rd_value smoke_record\<rparr>"

definition smoke_produced :: Sim where
  "smoke_produced = \<lparr>sm_executed = [(0, ProduceCmd EVENTS 0 [smoke_record], 2)], sm_pending = [], sm_chan = 2,
     sm_posted = [(0, ProduceCmd EVENTS 0 [smoke_record])], sm_inbox = [], sm_taken = 1, sm_clock = 1\<rparr>"

definition smoke_fetched :: Sim where
  "smoke_fetched = \<lparr>sm_executed = sm_executed smoke_produced @ [(0, FetchCmd EVENTS 0 0 10 65536 True, 3)],
     sm_pending = [], sm_chan = 3, sm_posted = [(0, FetchCmd EVENTS 0 0 10 65536 True)], sm_inbox = [], sm_taken = 1, sm_clock = 2\<rparr>"

definition smoke_listed :: Sim where
  "smoke_listed = \<lparr>sm_executed = sm_executed smoke_fetched @ [(0, ListOffsetCmd EVENTS 0 False, 4)],
     sm_pending = [], sm_chan = 4, sm_posted = [(0, ListOffsetCmd EVENTS 0 False)], sm_inbox = [], sm_taken = 1, sm_clock = 3\<rparr>"

lemma smoke_shard [simp]: "shard_index smoke_broker topic prt = 0"
  by (simp add: shard_index_def shard_index_of_def smoke_broker_def)

lemma smoke_broker_simps [simp]:
  "br_shards smoke_broker = 1" "br_catalog smoke_broker = smoke_catalog" "br_park_timeout smoke_broker = 1"
  "br_max_retries smoke_broker = 2"
  by (simp_all add: smoke_broker_def)

lemmas smoke_eval = demo_eval smoke_transport_def smoke_catalog_def smoke_record_def smoke_stored_def smoke_produced_def
  smoke_fetched_def smoke_listed_def log_eval fetch_eval

lemma smoke_produce_run: "broker_produce smoke_transport smoke_broker EVENTS 0 [smoke_record] sim_new = (Inr 0, smoke_produced)"
  by (simp add: smoke_eval)

lemma smoke_fetch_run: "broker_fetch_with_isolation smoke_transport smoke_broker EVENTS 0 0 10 65536 True smoke_produced
     = (Inr \<lparr>fw_high_watermark = 1, fw_last_stable_offset = 1, fw_records = [smoke_stored]\<rparr>, smoke_fetched)"
  by (simp add: smoke_eval)

lemma smoke_list_run: "broker_list_offset smoke_transport smoke_broker EVENTS 0 False smoke_fetched = (Inr 1, smoke_listed)"
  by (simp add: smoke_eval broker_list_offset_def list_offset_def high_watermark_def)

abbreviation smoke_link :: "(Sim HostLink, unit) TcpStream" where
  "smoke_link \<equiv> host_link smoke_transport smoke_engine"

abbreviation at_server :: "Sim \<Rightarrow> Sim HostLink" where
  "at_server s \<equiv> \<lparr>hl_server = s, hl_unread = []\<rparr>"

lemma kafka_exchange:
  fixes post :: "'v \<Rightarrow> ('s HostLink, unit, WireError, 'b) smoke"
  assumes "handle_request tr e (request_of cid body) s = (encode_response cid resp, s')"
    and "response_fits resp" "response_typed resp" "answers resp k" "length (response_field resp) \<le> 1000" and "sel resp = Some v"
    and "body_ok pack body" and "in_i32 cid" and "length (client_payload pack cid (Some CLIENT_ID) body) \<le> MAX_FRAME_LEN"
  shows "sbind (codec (Inr (client_frame pack cid (Some CLIENT_ID) body)))
      (\<lambda>f. sbind (round_trip (host_link tr e) f) (\<lambda>bs. sbind (codec (reply k cid sel bs)) post)) \<lparr>hl_server = s, hl_unread = []\<rparr>
    = post v \<lparr>hl_server = s', hl_unread = []\<rparr>"
proof -
  have len: "length (response_field resp) + 4 \<le> MAX_FRAME_LEN" using assms(5) by (simp add: MAX_FRAME_LEN_def)
  have "reply k cid sel (response_frame cid (response_field resp)) = Inr v"
    using client_receive_frame [OF assms(2-4,8) len] assms(6) by (simp add: reply_Inr)
  from link_exchange [OF assms(7-9,1,2) len, of "reply k cid sel", OF this] show ?thesis .
qed

lemmas response_sizes = array_field_def array_len_field_def string_field_def nullable_string_field_def version_field_def broker_field_def
  topic_metadata_field_def partition_metadata_field_def produce_topic_result_field_def produce_result_field_def
  fetch_topic_result_field_def fetch_result_field_def aborted_field_def bytes_field_def list_topic_result_field_def list_result_field_def

lemma smoke_versions_stage: "smoke_versions kafka_codec smoke_link (at_server s) = (Inr (), at_server s)"
proof -
  let ?resp = "ApiVersionsR NO_ERROR SUPPORTED_VERSIONS"
  have h: "handle_request smoke_transport smoke_engine (request_of 1 ApiVersions) s = (encode_response 1 ?resp, s)"
    by (simp add: request_of_def handle_request_def encode_api_versions_def)
  show ?thesis
    by (simp add: smoke_versions_def kafka_codec_def, subst kafka_exchange [OF h, where v = "the (versions_of ?resp)"])
      (simp_all add: in_signed_def payload_fields response_sizes SUPPORTED_VERSIONS_def small_def MAX_ARRAY_LEN_def sok_def)
qed

lemma smoke_metadata_stage: "smoke_metadata kafka_codec smoke_link (at_server s) = (Inr (), at_server s)"
proof -
  let ?resp = "MetadataR (metadata_of smoke_engine)"
  have h: "handle_request smoke_transport smoke_engine (request_of 2 (Metadata (Some [EVENTS]))) s = (encode_response 2 ?resp, s)"
    by (simp add: request_of_def handle_request_def engine_metadata_def metadata_of_def)
  have "broker_partition_count smoke_broker EVENTS = Some 1"
    by (simp add: broker_partition_count_def partition_count_def smoke_catalog_def)
  then have m: "metadata_of smoke_engine = \<lparr>mr_brokers = [\<lparr>bm_node_id = 0, bm_host = [104], bm_port = 9092\<rparr>], mr_controller_id = 0,
      mr_topics = [\<lparr>wtm_error = NO_ERROR, wtm_name = EVENTS, wtm_is_internal = False, wtm_partitions =
        [\<lparr>pm_error = NO_ERROR, pm_partition = 0, pm_leader = 0, pm_replicas = [0], pm_isr = [0]\<rparr>]\<rparr>]\<rparr>"
    by (simp add: metadata_of_def smoke_engine_def response_topics_def partitions_of_def identity_new_def)
  show ?thesis
    by (simp add: smoke_metadata_def kafka_codec_def, subst kafka_exchange [OF h, where v = "the (topics_of ?resp)"])
      (simp_all add: m in_signed_def payload_fields response_sizes topic_metadata_fits_def partition_metadata_fits_def
        broker_typed_def topic_metadata_typed_def partition_metadata_typed_def name_ok_def MAX_STRING_LEN_def sok_def)
qed

lemma smoke_batch:
  "kafka_batch [smoke_record] = Inr (batch_bytes 0 [smoke_stored])" "sendable 0 [smoke_stored]" "length (batch_bytes 0 [smoke_stored]) \<le> 200"
proof -
  have n: "numbered [smoke_record] = [smoke_stored]"
    by (simp add: numbered_def smoke_stored_def smoke_record_def)
  show s: "sendable 0 [smoke_stored]"
    by (auto intro!: sendable_small simp: smoke_stored_def smoke_record_def bytes_of_def record_size_def RECORD_OVERHEAD_BYTES_def
        MAX_RECORDS_def MAX_FRAME_LEN_def)
  show l: "length (batch_bytes 0 [smoke_stored]) \<le> 200"
    using length_batch_bytes [of 0 "[smoke_stored]"]
    by (simp add: smoke_stored_def smoke_record_def bytes_of_def record_size_def RECORD_OVERHEAD_BYTES_def)
  have "batch_ok_to_send [smoke_stored]"
    by (simp add: batch_ok_to_send_def delta_ok_def in_signed_def smoke_stored_def)
  moreover have "encode_record_batch 0 [smoke_stored] = Inr (batch_bytes 0 [smoke_stored])" using s by (simp add: encode_Inr)
  ultimately show "kafka_batch [smoke_record] = Inr (batch_bytes 0 [smoke_stored])"
    using l by (simp add: kafka_batch_def n MAX_FRAME_LEN_def)
qed

lemma smoke_produce_stage: "smoke_produce kafka_codec smoke_link (at_server sim_new) = (Inr 0, at_server smoke_produced)"
proof -
  let ?b = "batch_bytes 0 [smoke_stored]" and ?p = "\<lparr>pp_partition = 0, pp_records = [smoke_record], pp_producer = None\<rparr>"
  let ?body = "Produce None 1 30000 [\<lparr>pt_name = EVENTS, pt_partitions = [?p]\<rparr>]"
  let ?resp = "ProduceR \<lparr>pr_topics = [\<lparr>ptr_name = EVENTS, ptr_partitions = [\<lparr>ppr_partition = 0, ppr_error = NO_ERROR,
    ppr_base_offset = 0, ppr_log_append_time_ms = - 1\<rparr>]\<rparr>], pr_throttle_time_ms = 0\<rparr>"
  have f: "cc_produce_request kafka_codec 3 CLIENT_ID None EVENTS 0 ?b 30000 = Inr (client_frame (\<lambda>_ _. ?b) 3 (Some CLIENT_ID) ?body)"
    by (simp add: kafka_codec_def client_frame_def client_payload_def produce_topic_field_def produce_partition_field_def array_field_def)
  have h: "handle_request smoke_transport smoke_engine (request_of 3 ?body) sim_new = (encode_response 3 ?resp, smoke_produced)"
    by (simp add: request_of_def handle_request_def engine_produce_def encoded_def produce_topics_def produce_one_def settle_def
        smoke_engine_def smoke_produce_run produce_result_def)
  have b: "cc_encode_record_batch kafka_codec [smoke_record] \<lparr>pi_id = - 1, pi_epoch = - 1\<rparr> (- 1) False = Inr ?b"
    "cc_parse_produce kafka_codec = (\<lambda>bs cid topic prt. reply API_PRODUCE cid (produced_of topic prt) bs)" "cc_no_error kafka_codec = NO_ERROR"
    by (simp_all add: kafka_codec_def smoke_batch(1))
  note d = kafka_batch_decodes [OF smoke_batch(1)]
  show ?thesis
    unfolding smoke_produce_def b codec_step unfolding f
    by (subst kafka_exchange [OF h, where v = "\<lparr>cp_error = NO_ERROR, cp_base_offset = 0\<rparr>"])
      (use d smoke_batch(3) in \<open>simp_all add: in_signed_def payload_fields response_sizes produce_topic_fits_def produce_topic_typed_def
        produce_result_typed_def opt_ok_def produce_partition_ok_def name_ok_def MAX_STRING_LEN_def sok_def\<close>)
qed

lemma smoke_fetch_stage: "smoke_fetch kafka_codec smoke_link 0 (at_server smoke_produced) = (Inr 1, at_server smoke_fetched)"
proof -
  let ?p = "\<lparr>fp_partition = 0, fp_fetch_offset = 0, fp_partition_max_bytes = 65536\<rparr>"
  let ?body = "Fetch (- 1) 0 1 65536 True [\<lparr>ft_name = EVENTS, ft_partitions = [?p]\<rparr>]"
  let ?resp = "FetchR \<lparr>fr_throttle_time_ms = 0, fr_topics = [\<lparr>ftr_name = EVENTS, ftr_partitions =
    [\<lparr>fpr_partition = 0, fpr_error = NO_ERROR, fpr_high_watermark = 1, fpr_last_stable_offset = 1, fpr_aborted_transactions = None,
      fpr_records = [smoke_stored]\<rparr>]\<rparr>]\<rparr>"
  have h: "handle_request smoke_transport smoke_engine (request_of 4 ?body) smoke_produced = (encode_response 4 ?resp, smoke_fetched)"
    by (simp add: request_of_def handle_request_def engine_fetch_def encoded_def fetch_topics_def fetch_one_def settle_def fetch_limit_def
        smoke_engine_def smoke_fetch_run fetch_result_def)
  have st: "rec_offset smoke_stored = 0" "rec_timestamp_ms smoke_stored = 1000" "rec_value smoke_stored = rd_value smoke_record"
    by (simp_all add: smoke_stored_def)
  show ?thesis
    by (simp add: smoke_fetch_def kafka_codec_def in_signed_def, subst kafka_exchange [OF h, where v =
        "\<lparr>cf_error = NO_ERROR, cf_high_watermark = 1, cf_values = [rd_value smoke_record]\<rparr>"])
      (use smoke_batch(2,3) in \<open>simp_all add: st in_signed_def payload_fields response_sizes record_set_def fetch_topic_fits_def
        fetch_result_fits_def records_fit_def fetch_topic_typed_def fetch_result_typed_def records_typed_def delta_ok_def
        name_ok_def MAX_STRING_LEN_def smoke_record_def sok_def\<close>)
qed

lemma smoke_latest_stage: "smoke_latest kafka_codec smoke_link 0 (at_server smoke_fetched) = (Inr 1, at_server smoke_listed)"
proof -
  let ?body = "ListOffsets (- 1) [\<lparr>lt_name = EVENTS, lt_partitions = [\<lparr>lp_partition = 0, lp_timestamp = - 1\<rparr>]\<rparr>]"
  let ?resp = "ListOffsetsR \<lparr>lr_topics = [\<lparr>ltr_name = EVENTS, ltr_partitions = [\<lparr>lpr_partition = 0, lpr_error = NO_ERROR,
    lpr_timestamp_ms = - 1, lpr_offset = 1\<rparr>]\<rparr>]\<rparr>"
  have h: "handle_request smoke_transport smoke_engine (request_of 5 ?body) smoke_fetched = (encode_response 5 ?resp, smoke_listed)"
    by (simp add: request_of_def handle_request_def engine_list_offsets_def encoded_def list_topics_def list_one_def settle_def
        smoke_engine_def smoke_list_run list_result_def)
  show ?thesis
    by (simp add: smoke_latest_def kafka_codec_def, subst kafka_exchange [OF h, where v = 1])
      (simp_all add: in_signed_def payload_fields response_sizes list_topic_fits_def list_topic_typed_def list_result_typed_def
        name_ok_def MAX_STRING_LEN_def sok_def)
qed

lemma smoke_run_stages: "smoke_run kafka_codec smoke_link address (at_server sim_new) = (Inr (0, 1, 1), at_server smoke_listed)"
proof -
  have c: "socket er (ts_connect smoke_link address) (at_server sim_new) = (Inr (), at_server sim_new)"
    "socket er' (ts_set_read_timeout smoke_link 10) (at_server sim_new) = (Inr (), at_server sim_new)" for er er'
    by (simp_all add: socket_def host_link_def)
  show ?thesis
    unfolding smoke_run_def
    by (simp add: sbind_def c smoke_versions_stage smoke_metadata_stage smoke_produce_stage smoke_fetch_stage smoke_latest_stage sok_def)
qed

lemma smoke_is_served: "served_connection smoke_transport smoke_catalog None (sim_good smoke_catalog None) sm_executed sm_chan sm_posted sm_taken
    smoke_engine smoke_link hl_unread hl_server"
  unfolding smoke_transport_def by (rule wired.served_connection_axioms)

section \<open>Properties\<close>

text \<open>
  C7: the smoke client's verdict. Over any codec that keeps to the Kafka layouts and any connection that carries its frames to an
  engine and the responses back, while other clients use the same broker: if the run succeeds, the record it produced is in
  the partition's history at the base offset it prints, and the high watermark and the latest offset it prints are beyond. If
  the run fails, it never blames the advertised versions, a missing topic entry or a record's value; a metadata
  error means that the topic does not exist, a fetch failure that the fetch was refused or found two records or more, and a
  latest offset that did not advance that the request was refused.
\<close>

theorem smoke_run_verdict:
  assumes "served_connection tr cat mb good executed chan posted taken e stream unread server" and "client_codec client"
    and "good (server n)" and "smoke_run client stream address n = (r, n')"
    and "int (length (partition_history cat (shard_index (en_broker e) EVENTS 0) (EVENTS, 0) (executed (server n')))) \<le> max_signed 64"
    and "catalog_reach (br_catalog (en_broker e))" and "identity_typed e" and "0 < en_max_fetch_records e"
  shows "case r of
      Inl er \<Rightarrow> excused e er
    | Inr (base, hw, latest) \<Rightarrow> 0 \<le> base \<and> base < hw \<and> base < latest
        \<and> (let H = partition_history cat (shard_index (en_broker e) EVENTS 0) (EVENTS, 0) (executed (server n'))
           in nat base < length H \<and> H ! nat base = smoke_record)"
  using served_connection.run_verdict [OF assms(1-4) _ assms(6-8)] assms(5)
  by (simp add: served_connection.bounded_def [OF assms(1)])

theorem smoke_run_verdict_witness:
  "\<exists>n'. smoke_run kafka_codec smoke_link ''127.0.0.1:19099'' (at_server sim_new) = (Inr (0, 1, 1), n')
     \<and> partition_history smoke_catalog 0 (EVENTS, 0) (sm_executed (hl_server n')) ! 0 = smoke_record"
proof -
  have h: "int (length (partition_history smoke_catalog (shard_index (en_broker smoke_engine) EVENTS 0) (EVENTS, 0) (sm_executed smoke_listed)))
      \<le> max_signed 64"
    by (simp add: partition_history_def smoke_listed_def smoke_fetched_def smoke_produced_def commands_of_def hist_run_def check_partition_def
        smoke_engine_def partition_count_def smoke_catalog_def accepted_def MAX_APPEND_RECORDS_def max_signed_def)
  have "catalog_create catalog_new EVENTS 1 = Inr smoke_catalog"
    by (simp add: catalog_create_def catalog_new_def smoke_catalog_def)
  then have c: "catalog_reach (br_catalog (en_broker smoke_engine))"
    using reach_create [OF reach_new] by (simp add: smoke_engine_def)
  have g: "sim_good smoke_catalog None (hl_server (at_server sim_new))" using sim_new_good by simp
  have t: "identity_typed smoke_engine" "0 < en_max_fetch_records smoke_engine"
    by (simp_all add: identity_typed_def smoke_engine_def identity_new_def in_signed_def)
  show ?thesis
    using smoke_run_verdict [OF smoke_is_served kafka.client_codec_axioms g smoke_run_stages [of "''127.0.0.1:19099''"] _ c t] h
      smoke_run_stages [of "''127.0.0.1:19099''"]
    by (simp add: smoke_engine_def Let_def)
qed

end
