(* ===== verification/Service_Startup.thy ===== *)
theory Service_Startup
  imports Connection_Properties
begin

text \<open>
  Starting and stopping the two services around the engine: the TCP server with its accept thread and
  shutdown handle (\<^verbatim>\<open>crates/broker-host/src/server.rs\<close>), the broker program that uses it
  (\<^verbatim>\<open>crates/broker-host/examples/host_broker.rs\<close>), and the startup of the EL0 service
  (\<^verbatim>\<open>crates/broker-el0/src/main.rs\<close>).

  Calls of the operating system are parameters: what binding, spawning, the deployment descriptor and the
  grants return.
\<close>

section \<open>The TCP server\<close>

text \<open>Sleep between two polls of the listener, in milliseconds.\<close>

definition ACCEPT_BACKOFF :: nat where "ACCEPT_BACKOFF = 1"

text \<open>
  The accept thread is at the test of the stop flag, in a call of \<^verbatim>\<open>accept\<close>, or has left its loop.
  The handle holds the join handle, waits in \<^verbatim>\<open>join\<close>, or has joined.
\<close>

datatype AcceptThread = Polling | Accepting | Ended

datatype HandleState = HandleHeld | HandleJoining | HandleJoined

record ('a, 'c) Server =
  sv_local_addr :: 'a
  sv_stop :: bool
  sv_accept :: AcceptThread
  sv_handle :: HandleState
  sv_connections :: "'c list"

definition server_start ::
  "('a \<Rightarrow> 'e + 'l) \<Rightarrow> ('l \<Rightarrow> 'e + 'a) \<Rightarrow> ('l \<Rightarrow> 'e + unit) \<Rightarrow> 'e + unit \<Rightarrow> 'a \<Rightarrow> 'e + ('a, 'c) Server" where
  "server_start bind local_addr set_nonblocking spawned listen =
     (case bind listen of Inl e \<Rightarrow> Inl e | Inr listener \<Rightarrow>
      case local_addr listener of Inl e \<Rightarrow> Inl e | Inr addr \<Rightarrow>
      case set_nonblocking listener of Inl e \<Rightarrow> Inl e | Inr _ \<Rightarrow>
      case spawned of Inl e \<Rightarrow> Inl e | Inr _ \<Rightarrow>
        Inr \<lparr>sv_local_addr = addr, sv_stop = False, sv_accept = Polling, sv_handle = HandleHeld, sv_connections = []\<rparr>)"

text \<open>
  What \<^verbatim>\<open>accept\<close> returns: a connection, with whether its thread could be spawned, \<^verbatim>\<open>WouldBlock\<close>, or another error.
\<close>

datatype 'c HostAccept = HostAccepted 'c bool | HostWouldBlock | HostAcceptError

text \<open>One turn of the accept thread; after \<^verbatim>\<open>WouldBlock\<close> it sleeps \<^const>\<open>ACCEPT_BACKOFF\<close>.\<close>

definition host_accept_turn :: "'c HostAccept \<Rightarrow> ('a, 'c) Server \<Rightarrow> ('a, 'c) Server" where
  "host_accept_turn result h =
     (case sv_accept h of
        Polling \<Rightarrow> h\<lparr>sv_accept := (if sv_stop h then Ended else Accepting)\<rparr>
      | Accepting \<Rightarrow>
          (case result of
             HostAccepted stream spawned \<Rightarrow>
               h\<lparr>sv_accept := Polling, sv_connections := (if spawned then sv_connections h @ [stream] else sv_connections h)\<rparr>
           | HostWouldBlock \<Rightarrow> h\<lparr>sv_accept := Polling\<rparr>
           | HostAcceptError \<Rightarrow> h\<lparr>sv_accept := Ended\<rparr>)
      | Ended \<Rightarrow> h)"

text \<open>
  Both \<^verbatim>\<open>shutdown\<close> and dropping the handle call \<^verbatim>\<open>stop\<close>: it stores the flag and, if the join handle is
  still there, takes it and waits for the thread.
\<close>

definition handle_stop :: "('a, 'c) Server \<Rightarrow> ('a, 'c) Server" where
  "handle_stop h =
     h\<lparr>sv_stop := True, sv_handle := (case sv_handle h of HandleHeld \<Rightarrow> HandleJoining | other \<Rightarrow> other)\<rparr>"

definition handle_joined :: "('a, 'c) Server \<Rightarrow> ('a, 'c) Server" where
  "handle_joined h = h\<lparr>sv_handle := HandleJoined\<rparr>"

text \<open>The steps of the accept thread, those of the handle's owner, and both interleaved.\<close>

inductive accept_thread_step :: "('a, 'c) Server \<Rightarrow> ('a, 'c) Server \<Rightarrow> bool" where
  server_turn: "sv_accept h \<noteq> Ended \<Longrightarrow> accept_thread_step h (host_accept_turn result h)"

inductive handle_step :: "('a, 'c) Server \<Rightarrow> ('a, 'c) Server \<Rightarrow> bool" where
  server_stop: "sv_handle h \<noteq> HandleJoining \<Longrightarrow> handle_step h (handle_stop h)"
| server_join: "sv_handle h = HandleJoining \<Longrightarrow> sv_accept h = Ended \<Longrightarrow> handle_step h (handle_joined h)"

inductive_cases accept_thread_stepE: "accept_thread_step h h'"

inductive_cases handle_stepE: "handle_step h h'"

definition server_step :: "('a, 'c) Server \<Rightarrow> ('a, 'c) Server \<Rightarrow> bool" where
  "server_step h h' \<longleftrightarrow> accept_thread_step h h' \<or> handle_step h h'"

lemma server_stepE [consumes 1, case_names turn stop join]:
  assumes "server_step h h'"
  obtains result where "h' = host_accept_turn result h" "sv_accept h \<noteq> Ended"
    | "h' = handle_stop h" "sv_handle h \<noteq> HandleJoining"
    | "h' = handle_joined h" "sv_handle h = HandleJoining" "sv_accept h = Ended"
  using assms unfolding server_step_def by (auto elim: accept_thread_stepE handle_stepE)

lemmas server_defs = host_accept_turn_def handle_stop_def handle_joined_def

text \<open>The connections a server that is stopping can still add: one, if its thread is already in \<^verbatim>\<open>accept\<close>.\<close>

definition in_flight :: "('a, 'c) Server \<Rightarrow> nat" where
  "in_flight h = (if sv_accept h = Accepting then 1 else 0)"

definition server_ok :: "('a, 'c) Server \<Rightarrow> bool" where
  "server_ok h \<longleftrightarrow> (sv_handle h \<noteq> HandleHeld \<longrightarrow> sv_stop h) \<and> (sv_handle h = HandleJoined \<longrightarrow> sv_accept h = Ended)"

lemma server_step_ok: "server_step h h' \<Longrightarrow> server_ok h \<Longrightarrow> server_ok h'"
  by (erule server_stepE)
    (auto simp: server_ok_def server_defs split: AcceptThread.splits HostAccept.splits HandleState.splits)

lemma server_step_effect:
  assumes "server_step h h'"
  shows "sv_local_addr h' = sv_local_addr h \<and> (\<exists>cs. sv_connections h' = sv_connections h @ cs)
    \<and> (sv_stop h \<longrightarrow> sv_stop h' \<and> length (sv_connections h') + in_flight h' \<le> length (sv_connections h) + in_flight h)
    \<and> (sv_accept h = Ended \<longrightarrow> sv_accept h' = Ended \<and> sv_connections h' = sv_connections h)"
  using assms
  by (rule server_stepE)
    (auto simp: server_defs in_flight_def split: AcceptThread.splits HostAccept.splits)

lemma server_run_effect:
  assumes "server_step\<^sup>*\<^sup>* h h'"
  shows "(server_ok h \<longrightarrow> server_ok h') \<and> sv_local_addr h' = sv_local_addr h \<and> (\<exists>cs. sv_connections h' = sv_connections h @ cs)
    \<and> (sv_stop h \<longrightarrow> sv_stop h' \<and> length (sv_connections h') + in_flight h' \<le> length (sv_connections h) + in_flight h)
    \<and> (sv_accept h = Ended \<longrightarrow> sv_accept h' = Ended \<and> sv_connections h' = sv_connections h)"
  using assms
proof (induction rule: rtranclp_induct)
  case (step y z)
  show ?case
    using step.IH server_step_ok [OF step.hyps(2)] server_step_effect [OF step.hyps(2)] by auto
qed simp

lemma stopping_ends: "sv_stop h \<Longrightarrow> sv_accept (host_accept_turn r' (host_accept_turn r h)) = Ended"
  by (auto simp: host_accept_turn_def split: AcceptThread.splits HostAccept.splits)

text \<open>
  Any error of \<^verbatim>\<open>accept\<close> but \<^verbatim>\<open>WouldBlock\<close> ends the accept thread for good, although nobody asked the server
  to stop: from then on no connection is served, and the handle does not show it.
\<close>

lemma accept_error_ends_service:
  assumes "sv_accept h = Accepting" and "h' = host_accept_turn HostAcceptError h" and "server_step\<^sup>*\<^sup>* h' h''"
  shows "sv_stop h' = sv_stop h \<and> sv_handle h' = sv_handle h \<and> sv_accept h'' = Ended \<and> sv_connections h'' = sv_connections h"
  using server_run_effect [OF assms(3)] assms(1,2) by (simp add: host_accept_turn_def)

section \<open>The host broker program\<close>

definition host_config :: BrokerConfig where
  "host_config = config_new 4 [\<lparr>ts_name = [101, 118, 101, 110, 116, 115], ts_partitions = 4\<rparr>]"

definition host_identity :: BrokerIdentity where
  "host_identity = identity_new 0 [49, 50, 55, 46, 48, 46, 48, 46, 49] 9092"

datatype 'e HostFailure = StartFailed BrokerError | AddressInvalid 'e | ServerFailed 'e

text \<open>
  The program up to its endless sleep. The parsed listen address and the server started on it are
  parameters.
\<close>

definition host_main ::
  "'s Transport \<Rightarrow> 'e + 'a \<Rightarrow> ('a \<Rightarrow> 'e + ('a, 'c) Server) \<Rightarrow> 's \<Rightarrow> ('e HostFailure + Engine \<times> ('a, 'c) Server) \<times> 's" where
  "host_main tr address start s =
     (case broker_start tr host_config s of
        (Inl e, s1) \<Rightarrow> (Inl (StartFailed e), s1)
      | (Inr broker, s1) \<Rightarrow>
          (case address of
             Inl e \<Rightarrow> Inl (AddressInvalid e)
           | Inr listen \<Rightarrow>
               (case start listen of
                  Inl e \<Rightarrow> Inl (ServerFailed e)
                | Inr server \<Rightarrow> Inr (engine_new broker (engine_config_new host_identity), server)), s1))"

section \<open>Startup of the EL0 service\<close>

definition SHARD_COUNT :: nat where "SHARD_COUNT = 2"
definition TOPIC :: bytes where "TOPIC = [101, 118, 101, 110, 116, 115]"
definition PARTITIONS :: int where "PARTITIONS = 4"
definition PARTITION_MAX_BYTES :: nat where "PARTITION_MAX_BYTES = 64 * 1024"
definition VERSION :: nat where "VERSION = 1"

text \<open>The build-time overrides of the advertised address; \<open>None\<close> is a compile error.\<close>

definition ADVERTISE_HOST :: "bytes option \<Rightarrow> bytes" where
  "ADVERTISE_HOST env = (case env of Some host \<Rightarrow> host | None \<Rightarrow> [48, 46, 48, 46, 48, 46, 48])"

definition ADVERTISE_PORT :: "bytes option \<Rightarrow> int option" where
  "ADVERTISE_PORT env = (case env of Some port \<Rightarrow> decimal_port port | None \<Rightarrow> Some LISTEN_PORT)"

text \<open>
  What the service uses of the system: its bootstrap connection, names, endpoints, the memory of its deployment
  descriptor with the decoder for it, and the grant and name services. \<open>None\<close> is a refusal.
\<close>

record ('b, 'd, 'e, 't) Platform =
  pf_name :: "bytes \<Rightarrow> 64 word"
  pf_bootstrap :: "'b option"
  pf_endpoint :: "64 word \<Rightarrow> nat \<Rightarrow> nat \<Rightarrow> 'e option"
  pf_profile :: "'d option"
  pf_map :: "'d \<Rightarrow> bytes option"
  pf_decode :: "bytes \<Rightarrow> bytes option"
  pf_acquire :: "'b \<Rightarrow> 'd \<Rightarrow> bytes \<Rightarrow> 't option"
  pf_publish :: "'b \<Rightarrow> 'd \<Rightarrow> bytes \<Rightarrow> 'e \<Rightarrow> bool"
  pf_wait_name :: "'b \<Rightarrow> 64 word \<Rightarrow> 't option"

definition INTERFACE :: "('b, 'd, 'e, 't) Platform \<Rightarrow> 64 word" where
  "INTERFACE pf = pf_name pf [75, 66, 82, 75]"

definition descriptor_name :: "('b, 'd, 'e, 't) Platform \<Rightarrow> 'd \<Rightarrow> bytes option" where
  "descriptor_name pf descriptor =
     (case pf_map pf descriptor of None \<Rightarrow> None | Some mapping \<Rightarrow> pf_decode pf mapping)"

text \<open>The actions other domains see, and what the accept loop is entered with.\<close>

datatype 't StartAction = AcquireTcp 't | PublishReadiness bytes | LookupTcp 't

record ('e, 't) El0Service =
  es_engine :: Engine
  es_diagnostics :: Diagnostics
  es_layout :: SessionShardLayout
  es_endpoint :: 'e
  es_tcp :: 't

definition el0_config :: BrokerConfig where
  "el0_config = with_partition_max_bytes PARTITION_MAX_BYTES
     (config_new SHARD_COUNT [\<lparr>ts_name = TOPIC, ts_partitions = PARTITIONS\<rparr>])"

text \<open>Connecting to the TCP service, either by the deployment descriptor or by name. \<open>None\<close> is \<^verbatim>\<open>domain_abort\<close>.\<close>

definition el0_connect ::
  "('b, 'd, 'e, 't) Platform \<Rightarrow> 'b \<Rightarrow> 'e \<Rightarrow> 't StartAction list \<times> 't option" where
  "el0_connect pf bootstrap endpoint =
     (case pf_profile pf of
        Some descriptor \<Rightarrow>
          (case descriptor_name pf descriptor of
             None \<Rightarrow> ([], None)
           | Some name \<Rightarrow>
               (case pf_acquire pf bootstrap descriptor [116, 99, 112, 105, 112] of
                  None \<Rightarrow> ([], None)
                | Some tcp \<Rightarrow>
                    if pf_publish pf bootstrap descriptor name endpoint
                    then ([AcquireTcp tcp, PublishReadiness name], Some tcp)
                    else ([AcquireTcp tcp], None)))
      | None \<Rightarrow>
          (case pf_wait_name pf bootstrap (pf_name pf [116, 99, 112, 105, 112]) of
             None \<Rightarrow> ([], None)
           | Some tcp \<Rightarrow> ([LookupTcp tcp], Some tcp)))"

definition el0_start ::
  "'s Transport \<Rightarrow> ('b, 'd, 'e, 't) Platform \<Rightarrow> bytes \<Rightarrow> int \<Rightarrow> 's
     \<Rightarrow> 't StartAction list \<times> ('e, 't) El0Service option \<times> 's" where
  "el0_start tr pf host port s =
     (case broker_start tr el0_config s of
        (Inl _, s1) \<Rightarrow> ([], None, s1)
      | (Inr broker, s1) \<Rightarrow>
          (case pf_bootstrap pf of
             None \<Rightarrow> ([], None, s1)
           | Some bootstrap \<Rightarrow>
               (case pf_endpoint pf (INTERFACE pf) VERSION 4 of
                  None \<Rightarrow> ([], None, s1)
                | Some endpoint \<Rightarrow>
                    let (acts, tcp) = el0_connect pf bootstrap endpoint in
                    (acts,
                     map_option (\<lambda>tcp. \<lparr>es_engine = engine_new broker (engine_config_new (identity_new 0 host port)),
                                        es_diagnostics = diagnostics_default,
                                        es_layout = layout_new 0 SESSION_SHARD_COUNT,
                                        es_endpoint = endpoint, es_tcp = tcp\<rparr>) tcp,
                     s1))))"

text \<open>The page that carries the listen request: the port in little-endian order at its start.\<close>

definition listen_page :: "bytes \<Rightarrow> bytes" where
  "listen_page page = [word_of_int (LISTEN_PORT mod 256), word_of_int (LISTEN_PORT div 256)] @ drop 2 page"

text \<open>Listening: a page that cannot be allocated or mapped and a call that fails are \<^verbatim>\<open>domain_abort\<close>, \<open>None\<close>.\<close>

definition el0_listen :: "bytes option \<Rightarrow> (bytes \<Rightarrow> int option) \<Rightarrow> int option" where
  "el0_listen page call_listen = (case page of None \<Rightarrow> None | Some bs \<Rightarrow> call_listen (listen_page bs))"

lemma listen_page_port:
  assumes "2 \<le> length page"
  shows "length (listen_page page) = length page \<and> drop 2 (listen_page page) = drop 2 page
    \<and> uint (listen_page page ! 0) + 256 * uint (listen_page page ! 1) = LISTEN_PORT"
  using assms by (simp add: listen_page_def LISTEN_PORT_def)

section \<open>Started brokers\<close>

lemma started_single:
  assumes "broker_start tr config s = (Inr b, s')" and "bc_topics config = [\<lparr>ts_name = name, ts_partitions = n\<rparr>]"
  shows "br_catalog b = \<lparr>tc_topics = [(name, n)]\<rparr> \<and> name \<noteq> [] \<and> 0 < n \<and> br_shards b = bc_shard_count config \<and> 0 < br_shards b"
  using assms
  by (auto simp: broker_start_def cbind_def ccore_def creturn_def cfail_def catalog_create_def catalog_new_def
      split: if_splits sum.splits prod.splits)

lemma single_starts:
  assumes "\<And>n s. fst (tp_mailbox tr n s)" and "bc_topics config = [\<lparr>ts_name = name, ts_partitions = n\<rparr>]"
    and "name \<noteq> []" and "0 < n" and "0 < bc_shard_count config" and "2 \<le> bc_mailbox_capacity config"
  shows "\<exists>b s'. broker_start tr config s = (Inr b, s')"
proof -
  let ?c = "\<lparr>tc_topics = [(name, n)]\<rparr>"
  have "fst (spawn_shards tr config ?c [0..<bc_shard_count config] s) = Inr ()" by (rule spawn_shards_ok [OF assms(1)])
  then show ?thesis
    using assms(2-6)
    by (cases "spawn_shards tr config ?c [0..<bc_shard_count config] s")
      (auto simp: broker_start_def cbind_def ccore_def creturn_def catalog_create_def catalog_new_def)
qed

text \<open>What an engine over a broker with one topic tells its clients.\<close>

lemma single_topic_metadata:
  assumes "br_catalog (en_broker e) = \<lparr>tc_topics = [(name, n)]\<rparr>"
  shows "response_topics e None = [\<lparr>wtm_error = NO_ERROR, wtm_name = name, wtm_is_internal = False, wtm_partitions = partitions_of e n\<rparr>]"
    and "check_partition (br_catalog (en_broker e)) topic prt = Inr () \<longleftrightarrow> topic = name \<and> 0 \<le> prt \<and> prt < n"
  by (auto simp: assms response_topics_def broker_metadata_def catalog_metadata_def check_partition_def partition_count_def)

lemma el0_connect_published:
  assumes "el0_connect pf bootstrap endpoint = (acts, tcp)" and "PublishReadiness name \<in> set acts"
  shows "\<exists>d t. pf_profile pf = Some d \<and> descriptor_name pf d = Some name \<and> acts = [AcquireTcp t, PublishReadiness name] \<and> tcp = Some t"
  using assms by (auto simp: el0_connect_def split: option.splits if_splits)

lemma el0_start_service:
  assumes "el0_start tr pf host port s = (acts, Some sv, s')"
  shows "\<exists>broker s1. broker_start tr el0_config s = (Inr broker, s1)
    \<and> es_engine sv = engine_new broker (engine_config_new (identity_new 0 host port)) \<and> es_layout sv = layout_new 0 SESSION_SHARD_COUNT"
  using assms by (auto simp: el0_start_def split: prod.splits sum.splits option.splits)

lemma el0_started_broker:
  assumes "broker_start tr el0_config s = (Inr broker, s1)"
  shows "br_catalog broker = \<lparr>tc_topics = [(TOPIC, 4)]\<rparr> \<and> br_shards broker = SHARD_COUNT"
  using started_single [OF assms, of TOPIC PARTITIONS]
  by (simp add: el0_config_def with_partition_max_bytes_def config_new_def PARTITIONS_def)

lemma el0_service_facts:
  assumes "ADVERTISE_PORT env = Some port" and "el0_start tr pf host port s = (acts, Some sv, s')"
  shows "bi_port (en_identity (es_engine sv)) \<in> {1..65535}"
    and "map (\<lambda>t. (wtm_error t, wtm_name t, map pm_partition (wtm_partitions t))) (response_topics (es_engine sv) None)
      = [(NO_ERROR, TOPIC, [0, 1, 2, 3])]"
    and "check_partition (br_catalog (en_broker (es_engine sv))) topic prt = Inr () \<longleftrightarrow> topic = TOPIC \<and> prt \<in> {0..3}"
    and "shard_index (en_broker (es_engine sv)) topic prt < SHARD_COUNT"
    and "shard_for (es_layout sv) c < SESSION_SHARD_COUNT"
proof -
  obtain broker s1 where st: "broker_start tr el0_config s = (Inr broker, s1)"
    and e: "es_engine sv = engine_new broker (engine_config_new (identity_new 0 host port))"
    and l: "es_layout sv = layout_new 0 SESSION_SHARD_COUNT"
    using el0_start_service [OF assms(2)] by blast
  note b = el0_started_broker [OF st]
  have eb: "en_broker (es_engine sv) = broker" by (simp add: e engine_new_def)
  show "bi_port (en_identity (es_engine sv)) \<in> {1..65535}"
    using assms(1) decimal_port_range [of _ port]
    by (auto simp: e engine_new_def engine_config_new_def identity_new_def ADVERTISE_PORT_def LISTEN_PORT_def split: option.splits)
  have cat: "br_catalog (en_broker (es_engine sv)) = \<lparr>tc_topics = [(TOPIC, 4)]\<rparr>" using b eb by simp
  have "[0..3::int] = [0, 1, 2, 3]" by (simp add: upto.simps)
  then show "map (\<lambda>t. (wtm_error t, wtm_name t, map pm_partition (wtm_partitions t))) (response_topics (es_engine sv) None)
      = [(NO_ERROR, TOPIC, [0, 1, 2, 3])]"
    by (simp add: single_topic_metadata(1) [OF cat] partitions_of_def comp_def)
  show "check_partition (br_catalog (en_broker (es_engine sv))) topic prt = Inr () \<longleftrightarrow> topic = TOPIC \<and> prt \<in> {0..3}"
    unfolding single_topic_metadata(2) [OF cat] by auto
  show "shard_index (en_broker (es_engine sv)) topic prt < SHARD_COUNT"
    using b shard_index_less [of broker topic prt] by (simp add: eb SHARD_COUNT_def)
  show "shard_for (es_layout sv) c < SESSION_SHARD_COUNT"
    using shard_for_range [of 0 SESSION_SHARD_COUNT c] by (simp add: l SESSION_SHARD_COUNT_def)
qed

lemma host_main_serves:
  assumes "host_main tr address start s = (Inr (e, server), s')"
  shows "map (\<lambda>t. (wtm_error t, wtm_name t, map pm_partition (wtm_partitions t))) (response_topics e None) = [(NO_ERROR, TOPIC, [0, 1, 2, 3])]
    \<and> shard_index (en_broker e) topic prt < 4 \<and> (\<exists>listen. address = Inr listen \<and> start listen = Inr server)"
proof -
  obtain broker s1 listen where st: "broker_start tr host_config s = (Inr broker, s1)"
    and e: "e = engine_new broker (engine_config_new host_identity)" and l: "address = Inr listen" "start listen = Inr server"
    using assms by (auto simp: host_main_def split: prod.splits sum.splits)
  have b: "br_catalog (en_broker e) = \<lparr>tc_topics = [(TOPIC, 4)]\<rparr>" "br_shards (en_broker e) = 4"
    using started_single [OF st, of TOPIC 4] by (simp_all add: host_config_def config_new_def TOPIC_def e engine_new_def)
  have "[0..3::int] = [0, 1, 2, 3]" by (simp add: upto.simps)
  then show ?thesis
    using shard_index_less [of "en_broker e" topic prt] b(2) l
    by (simp add: single_topic_metadata(1) [OF b(1)] partitions_of_def comp_def)
qed

section \<open>Properties\<close>

text \<open>
  C22: stopping the TCP server. Whatever the listener returns and whenever the handle is shut down or dropped:
  once \<open>shutdown\<close> has returned, the accept thread has ended and no connection is added any more; as soon as the stop
  flag is stored, the thread ends within two of its turns, so that the join returns, and
  at most the one connection that was being accepted is still added. Connections are never lost from
  the list of started ones, and the address is the one that was bound.
\<close>

theorem server_shutdown_stops:
  assumes "server_start bind local_addr set_nonblocking spawned listen = Inr h0" and "server_step\<^sup>*\<^sup>* h0 h" and "server_step\<^sup>*\<^sup>* h h'"
  shows "(sv_handle h = HandleJoined \<longrightarrow> sv_stop h \<and> sv_accept h = Ended \<and> sv_connections h' = sv_connections h)
    \<and> (sv_stop h \<longrightarrow> sv_accept (host_accept_turn r2 (host_accept_turn r1 h)) = Ended
        \<and> length (sv_connections h') \<le> length (sv_connections h) + in_flight h)
    \<and> (\<exists>cs. sv_connections h' = sv_connections h @ cs)
    \<and> (\<exists>listener. bind listen = Inr listener \<and> local_addr listener = Inr (sv_local_addr h'))"
proof -
  have h0: "server_ok h0" "\<exists>listener. bind listen = Inr listener \<and> local_addr listener = Inr (sv_local_addr h0)"
    using assms(1) by (auto simp: server_start_def server_ok_def split: sum.splits)
  note r1 = server_run_effect [OF assms(2)] and r2 = server_run_effect [OF assms(3)]
  have ok: "server_ok h" using r1 h0 by blast
  have "sv_handle h = HandleJoined \<longrightarrow> sv_stop h \<and> sv_accept h = Ended \<and> sv_connections h' = sv_connections h"
    using ok r2 by (simp add: server_ok_def)
  moreover have "sv_stop h \<longrightarrow> length (sv_connections h') \<le> length (sv_connections h) + in_flight h" using r2 by linarith
  ultimately show ?thesis using r1 r2 h0(2) stopping_ends by metis
qed

theorem server_shutdown_stops_witness:
  "\<exists>h :: (nat, nat) Server. server_start Inr Inr (\<lambda>_. Inr ()) (Inr () :: unit + unit) 9092 = Inr (h\<lparr>sv_stop := False\<rparr>)
     \<and> server_step\<^sup>*\<^sup>* (h\<lparr>sv_stop := False\<rparr>) (handle_stop h) \<and> sv_accept (host_accept_turn HostWouldBlock (host_accept_turn HostWouldBlock (handle_stop h))) = Ended"
proof -
  let ?h = "\<lparr>sv_local_addr = 9092, sv_stop = False, sv_accept = Polling, sv_handle = HandleHeld, sv_connections = []\<rparr> :: (nat, nat) Server"
  have st: "server_start Inr Inr (\<lambda>_. Inr ()) (Inr () :: unit + unit) 9092 = Inr ?h" by (simp add: server_start_def)
  have r: "server_step\<^sup>*\<^sup>* ?h (handle_stop ?h)" by (intro r_into_rtranclp) (simp add: server_step_def server_stop)
  have "sv_stop (handle_stop ?h)" by (simp add: handle_stop_def)
  then have "sv_accept (host_accept_turn HostWouldBlock (host_accept_turn HostWouldBlock (handle_stop ?h))) = Ended"
    using server_shutdown_stops [OF st r rtranclp.rtrancl_refl] by blast
  then show ?thesis using st r by (intro exI [of _ ?h]) simp
qed

text \<open>
  C23: the EL0 service starts with what its clients need. When it enters its accept loop, the advertised port is a valid
  one; metadata lists the configured topic with its four partitions, exactly the partitions that
  requests are accepted for; and every partition and every session has a shard of its own pool. It publishes its readiness only
  after its broker and the TCP grant are there, once, under the name of its descriptor, and then
  it does enter the loop. When the mailboxes, the bootstrap connection, the endpoint and the TCP
  connection are granted, it starts.
\<close>

theorem el0_start_outcome:
  assumes "ADVERTISE_PORT env = Some port" and "el0_start tr pf host port s = (acts, service, s')"
  shows "(\<forall>name. PublishReadiness name \<in> set acts \<longrightarrow>
        (\<exists>d tcp sv. pf_profile pf = Some d \<and> descriptor_name pf d = Some name
           \<and> acts = [AcquireTcp tcp, PublishReadiness name] \<and> service = Some sv \<and> es_tcp sv = tcp))
    \<and> (\<forall>sv. service = Some sv \<longrightarrow>
          bi_port (en_identity (es_engine sv)) \<in> {1..65535}
        \<and> map (\<lambda>t. (wtm_error t, wtm_name t, map pm_partition (wtm_partitions t))) (response_topics (es_engine sv) None)
            = [(NO_ERROR, TOPIC, [0, 1, 2, 3])]
        \<and> (\<forall>topic prt. check_partition (br_catalog (en_broker (es_engine sv))) topic prt = Inr () \<longleftrightarrow> topic = TOPIC \<and> prt \<in> {0..3})
        \<and> (\<forall>topic prt. shard_index (en_broker (es_engine sv)) topic prt < SHARD_COUNT)
        \<and> (\<forall>c. shard_for (es_layout sv) c < SESSION_SHARD_COUNT))
    \<and> ((\<forall>n s. fst (tp_mailbox tr n s)) \<and> pf_bootstrap pf = Some bootstrap \<and> pf_endpoint pf (INTERFACE pf) VERSION 4 = Some endpoint
        \<and> snd (el0_connect pf bootstrap endpoint) \<noteq> None \<longrightarrow> service \<noteq> None)"
proof (intro conjI allI impI, goal_cases)
  case (1 name)
  then obtain b0 ep tcp sv where c: "el0_connect pf b0 ep = (acts, tcp)" "service = map_option sv tcp" "\<And>t. es_tcp (sv t) = t"
    using assms(2) by (fastforce simp: el0_start_def split: prod.splits sum.splits option.splits)
  show ?case using el0_connect_published [OF c(1) 1] c(2,3) by auto
next
  case (2 sv)
  then show ?case using el0_service_facts(1) [OF assms(1)] assms(2) by simp
next
  case (3 sv)
  then show ?case using el0_service_facts(2) [OF assms(1)] assms(2) by simp
next
  case (4 sv topic prt)
  then show ?case using el0_service_facts(3) [OF assms(1)] assms(2) by simp
next
  case (5 sv topic prt)
  then show ?case using el0_service_facts(4) [OF assms(1)] assms(2) by simp
next
  case (6 sv c)
  then show ?case using el0_service_facts(5) [OF assms(1)] assms(2) by simp
next
  case 7
  then obtain broker s1 where "broker_start tr el0_config s = (Inr broker, s1)"
    using single_starts [of tr el0_config TOPIC PARTITIONS s]
    by (auto simp: el0_config_def with_partition_max_bytes_def config_new_def DEFAULT_MAILBOX_CAPACITY_def SHARD_COUNT_def
        TOPIC_def PARTITIONS_def)
  then show ?case using assms(2) 7 by (auto simp: el0_start_def split: prod.splits)
qed

definition demo_platform :: "(unit, unit, unit, nat) Platform" where
  "demo_platform = \<lparr>pf_name = (\<lambda>_. 0), pf_bootstrap = Some (), pf_endpoint = (\<lambda>_ _ _. Some ()), pf_profile = Some (),
     pf_map = (\<lambda>_. Some []), pf_decode = (\<lambda>_. Some [98]), pf_acquire = (\<lambda>_ _ _. Some 5), pf_publish = (\<lambda>_ _ _ _. True),
     pf_wait_name = (\<lambda>_ _. None)\<rparr>"

theorem el0_start_outcome_witness:
  "\<exists>acts sv s'. el0_start demo_transport demo_platform [104] 9093 sim_new = (acts, Some sv, s')
     \<and> bi_port (en_identity (es_engine sv)) \<in> {1..65535} \<and> (\<exists>tcp. acts = [AcquireTcp tcp, PublishReadiness [98]])"
proof -
  have p: "ADVERTISE_PORT (Some [57, 48, 57, 51]) = Some 9093"
    by (simp add: ADVERTISE_PORT_def decimal_port_def max_signed_def)
  obtain sv s' where e: "el0_start demo_transport demo_platform [104] 9093 sim_new = ([AcquireTcp 5, PublishReadiness [98]], Some sv, s')"
    by (simp add: el0_start_def el0_connect_def descriptor_name_def demo_platform_def el0_config_def with_partition_max_bytes_def
        config_new_def SHARD_COUNT_def TOPIC_def PARTITIONS_def broker_start_def DEFAULT_MAILBOX_CAPACITY_def catalog_create_def
        catalog_new_def demo_eval)
  show ?thesis using el0_start_outcome [OF p e] e by auto
qed

end
