(* ===== verification/Display_Text.thy ===== *)
theory Display_Text
  imports Broker_Runtime Wire_Codec
begin

text \<open>
  The texts of the error types (\<^verbatim>\<open>impl fmt::Display\<close> in \<^verbatim>\<open>broker-core\<close>, \<^verbatim>\<open>broker-wire\<close> and \<^verbatim>\<open>broker-runtime\<close>). An error
  can be told from its text.
\<close>

fun display_log_error :: "LogError \<Rightarrow> string" where
  "display_log_error UnknownTopic = ''unknown topic''"
| "display_log_error UnknownPartition = ''unknown partition''"
| "display_log_error InvalidTopic = ''invalid topic definition''"
| "display_log_error DuplicateTopic = ''duplicate topic''"
| "display_log_error EmptyAppend = ''append with no records''"
| "display_log_error TooManyRecords = ''append exceeds the record bound''"
| "display_log_error OffsetOutOfRange = ''offset out of range''"

fun display_coordination_error :: "CoordinationError \<Rightarrow> string" where
  "display_coordination_error InvalidId = ''invalid coordinator id''"
| "display_coordination_error UnknownTransaction = ''unknown transaction''"
| "display_coordination_error ProducerFenced = ''producer fenced''"
| "display_coordination_error InvalidTransactionState = ''invalid transaction state''"
| "display_coordination_error UnknownGroup = ''unknown group''"
| "display_coordination_error UnknownMember = ''unknown group member''"
| "display_coordination_error IllegalGeneration = ''illegal group generation''"

fun display_wire_error :: "WireError \<Rightarrow> string" where
  "display_wire_error Incomplete = ''incomplete frame''"
| "display_wire_error Invalid = ''invalid field''"
| "display_wire_error TooLarge = ''field exceeds the bound''"
| "display_wire_error UnsupportedApi = ''unsupported API''"
| "display_wire_error UnsupportedVersion = ''unsupported API version''"
| "display_wire_error Correlation = ''correlation id mismatch''"
| "display_wire_error Checksum = ''record batch checksum mismatch''"

fun display_broker_error :: "BrokerError \<Rightarrow> string" where
  "display_broker_error InvalidConfig = ''invalid broker configuration''"
| "display_broker_error MailboxUnavailable = ''shard mailbox unavailable''"
| "display_broker_error ReplyTimeout = ''shard reply timed out''"
| "display_broker_error UnexpectedReply = ''unexpected shard reply''"
| "display_broker_error (Core error) = ''broker core error: '' @ display_log_error error"
| "display_broker_error (CoordinationErr error) = ''coordination error: '' @ display_coordination_error error"

lemma display_log_error_inj: "display_log_error e = display_log_error e' \<Longrightarrow> e = e'"
  by (cases e; cases e') simp_all

lemma display_coordination_error_inj: "display_coordination_error e = display_coordination_error e' \<Longrightarrow> e = e'"
  by (cases e; cases e') simp_all

lemma display_wire_error_inj: "display_wire_error e = display_wire_error e' \<Longrightarrow> e = e'"
  by (cases e; cases e') simp_all

lemma display_broker_error_inj: "display_broker_error e = display_broker_error e' \<Longrightarrow> e = e'"
  by (cases e; cases e') (auto dest: display_log_error_inj display_coordination_error_inj)

end
