(* ===== verification/Spec2Isabelle.thy ===== *)
theory Spec2Isabelle
  imports Log_Properties Topic_Catalog Transaction_Coordinator Group_Coordinator
    Record_Batch_Laws Wire_Request_Laws Wire_Response_Laws Transaction_Isolation Coordination_Facade Broker_Liveness
    Engine_Properties
    Connection_Properties Smoke_Session Service_Startup Display_Text
begin

text \<open>
  A verification development for the Charlotte Kafka broker.

  \<^bold>\<open>The program.\<close> A small in-memory broker that speaks a subset of the Kafka protocol. Its crates are
  layers. \<^verbatim>\<open>broker-core\<close> holds the partition log, the topic catalog and the coordinators of transactions
  and consumer groups, all single-threaded. \<^verbatim>\<open>broker-wire\<close> decodes requests and encodes responses and
  record batches. \<^verbatim>\<open>broker-runtime\<close> places partitions on shards, each a task that owns its logs and
  answers commands from a mailbox, and offers a facade that sends a command and waits for the reply.
  \<^verbatim>\<open>broker-engine\<close> turns a request frame into facade calls and a response frame. Two front
  ends, \<^verbatim>\<open>broker-host\<close> (TCP) and \<^verbatim>\<open>broker-el0\<close> (a CharlotteOS service), read frames from connections and send
  the responses.

  \<^bold>\<open>Conventions.\<close> A Rust struct is a record whose fields have a short prefix, an enum a datatype with the
  source's constructors. Signed integers are \<^typ>\<open>int\<close> with the range predicate \<^const>\<open>in_signed\<close>
  and with wrapping (\<^const>\<open>wrap_signed\<close>) or saturating (\<^const>\<open>sat_add\<close>) arithmetic written out where the source
  has it; hashes and counters are machine words; \<^verbatim>\<open>usize\<close> is \<^typ>\<open>nat\<close>; bytes are 8-bit words. Ordered maps
  are association lists with strictly increasing keys. A \<^verbatim>\<open>Result\<close> is a sum whose left side is the error.
  State is passed explicitly. Loops are structural recursion, or have a measure; the only bounds are the
  source's own retry limits, so no fuel is added anywhere.

  \<^bold>\<open>Theories, from the bottom up.\<close>

  \<^item> \<open>Broker_Prelude\<close>: integers, ordered maps, and the lemmas on them that everything shares.

  \<^item> \<open>Partition_Log\<close>, \<open>Log_Fetch\<close>, \<open>Log_History\<close>, \<open>Log_Properties\<close> model \<^verbatim>\<open>broker-core/src/log.rs\<close>. The invariant
  \<^const>\<open>log_wf\<close> says that batches are contiguous and sizes are accounted; the locale \<open>log_appender\<close> is what both append
  paths share. The specification is the history of accepted records, and \<^const>\<open>represents\<close> the refinement relation: a
  log is a suffix of its history, stamped with positions as offsets. Shown: refinement along any operations, atomic
  appends, what retention may evict, that a fetch returns exactly the longest window within its limits
  and returns history, that a polling consumer is given every record it may see, and read-committed isolation.

  \<^item> \<open>Topic_Catalog\<close> models \<^verbatim>\<open>topic.rs\<close>: creating topics, and which partitions requests are routed to.

  \<^item> \<open>Transaction_Coordinator\<close> and \<open>Group_Coordinator\<close> model \<^verbatim>\<open>coordination.rs\<close>, with step relations over the
  coordinator's operations. Shown: fencing of old producer identities and generations in all later states,
  what ending a transaction releases, that a join assigns every subscribed partition to exactly one
  subscriber, evenly among consecutive partitions with the same subscribers, and that an offset read returns the last accepted commit.

  \<^item> \<open>Wire_Codec\<close>, \<open>Record_Batch\<close>, \<open>Wire_Request\<close>, \<open>Wire_Response\<close> model \<^verbatim>\<open>broker-wire\<close>; \<open>Record_Batch_Laws\<close>,
  \<open>Wire_Request_Laws\<close>, \<open>Wire_Response_Laws\<close> hold their laws. A reader satisfies \<^const>\<open>reads\<close> when it inverts an
  encoding; locales lift that from a field to arrays and records. The client's side, which encodes requests
  and decodes responses, is part of the specification. Shown: round trips for every request, response and record
  batch, detection of damaged batches, bounds, and exactly which inputs are refused.

  \<^item> \<open>Partition_Shard\<close> models \<^verbatim>\<open>broker-runtime/src/message.rs\<close> and \<^verbatim>\<open>partition.rs\<close>: a shard is a function from the
  commands it receives to its replies. Each partition's log follows its own history, and every command is
  answered once and in kind.

  \<^item> \<open>Broker_Runtime\<close> models \<^verbatim>\<open>broker.rs\<close>, \<^verbatim>\<open>error.rs\<close> and \<^verbatim>\<open>session.rs\<close>. Channels, parking and spawning come from an
  external package and are a parameter, the record \<open>Transport\<close>. \<open>Broker_Transport\<close> states what is relied on as the
  locale \<open>shard_transport\<close>: fresh channels, delivery and reply at most once, and that a shard runs \<^verbatim>\<open>partition_task\<close> on the
  commands of its mailbox. It proves
  what follows for calls with any other clients interleaved, and interprets the locale by a scheduled system of
  shards with bounded mailboxes. \<open>Broker_Properties\<close> has the client's view: at most once execution,
  acknowledged records are read back, replies of the expected kind, shutdown, startup and placement.
  \<open>Transaction_Facade\<close> follows the end of a transaction across shards: which commands it executed where, and
  that the logs and the coordinator were left settled. \<open>Log_Isolation\<close> and \<open>Transaction_Isolation\<close> follow the records of
  one transactional produce from the log up to the facade: hidden from read-committed clients until a commit of their
  producer id, readable after it. They are resolved by producer id, as the log does it, not by transaction. \<open>Coordination_Facade\<close> lifts fencing and committed offsets from the coordinators to clients that
  share the broker. \<open>Broker_Liveness\<close> extends the interface to the locale
  \<open>responsive_transport\<close>, a transport that takes and answers commands within bounded numbers of parks, proves that calls
  with a sufficient retry budget complete, and interprets it by shards that get a turn at every park.

  \<^item> \<open>Broker_Engine\<close> models \<^verbatim>\<open>broker-engine/src/engine.rs\<close>, one definition per handler. \<open>Engine_Properties\<close>: responses carry
  the request's correlation id and answer its API, acknowledged produce requests are what later fetch
  responses return, and metadata lists exactly the partitions that requests are routed to.

  \<^item> \<open>Connection_Loops\<close> models the connection loops of \<^verbatim>\<open>broker-host/src/server.rs\<close> and \<^verbatim>\<open>broker-el0/src/main.rs\<close>, and the
  EL0 accept loop and diagnostics. \<open>Connection_Properties\<close>: both front ends send the same responses however
  the stream is cut into chunks. \<open>Service_Startup\<close> models starting and stopping the TCP server, with the accept thread and
  the shutdown handle as a step relation, the program \<^verbatim>\<open>broker-host/examples/host_broker.rs\<close>, and the startup of the EL0
  service. Shown: shutdown ends the accept thread and adds no connection, and an EL0 service that
  reports readiness serves what it is configured for.

  \<^item> \<open>Smoke_Client\<close> models the program \<^verbatim>\<open>broker-host/examples/remote_smoke.rs\<close>, which exercises a running broker over a
  socket; the socket and the client codec \<^verbatim>\<open>charlotte_kafka\<close> are parameters. \<open>Smoke_Exchange\<close> has the two interfaces it relies on,
  the locales \<open>client_codec\<close> (requests and responses in the Kafka layouts) and \<open>served_connection\<close> (frames reach the engine, its
  responses come back), and \<open>Smoke_Properties\<close> follows the five exchanges of a run through codec, engine, facade,
  shard and log. \<open>Smoke_Session\<close> interprets the locales, by a codec made of the layouts of the wire laws and by the client's end
  of a connection of the TCP server. Shown: what a successful run proves about the broker, and what a failed run can mean.

  \<^item> \<open>Display_Text\<close>: the texts of the error types, from which the error can be told.

  \<^bold>\<open>Hypotheses.\<close> Theorems about the facade and the engine assume a transport that satisfies \<open>shard_transport\<close> or
  \<open>responsive_transport\<close>; their witnesses use the scheduled one. The smoke client's verdict assumes \<open>client_codec\<close> and
  \<open>served_connection\<close>, and its witness is a complete run. What the operating system returns is a parameter of the
  services. Where 64-bit offsets matter, they assume that a partition has had at most
  \<open>2^63 - 1\<close> records.

  \<^bold>\<open>Not modelled.\<close> The inside of operating system calls (sockets, threads, CharlotteOS capabilities); the spawning of shard threads and
  the delivery of replies (\<^verbatim>\<open>spawn_partition_shard\<close>, \<^verbatim>\<open>respond\<close>), which belong to the transport; log output, capacity
  hints of vectors, and the tests, the build script and the tools of the repository, which build, start or load the
  program through other software. Memory exhaustion and panics of the allocator are outside the model.
\<close>

end
